(* ===== verification/Prelude.thy ===== *)
theory Prelude
  imports Main "HOL-Library.Word" "HOL-Library.Product_Lexorder"
begin

text \<open>
  The vocabulary every component shares: Rust's machine integers as words with their
  saturating and checked operations, slice access, the "push if not contained" idiom, the
  fallible result type, and the general list facts the component proofs rest on.
\<close>

section \<open>Machine integers\<close>

type_synonym u8 = "8 word"
type_synonym u16 = "16 word"
type_synonym u32 = "32 word"
type_synonym u64 = "64 word"
type_synonym u128 = "128 word"
type_synonym u256 = "256 word"

text \<open>The 20-byte and 32-byte values of the chain, read big-endian, and raw bytes.\<close>

type_synonym address = "160 word"
type_synonym b256 = "256 word"
type_synonym bytes = "u8 list"

named_theorems rust_arith

definition saturating_add :: "'a::len word \<Rightarrow> 'a word \<Rightarrow> 'a word" where
  "saturating_add x y = (if unat x + unat y < 2 ^ LENGTH('a) then x + y else - 1)"

definition saturating_sub :: "'a::len word \<Rightarrow> 'a word \<Rightarrow> 'a word" where
  "saturating_sub x y = (if x < y then 0 else x - y)"

definition saturating_mul :: "'a::len word \<Rightarrow> 'a word \<Rightarrow> 'a word" where
  "saturating_mul x y = (if unat x * unat y < 2 ^ LENGTH('a) then x * y else - 1)"

definition checked_mul :: "'a::len word \<Rightarrow> 'a word \<Rightarrow> 'a word option" where
  "checked_mul x y = (if unat x * unat y < 2 ^ LENGTH('a) then Some (x * y) else None)"

definition checked_sub :: "'a::len word \<Rightarrow> 'a word \<Rightarrow> 'a word option" where
  "checked_sub x y = (if x < y then None else Some (x - y))"

text \<open>\<open>Ord::clamp\<close>; Rust panics when \<open>lo > hi\<close>, and every call of the program passes constants in order.\<close>

definition clamp :: "'a::len word \<Rightarrow> 'a word \<Rightarrow> 'a word \<Rightarrow> 'a word" where
  "clamp x lo hi = (if x < lo then lo else if hi < x then hi else x)"

lemma unat_lt2p: "unat (w :: 'a::len word) < 2 ^ LENGTH('a)"
  by (rule unsigned_less)

lemma unat_minus_le: "y \<le> x \<Longrightarrow> unat (x - y :: 'a::len word) = unat x - unat y"
  by (simp add: unat_sub_if' word_le_nat_alt)

lemma unat_pred: "0 < unat x \<Longrightarrow> unat (x - 1 :: 'a::len word) = unat x - 1"
  by (simp add: unat_minus_le word_le_nat_alt)

lemma unat_max_word: "unat (- 1 :: 'a::len word) = 2 ^ LENGTH('a) - 1"
  by (simp add: mask_eq_exp_minus_1 unsigned_minus_1_eq_mask)

lemma unat_saturating_add [rust_arith]:
  "unat (saturating_add x (y :: 'a::len word)) = min (unat x + unat y) (2 ^ LENGTH('a) - 1)"
proof (cases "unat x + unat y < 2 ^ LENGTH('a)")
  case True
  then show ?thesis by (simp add: saturating_add_def unat_word_ariths)
next
  case False
  then show ?thesis by (simp add: saturating_add_def unat_max_word)
qed

lemma unat_saturating_sub [rust_arith]:
  "unat (saturating_sub x (y :: 'a::len word)) = unat x - unat y"
  by (auto simp: saturating_sub_def unat_sub_if' word_less_nat_alt)

lemma unat_saturating_mul [rust_arith]:
  "unat (saturating_mul x (y :: 'a::len word)) = min (unat x * unat y) (2 ^ LENGTH('a) - 1)"
proof (cases "unat x * unat y < 2 ^ LENGTH('a)")
  case True
  then show ?thesis by (simp add: saturating_mul_def unat_word_ariths)
next
  case False
  then show ?thesis by (simp add: saturating_mul_def unat_max_word)
qed

lemma checked_mul_Some_iff [rust_arith]:
  "checked_mul x (y :: 'a::len word) = Some z \<longleftrightarrow> unat x * unat y < 2 ^ LENGTH('a) \<and> unat z = unat x * unat y"
  by (auto simp: checked_mul_def unat_word_ariths word_unat_eq_iff)

lemma checked_mul_None_iff [rust_arith]:
  "checked_mul x (y :: 'a::len word) = None \<longleftrightarrow> 2 ^ LENGTH('a) \<le> unat x * unat y"
  by (auto simp: checked_mul_def)

lemma unat_clamp:
  "lo \<le> hi \<Longrightarrow> unat (clamp x lo hi) = max (unat lo) (min (unat x) (unat hi))"
  by (auto simp: clamp_def word_less_nat_alt word_le_nat_alt)

lemma clamp_bounds: "lo \<le> hi \<Longrightarrow> lo \<le> clamp x lo hi \<and> clamp x lo hi \<le> hi"
  by (auto simp: clamp_def)

lemma unat_of_nat_small:
  "n < 2 ^ LENGTH('a) \<Longrightarrow> unat (of_nat n :: 'a::len word) = n"
  by (simp add: unat_of_nat take_bit_nat_eq_self)

lemma of_nat_eq_small:
  "m < 2 ^ LENGTH('a) \<Longrightarrow> n < 2 ^ LENGTH('a) \<Longrightarrow>
   (of_nat m :: 'a::len word) = of_nat n \<longleftrightarrow> m = n"
  by (metis unat_of_nat_small)

lemma of_nat_less_small:
  "m < 2 ^ LENGTH('a) \<Longrightarrow> n < 2 ^ LENGTH('a) \<Longrightarrow>
   (of_nat m :: 'a::len word) < of_nat n \<longleftrightarrow> m < n"
  by (simp add: word_less_nat_alt unat_of_nat_small)

section \<open>Slices\<close>

text \<open>\<open>slice::get\<close>: \<open>None\<close> out of range.\<close>

definition slice_get :: "'a list \<Rightarrow> nat \<Rightarrow> 'a option" where
  "slice_get xs i = (if i < length xs then Some (xs ! i) else None)"

lemma slice_get_Some_iff: "slice_get xs i = Some x \<longleftrightarrow> i < length xs \<and> xs ! i = x"
  by (auto simp: slice_get_def)

lemma slice_get_None_iff: "slice_get xs i = None \<longleftrightarrow> length xs \<le> i"
  by (auto simp: slice_get_def)

lemma slice_get_in_set: "slice_get xs i = Some x \<Longrightarrow> x \<in> set xs"
  by (auto simp: slice_get_Some_iff)

section \<open>Pushing what is not there yet\<close>

text \<open>The idiom \<open>if !out.contains(&x) { out.push(x) }\<close>, and a whole list pushed that way.\<close>

definition push_new :: "'a \<Rightarrow> 'a list \<Rightarrow> 'a list" where
  "push_new x out = (if x \<in> set out then out else out @ [x])"

definition first_seen :: "'a list \<Rightarrow> 'a list" where
  "first_seen xs = fold push_new xs []"

lemma set_push_new [simp]: "set (push_new x out) = insert x (set out)"
  by (auto simp: push_new_def)

lemma distinct_push_new [intro]: "distinct out \<Longrightarrow> distinct (push_new x out)"
  by (auto simp: push_new_def)

lemma set_fold_push_new [simp]: "set (fold push_new xs out) = set xs \<union> set out"
  by (induction xs arbitrary: out) auto

lemma distinct_fold_push_new: "distinct out \<Longrightarrow> distinct (fold push_new xs out)"
  by (induction xs arbitrary: out) auto

lemma set_first_seen [simp]: "set (first_seen xs) = set xs"
  by (simp add: first_seen_def)

lemma distinct_first_seen [simp]: "distinct (first_seen xs)"
  by (simp add: first_seen_def distinct_fold_push_new)

text \<open>First-seen order: the position of an element's first occurrence decides.\<close>

lemma first_seen_snoc: "first_seen (xs @ [x]) = push_new x (first_seen xs)"
  by (simp add: first_seen_def)

lemma first_seen_rev_remdups: "first_seen xs = rev (remdups (rev xs))"
  by (induction xs rule: rev_induct) (auto simp: first_seen_snoc push_new_def first_seen_def)

section \<open>Fallible results\<close>

text \<open>The errors the program raises or passes on (\<open>eyre::Report\<close>), one constructor per message.\<close>

datatype report =
    SqliteFailure
  | ToSqlConversionFailure u64
  | NoSuchTable string
  | CorruptLastIndexed string
  | InvalidStoredChainId string
  | ChainIdMismatch u64 u64
  | ReceiptsMissing u64
  | HeaderMissing u64
  | BlockContextMissing u64
  | ReceiptMissing u64 u64
  | DanglingBlock u64
  | EmptyReplay u64
  | DanglingTx u64 u64
  | DanglingReceipt u64 u64
  | BlockMissing u64 u64
  | ContractReadFailed string
  | TokenMetadataReadFailed string
  | HydrationMismatch nat nat
  | InvalidCorsOrigin string
  | NodeError string
  | ConsensusError string

text \<open>
  \<open>Result<T, E>\<close> with \<open>Inl\<close> the error; the \<open>?\<close> operator is \<open>try_bind\<close>, and a loop whose
  body uses \<open>?\<close> stops at the first error.
\<close>

type_synonym ('e, 'a) result = "'e + 'a"

fun try_bind :: "'e + 'a \<Rightarrow> ('a \<Rightarrow> 'e + 'b) \<Rightarrow> 'e + 'b" where
  "try_bind (Inl e) k = Inl e"
| "try_bind (Inr x) k = k x"

fun try_map :: "('a \<Rightarrow> 'e + 'b) \<Rightarrow> 'a list \<Rightarrow> 'e + 'b list" where
  "try_map f [] = Inr []"
| "try_map f (x # xs) = try_bind (f x) (\<lambda>y. try_bind (try_map f xs) (\<lambda>ys. Inr (y # ys)))"

fun map_result :: "('a \<Rightarrow> 'b) \<Rightarrow> 'e + 'a \<Rightarrow> 'e + 'b" where
  "map_result f (Inl e) = Inl e"
| "map_result f (Inr x) = Inr (f x)"

definition ok_or :: "'e \<Rightarrow> 'a option \<Rightarrow> 'e + 'a" where
  "ok_or e x = (case x of None \<Rightarrow> Inl e | Some y \<Rightarrow> Inr y)"

lemma try_bind_Inr_iff: "try_bind r k = Inr y \<longleftrightarrow> (\<exists>x. r = Inr x \<and> k x = Inr y)"
  by (cases r) auto

lemma try_bind_Inl_iff: "try_bind r k = Inl e \<longleftrightarrow> r = Inl e \<or> (\<exists>x. r = Inr x \<and> k x = Inl e)"
  by (cases r) auto

lemma ok_or_Inr_iff [simp]: "ok_or e x = Inr y \<longleftrightarrow> x = Some y"
  by (cases x) (auto simp: ok_or_def)

lemma ok_or_Inl_iff [simp]: "ok_or e x = Inl e' \<longleftrightarrow> x = None \<and> e' = e"
  by (cases x) (auto simp: ok_or_def)

lemma try_map_Inr_iff:
  "try_map f xs = Inr ys \<longleftrightarrow> list_all2 (\<lambda>x y. f x = Inr y) xs ys"
  by (induction xs arbitrary: ys) (auto simp: try_bind_Inr_iff list_all2_Cons1)

lemma try_map_all_Inr:
  "(\<And>x. x \<in> set xs \<Longrightarrow> f x = Inr (g x)) \<Longrightarrow> try_map f xs = Inr (map g xs)"
  by (induction xs) auto

lemma try_map_Inl:
  "try_map f xs = Inl e \<Longrightarrow> \<exists>x \<in> set xs. f x = Inl e"
  by (induction xs) (auto simp: try_bind_Inl_iff)

section \<open>List facts\<close>

lemma nth_enumerate_pair: "i < length xs \<Longrightarrow> enumerate n xs ! i = (n + i, xs ! i)"
  by (simp add: nth_enumerate_eq)

lemma take_drop_nth_eq: "p + i < length xs \<Longrightarrow> i < n \<Longrightarrow> take n (drop p xs) ! i = xs ! (p + i)"
  by simp

lemma sorted_wrt_take_drop: "sorted_wrt P xs \<Longrightarrow> sorted_wrt P (take n (drop p xs))"
  by (simp add: sorted_wrt_take sorted_wrt_drop)

text \<open>Sorting rows with distinct keys, newest first, is strictly descending.\<close>

lemma sort_key_strict:
  assumes "distinct (map f xs)"
  shows "sorted_wrt (\<lambda>x y. f x < f y) (sort_key f xs)"
proof -
  have "distinct (map f (sort_key f xs))"
    using assms by (simp add: distinct_map)
  moreover have "sorted (map f (sort_key f xs))" by simp
  ultimately have "sorted_wrt (<) (map f (sort_key f xs))"
    by (simp add: strict_sorted_iff)
  then show ?thesis by (simp add: sorted_wrt_map)
qed

lemma rev_sort_key_desc:
  "distinct (map f xs) \<Longrightarrow> sorted_wrt (\<lambda>x y. f y < f x) (rev (sort_key f xs))"
  using sort_key_strict by (simp add: sorted_wrt_rev)

section \<open>Fallible steps over a state\<close>

text \<open>
  An operation that reads and changes a state of type \<open>'s\<close> and ends with a result or an error;
  the state an error leaves is kept. \<open>?\<close> is \<open>andthen\<close>.
\<close>

type_synonym ('s, 'a) act = "'s \<Rightarrow> (report + 'a) \<times> 's"

definition ret :: "'a \<Rightarrow> ('s, 'a) act" where
  "ret x c = (Inr x, c)"

definition fail :: "report \<Rightarrow> ('s, 'a) act" where
  "fail e c = (Inl e, c)"

definition andthen :: "('s, 'a) act \<Rightarrow> ('a \<Rightarrow> ('s, 'b) act) \<Rightarrow> ('s, 'b) act" where
  "andthen m k c = (case m c of (Inl e, c') \<Rightarrow> (Inl e, c') | (Inr x, c') \<Rightarrow> k x c')"

fun for_each :: "('a \<Rightarrow> ('s, unit) act) \<Rightarrow> 'a list \<Rightarrow> ('s, unit) act" where
  "for_each f [] = ret ()"
| "for_each f (x # xs) = andthen (f x) (\<lambda>_. for_each f xs)"

definition from_result :: "report + 'a \<Rightarrow> ('s, 'a) act" where
  "from_result r c = (r, c)"

end
