(* ===== verification/BTree_Map.thy ===== *)
theory BTree_Map
  imports Prelude "HOL-Library.List_Lexorder"
begin

text \<open>
  Rust's \<open>BTreeMap\<close>, which the storage writer, the node reads and the API use for every
  keyed collection: a map iterated in ascending key order. The interface is the locale
  \<open>ordered_map\<close>; the program's map is the strictly sorted association list that iteration
  yields.
\<close>

section \<open>The interface\<close>

locale ordered_map =
  fixes empty :: "'m"
    and get :: "'k::linorder \<Rightarrow> 'm \<Rightarrow> 'v option"
    and insert :: "'k \<Rightarrow> 'v \<Rightarrow> 'm \<Rightarrow> 'm"
    and entries :: "'m \<Rightarrow> ('k \<times> 'v) list"
    and wf :: "'m \<Rightarrow> bool"
  assumes wf_empty: "wf empty"
    and wf_insert: "wf m \<Longrightarrow> wf (insert k v m)"
    and get_empty: "get k empty = None"
    and get_insert: "wf m \<Longrightarrow> get k (insert k' v m) = (if k = k' then Some v else get k m)"
    and entries_sorted: "wf m \<Longrightarrow> sorted_wrt (<) (map fst (entries m))"
    and entries_get: "wf m \<Longrightarrow> (k, v) \<in> set (entries m) \<longleftrightarrow> get k m = Some v"
begin

text \<open>Filling a map from a list of keys, the value computed from the key.\<close>

lemma wf_fill: "wf m \<Longrightarrow> wf (fold (\<lambda>k. insert k (f k)) ks m)"
  by (induction ks arbitrary: m) (auto simp: wf_insert)

lemma get_fill:
  "wf m \<Longrightarrow> get k (fold (\<lambda>k. insert k (f k)) ks m) = (if k \<in> set ks then Some (f k) else get k m)"
  by (induction ks arbitrary: m) (auto simp: wf_insert get_insert)

lemma entries_distinct: "wf m \<Longrightarrow> distinct (map fst (entries m))"
  using entries_sorted strict_sorted_iff by blast

text \<open>Two well-formed maps with the same lookups have the same entries in the same order.\<close>

lemma entries_ext:
  assumes "wf m" "wf m'" "\<And>k. get k m = get k m'"
  shows "entries m = entries m'"
proof -
  have sets: "set (entries m) = set (entries m')"
    using assms entries_get by auto
  have "map fst (entries m) = map fst (entries m')"
    using sets assms(1,2) entries_sorted
    by (intro strict_sorted_equal) auto
  moreover have "map_of (entries m) = map_of (entries m')"
    using sets assms(1,2) entries_distinct by (simp add: map_of_inject_set)
  moreover have "map (\<lambda>k. (k, the (map_of xs k))) (map fst xs) = xs"
    if "distinct (map fst xs)" for xs :: "('k \<times> 'v) list"
    using that by (auto intro!: map_idI simp: map_of_is_SomeI)
  ultimately show ?thesis
    using assms(1,2) entries_distinct by metis
qed

end

text \<open>
  Counting with \<open>*map.entry(k).or_default() += n\<close>: the value of a key is the sum of what
  was added under it.
\<close>

locale counting_map = ordered_map empty get insert entries wf
  for empty :: "'m"
    and get :: "'k::linorder \<Rightarrow> 'm \<Rightarrow> 'v::comm_monoid_add option"
    and insert :: "'k \<Rightarrow> 'v \<Rightarrow> 'm \<Rightarrow> 'm"
    and entries :: "'m \<Rightarrow> ('k \<times> 'v) list"
    and wf :: "'m \<Rightarrow> bool"
begin

lemma wf_count:
  "wf m \<Longrightarrow> wf (fold (\<lambda>(k, n) m. insert k (case get k m of None \<Rightarrow> 0 + n | Some c \<Rightarrow> c + n) m) xs m)"
  by (induction xs arbitrary: m) (auto simp: wf_insert split: prod.splits)

lemma get_count:
  "wf m \<Longrightarrow>
   get k (fold (\<lambda>(k, n) m. insert k (case get k m of None \<Rightarrow> 0 + n | Some c \<Rightarrow> c + n) m) xs m) =
   (if k \<in> fst ` set xs \<or> get k m \<noteq> None
    then Some ((case get k m of None \<Rightarrow> 0 | Some c \<Rightarrow> c) + sum_list (map snd (filter (\<lambda>p. fst p = k) xs)))
    else None)"
proof (induction xs arbitrary: m)
  case Nil
  then show ?case by (auto split: option.splits)
next
  case (Cons p xs)
  obtain k' n where p: "p = (k', n)" by (cases p)
  let ?m = "insert k' (case get k' m of None \<Rightarrow> 0 + n | Some c \<Rightarrow> c + n) m"
  have "wf ?m" using Cons.prems by (rule wf_insert)
  from Cons.IH [OF this] Cons.prems show ?case
    by (auto simp: p get_insert add.assoc split: option.splits)
qed

end

section \<open>The map\<close>

type_synonym ('k, 'v) btree_map = "('k \<times> 'v) list"

abbreviation (input) bt_empty :: "('k, 'v) btree_map" where
  "bt_empty \<equiv> []"

fun bt_insert :: "'k::linorder \<Rightarrow> 'v \<Rightarrow> ('k, 'v) btree_map \<Rightarrow> ('k, 'v) btree_map" where
  "bt_insert k v [] = [(k, v)]"
| "bt_insert k v ((a, b) # m) =
     (if k < a then (k, v) # (a, b) # m
      else if k = a then (k, v) # m
      else (a, b) # bt_insert k v m)"

fun bt_get :: "'k \<Rightarrow> ('k, 'v) btree_map \<Rightarrow> 'v option" where
  "bt_get k [] = None"
| "bt_get k ((a, b) # m) = (if k = a then Some b else bt_get k m)"

definition bt_entries :: "('k, 'v) btree_map \<Rightarrow> ('k \<times> 'v) list" where
  "bt_entries m = m"

definition bt_wf :: "('k::linorder, 'v) btree_map \<Rightarrow> bool" where
  "bt_wf m = sorted_wrt (<) (map fst m)"

text \<open>\<open>*map.entry(k).or_default() += n\<close>.\<close>

definition bt_bump :: "'k::linorder \<Rightarrow> 'v::comm_monoid_add \<Rightarrow> ('k, 'v) btree_map \<Rightarrow> ('k, 'v) btree_map" where
  "bt_bump k n m = bt_insert k (case bt_get k m of None \<Rightarrow> 0 + n | Some c \<Rightarrow> c + n) m"

lemma set_bt_insert_keys: "fst ` set (bt_insert k v m) = {k} \<union> fst ` set m"
  by (induction k v m rule: bt_insert.induct) auto

lemma bt_wf_insert: "bt_wf m \<Longrightarrow> bt_wf (bt_insert k v m)"
proof (induction k v m rule: bt_insert.induct)
  case (1 k v)
  then show ?case by (simp add: bt_wf_def)
next
  case (2 k v a b m)
  then show ?case using set_bt_insert_keys [of k v m] by (force simp: bt_wf_def)
qed

lemma bt_get_notin: "k \<notin> fst ` set m \<Longrightarrow> bt_get k m = None"
  by (induction k m rule: bt_get.induct) auto

lemma bt_get_insert: "bt_wf m \<Longrightarrow> bt_get k (bt_insert k' v m) = (if k = k' then Some v else bt_get k m)"
  by (induction k' v m rule: bt_insert.induct) (auto simp: bt_wf_def)

lemma bt_get_entries: "bt_wf m \<Longrightarrow> (k, v) \<in> set m \<longleftrightarrow> bt_get k m = Some v"
  by (induction m) (force simp: bt_wf_def split: if_splits)+

interpretation bt: ordered_map bt_empty bt_get bt_insert bt_entries bt_wf
  by unfold_locales (auto simp: bt_wf_insert bt_get_insert bt_get_entries bt_entries_def, auto simp: bt_wf_def)

interpretation btc: counting_map bt_empty bt_get bt_insert bt_entries bt_wf
  by unfold_locales

lemma bt_bump_count:
  "bt_get k (fold (\<lambda>(k, n). bt_bump k n) xs bt_empty) =
   (if k \<in> fst ` set xs then Some (sum_list (map snd (filter (\<lambda>p. fst p = k) xs))) else None)"
  using btc.get_count [OF bt.wf_empty, of k xs] by (simp add: bt_bump_def [abs_def])

lemma bt_bump_wf: "bt_wf (fold (\<lambda>(k, n). bt_bump k n) xs bt_empty)"
  using btc.wf_count [OF bt.wf_empty, of xs] by (simp add: bt_bump_def [abs_def])

end
