(* ===== verification/Encoding.thy ===== *)
theory Encoding
  imports Prelude "HOL-Library.Char_ord"
begin

text \<open>
  Text and byte encodings: big-endian bytes of words, lowercase hexadecimal, decimal
  printing and \<open>str::parse\<close> of unsigned integers, \<open>str::trim\<close> and ASCII case folding.
  A Rust \<open>String\<close> is its UTF-8 bytes (a \<open>char\<close> is a byte). Each encoder has its round trip,
  which makes the text keys of the storage tables injective.
\<close>

section \<open>Big-endian bytes\<close>

fun be_bytes :: "nat \<Rightarrow> nat \<Rightarrow> bytes" where
  "be_bytes 0 k = []"
| "be_bytes (Suc n) k = be_bytes n (k div 256) @ [of_nat k]"

definition be_nat :: "bytes \<Rightarrow> nat" where
  "be_nat bs = foldl (\<lambda>a b. a * 256 + unat b) 0 bs"

definition from_be_bytes :: "bytes \<Rightarrow> 'a::len word" where
  "from_be_bytes bs = of_nat (be_nat bs)"

definition to_be_bytes :: "'a::len word \<Rightarrow> bytes" where
  "to_be_bytes w = be_bytes (LENGTH('a) div 8) (unat w)"

lemma be_nat_Nil [simp]: "be_nat [] = 0"
  by (simp add: be_nat_def)

lemma be_nat_snoc [simp]: "be_nat (bs @ [b]) = be_nat bs * 256 + unat b"
  by (simp add: be_nat_def)

lemma length_be_bytes [simp]: "length (be_bytes n k) = n"
  by (induction n k rule: be_bytes.induct) auto

lemma be_nat_be_bytes: "be_nat (be_bytes n k) = k mod 256 ^ n"
proof (induction n k rule: be_bytes.induct)
  case (1 k)
  then show ?case by simp
next
  case (2 n k)
  have "unat (of_nat k :: u8) = k mod 256" by (simp add: unat_of_nat take_bit_eq_mod)
  with 2 show ?case by (simp add: mod_mult2_eq)
qed

lemma be_nat_bound: "be_nat bs < 256 ^ length bs"
proof (induction bs rule: rev_induct)
  case Nil
  then show ?case by simp
next
  case (snoc b bs)
  have "unat b < 256" using unat_lt2p [of b] by simp
  with snoc show ?case by simp
qed

lemma be_nat_inj: "length xs = length ys \<Longrightarrow> be_nat xs = be_nat ys \<Longrightarrow> xs = ys"
proof (induction xs arbitrary: ys rule: rev_induct)
  case Nil
  then show ?case by simp
next
  case (snoc x xs)
  then obtain y ys' where ys: "ys = ys' @ [y]" by (cases ys rule: rev_cases) auto
  have b: "unat x < 256" "unat y < 256" using unat_lt2p [of x] unat_lt2p [of y] by simp_all
  with snoc.prems(2) ys have e: "be_nat xs * 256 + unat x = be_nat ys' * 256 + unat y" by simp
  from e b have "(be_nat xs * 256 + unat x) div 256 = be_nat xs" "(be_nat ys' * 256 + unat y) div 256 = be_nat ys'"
    by auto
  with e have "be_nat xs = be_nat ys'" by simp
  moreover with e have "x = y" by (simp add: word_unat_eq_iff)
  ultimately show ?case using snoc ys by simp
qed

lemma from_to_be_bytes:
  assumes "8 dvd LENGTH('a)"
  shows "from_be_bytes (to_be_bytes (w :: 'a::len word)) = w"
proof -
  obtain k where k: "LENGTH('a) = 8 * k" using assms by blast
  have "(256::nat) ^ k = 2 ^ LENGTH('a)" by (simp add: k power_mult)
  then have "unat w mod 256 ^ (LENGTH('a) div 8) = unat w"
    using unat_lt2p [of w] by (simp add: k)
  then show ?thesis by (simp add: from_be_bytes_def to_be_bytes_def be_nat_be_bytes)
qed

lemma length_to_be_bytes: "length (to_be_bytes (w :: 'a::len word)) = LENGTH('a) div 8"
  by (simp add: to_be_bytes_def)

section \<open>Hexadecimal\<close>

definition hex_digits :: string where
  "hex_digits = ''0123456789abcdef''"

definition hex_byte :: "u8 \<Rightarrow> string" where
  "hex_byte b = [hex_digits ! (unat b div 16), hex_digits ! (unat b mod 16)]"

definition hex_encode :: "bytes \<Rightarrow> string" where
  "hex_encode bs = concat (map hex_byte bs)"

lemma distinct_hex_digits: "distinct hex_digits" and length_hex_digits: "length hex_digits = 16"
  by (simp_all add: hex_digits_def)

lemma hex_digits_inj: "i < 16 \<Longrightarrow> j < 16 \<Longrightarrow> hex_digits ! i = hex_digits ! j \<longleftrightarrow> i = j"
  using nth_eq_iff_index_eq [OF distinct_hex_digits] by (simp add: length_hex_digits)

lemma hex_byte_inj: "hex_byte a = hex_byte b \<longleftrightarrow> a = b"
proof
  assume h: "hex_byte a = hex_byte b"
  have bound: "unat c div 16 < 16" "unat c mod 16 < 16" for c :: u8
    using unat_lt2p [of c] by auto
  from h bound have "unat a div 16 = unat b div 16" "unat a mod 16 = unat b mod 16"
    by (auto simp: hex_byte_def hex_digits_inj)
  then have "unat a = unat b" by (metis div_mult_mod_eq)
  then show "a = b" by (rule unsigned_word_eqI)
qed simp

lemma length_hex_byte [simp]: "length (hex_byte b) = 2"
  by (simp add: hex_byte_def)

lemma length_hex_encode: "length (hex_encode bs) = 2 * length bs"
  by (induction bs) (simp_all add: hex_encode_def)

lemma hex_encode_inj: "hex_encode xs = hex_encode ys \<longleftrightarrow> xs = ys"
proof
  show "hex_encode xs = hex_encode ys \<Longrightarrow> xs = ys"
  proof (induction xs arbitrary: ys)
    case Nil
    then show ?case by (cases ys) (auto simp: hex_encode_def hex_byte_def)
  next
    case (Cons x xs)
    then obtain y ys' where ys: "ys = y # ys'" by (cases ys) (auto simp: hex_encode_def hex_byte_def)
    with Cons.prems have "hex_byte x = hex_byte y \<and> hex_encode xs = hex_encode ys'"
      by (simp add: hex_encode_def)
    with Cons.IH ys show ?case by (auto simp: hex_byte_inj)
  qed
qed simp

text \<open>\<open>format!("{value:#x}")\<close> of a fixed-width value: \<open>0x\<close> and all its bytes in lowercase hex.\<close>

definition hex_word :: "'a::len word \<Rightarrow> string" where
  "hex_word w = ''0x'' @ hex_encode (to_be_bytes w)"

lemma hex_word_inj:
  "8 dvd LENGTH('a) \<Longrightarrow> hex_word (v :: 'a::len word) = hex_word w \<longleftrightarrow> v = w"
  by (metis append_same_eq from_to_be_bytes hex_encode_inj hex_word_def same_append_eq)

lemma length_hex_word: "length (hex_word (w :: 'a::len word)) = 2 + 2 * (LENGTH('a) div 8)"
  by (simp add: hex_word_def length_hex_encode length_to_be_bytes)

section \<open>Decimal\<close>

definition digit_char :: "nat \<Rightarrow> char" where
  "digit_char d = char_of (48 + d)"

fun dec_of_nat :: "nat \<Rightarrow> string" where
  "dec_of_nat n = (if n < 10 then [digit_char n] else dec_of_nat (n div 10) @ [digit_char (n mod 10)])"

declare dec_of_nat.simps [simp del]

definition is_ascii_digit :: "char \<Rightarrow> bool" where
  "is_ascii_digit c = (48 \<le> (of_char c :: nat) \<and> (of_char c :: nat) \<le> 57)"

definition dec_value :: "string \<Rightarrow> nat" where
  "dec_value s = foldl (\<lambda>a c. a * 10 + (of_char c - 48)) 0 s"

text \<open>
  \<open>str::parse\<close> into an unsigned integer: an optional leading \<open>+\<close>, at least one decimal
  digit, nothing else, and a value below the type's bound.
\<close>

definition parse_uint :: "nat \<Rightarrow> string \<Rightarrow> nat option" where
  "parse_uint bound s =
     (let ds = (case s of c # cs \<Rightarrow> if c = CHR ''+'' then cs else s | [] \<Rightarrow> [])
      in if ds = [] \<or> \<not> list_all is_ascii_digit ds \<or> bound \<le> dec_value ds then None
         else Some (dec_value ds))"

definition parse_u64 :: "string \<Rightarrow> u64 option" where
  "parse_u64 s = map_option of_nat (parse_uint (2 ^ 64) s)"

definition parse_u128 :: "string \<Rightarrow> u128 option" where
  "parse_u128 s = map_option of_nat (parse_uint (2 ^ 128) s)"

definition to_dec :: "'a::len word \<Rightarrow> string" where
  "to_dec w = dec_of_nat (unat w)"

lemma of_char_digit_char: "d < 10 \<Longrightarrow> of_char (digit_char d) = 48 + d"
  by (simp add: digit_char_def)

lemma dec_value_snoc: "dec_value (s @ [c]) = dec_value s * 10 + (of_char c - 48)"
  by (simp add: dec_value_def)

lemma dec_of_nat_nonempty [simp]: "dec_of_nat n \<noteq> []"
  by (subst dec_of_nat.simps) simp

lemma dec_of_nat_digits: "list_all is_ascii_digit (dec_of_nat n)"
proof (induction n rule: dec_of_nat.induct)
  case (1 n)
  have d: "is_ascii_digit (digit_char k)" if "k < 10" for k
    using that by (simp add: is_ascii_digit_def of_char_digit_char)
  show ?case
    using 1 d [of n] d [of "n mod 10"] by (subst dec_of_nat.simps) auto
qed

lemma dec_value_dec_of_nat: "dec_value (dec_of_nat n) = n"
proof (induction n rule: dec_of_nat.induct)
  case (1 n)
  show ?case
  proof (cases "n < 10")
    case True
    then show ?thesis
      by (subst dec_of_nat.simps) (simp add: dec_value_def of_char_digit_char)
  next
    case False
    with 1 show ?thesis
      by (subst dec_of_nat.simps) (simp add: dec_value_snoc of_char_digit_char)
  qed
qed

lemma parse_uint_dec_of_nat: "parse_uint b (dec_of_nat n) = (if n < b then Some n else None)"
proof -
  obtain c cs where s: "dec_of_nat n = c # cs" by (cases "dec_of_nat n") auto
  then have "is_ascii_digit c" using dec_of_nat_digits [of n] by simp
  then have "c \<noteq> CHR ''+''" by (auto simp: is_ascii_digit_def)
  with s show ?thesis
    using dec_of_nat_digits [of n] dec_value_dec_of_nat [of n] by (simp add: parse_uint_def)
qed

lemma dec_of_nat_inj: "dec_of_nat m = dec_of_nat n \<longleftrightarrow> m = n"
  by (metis dec_value_dec_of_nat)

lemma parse_u64_to_dec [simp]: "parse_u64 (to_dec (w :: u64)) = Some w"
  using unat_lt2p [of w] by (simp add: parse_u64_def to_dec_def parse_uint_dec_of_nat)

lemma parse_uint_bound: "parse_uint b s = Some n \<Longrightarrow> n < b"
  by (auto simp: parse_uint_def Let_def split: if_splits)

section \<open>Trimming and ASCII case\<close>

text \<open>
  The UTF-8 encodings of the code points with Unicode's \<open>White_Space\<close> property, which
  \<open>str::trim\<close> strips on both sides.
\<close>

definition white_space :: "string list" where
  "white_space =
     map (\<lambda>b. [char_of (b :: nat)]) [9, 10, 11, 12, 13, 32]
     @ map (map (char_of :: nat \<Rightarrow> char))
         ([[194, 133], [194, 160], [225, 154, 128]]
          @ map (\<lambda>b. [226, 128, b]) [128, 129, 130, 131, 132, 133, 134, 135, 136, 137, 138, 168, 169, 175]
          @ [[226, 129, 159], [227, 128, 128]])"

fun strip_prefix :: "'a list \<Rightarrow> 'a list \<Rightarrow> 'a list option" where
  "strip_prefix [] s = Some s"
| "strip_prefix (x # xs) [] = None"
| "strip_prefix (x # xs) (y # ys) = (if x = y then strip_prefix xs ys else None)"

fun strip_first :: "'a list list \<Rightarrow> 'a list \<Rightarrow> 'a list option" where
  "strip_first [] s = None"
| "strip_first (w # ws) s = (case strip_prefix w s of Some r \<Rightarrow> Some r | None \<Rightarrow> strip_first ws s)"

lemma strip_prefix_append [simp]: "strip_prefix w (w @ s) = Some s"
  by (induction w) auto

lemma strip_prefix_Some: "strip_prefix w s = Some r \<longleftrightarrow> s = w @ r"
  by (induction w s rule: strip_prefix.induct) auto

lemma strip_first_Some: "strip_first ws s = Some r \<Longrightarrow> \<exists>w \<in> set ws. s = w @ r"
  by (induction ws) (auto simp: strip_prefix_Some split: option.splits)

lemma strip_first_None: "strip_first ws s = None \<longleftrightarrow> (\<forall>w \<in> set ws. \<forall>r. s \<noteq> w @ r)"
proof (induction ws)
  case Nil
  then show ?case by simp
next
  case (Cons w ws)
  show ?case
  proof (cases "strip_prefix w s")
    case None
    then have "\<forall>r. s \<noteq> w @ r" using strip_prefix_Some by fastforce
    with None Cons show ?thesis by simp
  next
    case (Some r)
    then show ?thesis by (auto simp: strip_prefix_Some)
  qed
qed

function trim_start_with :: "'a list list \<Rightarrow> 'a list \<Rightarrow> 'a list" where
  "trim_start_with ws s =
     (case strip_first (List.filter (\<lambda>w. w \<noteq> []) ws) s of None \<Rightarrow> s | Some r \<Rightarrow> trim_start_with ws r)"
  by pat_completeness auto
termination
  by (relation "measure (length o snd)") (auto dest!: strip_first_Some)

declare trim_start_with.simps [simp del]

definition trim :: "string \<Rightarrow> string" where
  "trim s = rev (trim_start_with (map rev white_space) (rev (trim_start_with white_space s)))"

definition ascii_lower :: "char \<Rightarrow> char" where
  "ascii_lower c = (if 65 \<le> (of_char c :: nat) \<and> (of_char c :: nat) \<le> 90 then char_of (of_char c + 32 :: nat) else c)"

definition eq_ignore_ascii_case :: "string \<Rightarrow> string \<Rightarrow> bool" where
  "eq_ignore_ascii_case s t = (map ascii_lower s = map ascii_lower t)"

lemma trim_start_with_suffix: "\<exists>p. s = p @ trim_start_with ws s"
proof (induction ws s rule: trim_start_with.induct)
  case (1 ws s)
  show ?case
  proof (cases "strip_first (List.filter (\<lambda>w. w \<noteq> []) ws) s")
    case None
    then show ?thesis by (subst trim_start_with.simps) auto
  next
    case (Some r)
    then obtain w where w: "s = w @ r" by (auto dest!: strip_first_Some)
    obtain p where "r = p @ trim_start_with ws r" using 1 [OF Some] by blast
    with w Some have "s = (w @ p) @ trim_start_with ws s"
      by (subst trim_start_with.simps) simp
    then show ?thesis by blast
  qed
qed

lemma trim_start_with_id:
  "(\<And>w r. w \<in> set ws \<Longrightarrow> w \<noteq> [] \<Longrightarrow> s \<noteq> w @ r) \<Longrightarrow> trim_start_with ws s = s"
proof -
  assume "\<And>w r. w \<in> set ws \<Longrightarrow> w \<noteq> [] \<Longrightarrow> s \<noteq> w @ r"
  then have "strip_first (List.filter (\<lambda>w. w \<noteq> []) ws) s = None"
    by (subst strip_first_None) auto
  then show ?thesis by (subst trim_start_with.simps) simp
qed

end
