(* ===== verification/Sqlite.thy ===== *)
theory Sqlite
  imports BTree_Map Encoding
begin

text \<open>
  The SQLite database the indexer keeps, as \<open>src/storage.rs\<close> uses it: the tables of schema
  v3, a connection with its open transaction, and the statements as fallible steps over the
  connection. Two fields of a connection stand for the driver and the disk, which are not
  part of the program: \<open>cn_binds\<close> says which \<open>u64\<close> values the driver converts to an SQLite
  \<open>INTEGER\<close>, and \<open>cn_budget\<close> after how many statements one fails (\<open>None\<close>: never).
\<close>

section \<open>Tables\<close>

record address_tx =
  at_address :: string
  at_block_number :: u64
  at_tx_index :: u64
  at_tx_type :: u8

record tx_type_entry =
  tt_tx_type :: u8
  tt_block_number :: u64
  tt_tx_index :: u64

record consensus_block =
  cb_epoch :: u32
  cb_round :: u32
  cb_first_block :: u64
  cb_last_block :: u64

record stored_transfer =
  st_block_number :: u64
  st_tx_index :: u64
  st_log_index :: u64
  st_token :: string
  st_from :: string
  st_to :: string
  st_value :: string

record token_entry =
  tk_name :: "string option"
  tk_symbol :: "string option"
  tk_decimals :: "u8 option"
  tk_status :: u8
  tk_fetched_at :: u64

text \<open>
  A database file: the table names of \<open>sqlite_master\<close> and the content of each table. The
  tables that pages scan are their rows in insertion order; the tables that are only probed
  by primary key are maps from it.
\<close>

record db =
  db_tables :: "string list"
  db_meta :: "string \<rightharpoonup> string"
  db_address_txs :: "address_tx list"
  db_tx_types :: "tx_type_entry list"
  db_tx_type_counts :: "u8 \<rightharpoonup> u64"
  db_consensus_blocks :: "string \<rightharpoonup> consensus_block"
  db_token_transfers :: "stored_transfer list"
  db_tokens :: "string \<rightharpoonup> token_entry"

definition empty_db :: db where
  "empty_db = \<lparr>db_tables = [], db_meta = Map.empty, db_address_txs = [], db_tx_types = [],
     db_tx_type_counts = Map.empty, db_consensus_blocks = Map.empty, db_token_transfers = [],
     db_tokens = Map.empty\<rparr>"

text \<open>The primary keys of the scanned tables.\<close>

definition address_tx_key :: "address_tx \<Rightarrow> string \<times> u64 \<times> u64" where
  "address_tx_key r = (at_address r, at_block_number r, at_tx_index r)"

definition tx_type_key :: "tx_type_entry \<Rightarrow> u8 \<times> u64 \<times> u64" where
  "tx_type_key r = (tt_tx_type r, tt_block_number r, tt_tx_index r)"

definition transfer_key :: "stored_transfer \<Rightarrow> u64 \<times> u64 \<times> u64" where
  "transfer_key r = (st_block_number r, st_tx_index r, st_log_index r)"

text \<open>\<open>INSERT OR IGNORE\<close> under a primary key.\<close>

definition insert_or_ignore :: "('r \<Rightarrow> 'k) \<Rightarrow> 'r \<Rightarrow> 'r list \<Rightarrow> 'r list" where
  "insert_or_ignore key row rows = (if list_ex (\<lambda>r. key r = key row) rows then rows else rows @ [row])"

lemma insert_or_ignore_simp:
  "insert_or_ignore key row rows = (if key row \<in> key ` set rows then rows else rows @ [row])"
  by (auto simp: insert_or_ignore_def list_ex_iff image_iff) metis

lemma keys_insert_or_ignore: "key ` set (insert_or_ignore key row rows) = insert (key row) (key ` set rows)"
  by (auto simp: insert_or_ignore_simp)

lemma distinct_insert_or_ignore:
  "distinct (map key rows) \<Longrightarrow> distinct (map key (insert_or_ignore key row rows))"
  by (auto simp: insert_or_ignore_simp)

lemma insert_or_ignore_idem: "key row \<in> key ` set rows \<Longrightarrow> insert_or_ignore key row rows = rows"
  by (simp add: insert_or_ignore_simp)

lemma distinct_fold_insert:
  "distinct (map key rows) \<Longrightarrow> distinct (map key (fold (insert_or_ignore key) new rows))"
  by (induction new arbitrary: rows) (auto simp: distinct_insert_or_ignore)

lemma keys_fold_insert: "key ` set (fold (insert_or_ignore key) new rows) = key ` set new \<union> key ` set rows"
  by (induction new arbitrary: rows) (auto simp: keys_insert_or_ignore)

lemma subset_insert_or_ignore: "set (insert_or_ignore key row rows) \<subseteq> insert row (set rows)"
  by (auto simp: insert_or_ignore_simp)

lemma subset_fold_insert: "set (fold (insert_or_ignore key) new rows) \<subseteq> set new \<union> set rows"
proof (induction new arbitrary: rows)
  case Nil
  then show ?case by simp
next
  case (Cons row new)
  from Cons [of "insert_or_ignore key row rows"] subset_insert_or_ignore [of key row rows]
  show ?case by (simp add: subset_iff) blast
qed

lemma superset_fold_insert: "set rows \<subseteq> set (fold (insert_or_ignore key) new rows)"
proof (induction new arbitrary: rows)
  case Nil
  then show ?case by simp
next
  case (Cons row new)
  have "set rows \<subseteq> set (insert_or_ignore key row rows)" by (auto simp: insert_or_ignore_simp)
  with Cons [of "insert_or_ignore key row rows"] show ?case by simp
qed

text \<open>Rows whose keys are new and pairwise distinct are appended.\<close>

lemma fold_insert_new:
  "distinct (map key new) \<Longrightarrow> key ` set new \<inter> key ` set rows = {} \<Longrightarrow>
   fold (insert_or_ignore key) new rows = rows @ new"
  by (induction new arbitrary: rows) (auto simp: insert_or_ignore_simp)

section \<open>Connections and statements\<close>

record conn =
  cn_committed :: db
  cn_tx :: "db option"
  cn_binds :: "u64 \<Rightarrow> bool"
  cn_budget :: "nat option"

type_synonym 'a sql = "(conn, 'a) act"

definition view :: "conn \<Rightarrow> db" where
  "view c = (case cn_tx c of Some d \<Rightarrow> d | None \<Rightarrow> cn_committed c)"

definition set_view :: "db \<Rightarrow> conn \<Rightarrow> conn" where
  "set_view d c = (case cn_tx c of Some _ \<Rightarrow> c\<lparr>cn_tx := Some d\<rparr> | None \<Rightarrow> c\<lparr>cn_committed := d\<rparr>)"

text \<open>Running out of budget is the failure of the statement; otherwise it costs one.\<close>

definition charge :: "unit sql" where
  "charge c =
     (case cn_budget c of
        None \<Rightarrow> (Inr (), c)
      | Some 0 \<Rightarrow> (Inl SqliteFailure, c)
      | Some (Suc n) \<Rightarrow> (Inr (), c\<lparr>cn_budget := Some n\<rparr>))"

text \<open>Binding the \<open>u64\<close> parameters of a statement, left to right.\<close>

fun bind_params :: "u64 list \<Rightarrow> unit sql" where
  "bind_params [] c = (Inr (), c)"
| "bind_params (p # ps) c =
     (if cn_binds c p then bind_params ps c else (Inl (ToSqlConversionFailure p), c))"

definition execute :: "u64 list \<Rightarrow> (db \<Rightarrow> db \<times> 'a) \<Rightarrow> 'a sql" where
  "execute params f =
     andthen (bind_params params) (\<lambda>_. andthen charge (\<lambda>_ c.
       let (d, x) = f (view c) in (Inr x, set_view d c)))"

definition query :: "u64 list \<Rightarrow> (db \<Rightarrow> 'a) \<Rightarrow> 'a sql" where
  "query params q =
     andthen (bind_params params) (\<lambda>_. andthen charge (\<lambda>_ c. (Inr (q (view c)), c)))"

text \<open>Preparing a statement over a table that does not exist is an error.\<close>

definition prepare :: "string \<Rightarrow> unit sql" where
  "prepare table c = (if table \<in> set (db_tables (view c)) then (Inr (), c) else (Inl (NoSuchTable table), c))"

definition begin_immediate :: "unit sql" where
  "begin_immediate = andthen charge (\<lambda>_ c. (Inr (), c\<lparr>cn_tx := Some (view c)\<rparr>))"

definition commit :: "unit sql" where
  "commit = andthen charge (\<lambda>_ c. (Inr (), c\<lparr>cn_committed := view c, cn_tx := None\<rparr>))"

definition rollback :: "unit sql" where
  "rollback = andthen charge (\<lambda>_ c. (Inr (), c\<lparr>cn_tx := None\<rparr>))"

text \<open>
  An open transaction that is dropped, by an early return or with the process, rolls back:
  the committed state stays.
\<close>

definition drop_tx :: "conn \<Rightarrow> conn" where
  "drop_tx c = c\<lparr>cn_tx := None\<rparr>"

section \<open>Reasoning about statements\<close>

text \<open>
  \<open>runs m P c\<close>: whatever \<open>m\<close> does from \<open>c\<close>, its result and final connection satisfy \<open>P\<close>.
\<close>

definition runs :: "'a sql \<Rightarrow> (report + 'a \<Rightarrow> conn \<Rightarrow> bool) \<Rightarrow> conn \<Rightarrow> bool" where
  "runs m P c = (case m c of (r, c') \<Rightarrow> P r c')"

named_theorems sql_frame

text \<open>What no statement changes: the driver, whether a transaction is open, and, in one, the committed state.\<close>

definition same_session :: "conn \<Rightarrow> conn \<Rightarrow> bool" where
  "same_session c c' \<longleftrightarrow>
     cn_binds c' = cn_binds c \<and> (cn_tx c' = None \<longleftrightarrow> cn_tx c = None) \<and>
     (cn_tx c \<noteq> None \<longrightarrow> cn_committed c' = cn_committed c) \<and> (cn_budget c = None \<longrightarrow> cn_budget c' = None)"

lemma same_session_refl [simp]: "same_session c c"
  by (simp add: same_session_def)

lemma same_session_trans: "same_session c c' \<Longrightarrow> same_session c' c'' \<Longrightarrow> same_session c c''"
  by (auto simp: same_session_def)

lemma view_set_view [simp]: "view (set_view d c) = d"
  by (auto simp: view_def set_view_def split: option.splits)

lemma same_session_set_view [simp]: "same_session c (set_view d c)"
  by (auto simp: same_session_def set_view_def split: option.splits)

definition frames :: "'a sql \<Rightarrow> bool" where
  "frames m \<longleftrightarrow> (\<forall>c. same_session c (snd (m c)))"

lemma framesD: "frames m \<Longrightarrow> m c = (r, c') \<Longrightarrow> same_session c c'"
  unfolding frames_def by (metis snd_conv)

lemma frames_ret [sql_frame]: "frames (ret x)" and frames_fail [sql_frame]: "frames (fail e)"
  by (simp_all add: frames_def ret_def fail_def)

lemma frames_andthen [sql_frame]:
  assumes "frames m" "\<And>x. frames (k x)"
  shows "frames (andthen m k)"
  unfolding frames_def
proof
  fix c
  obtain r c' where m: "m c = (r, c')" by (cases "m c")
  then have "same_session c c'" using assms(1) framesD by blast
  moreover have "same_session c' (snd (k x c'))" for x using assms(2) by (simp add: frames_def)
  ultimately show "same_session c (snd (andthen m k c))"
    using m by (auto simp: andthen_def split: sum.splits intro: same_session_trans)
qed

lemma frames_for_each [sql_frame]: "(\<And>x. frames (f x)) \<Longrightarrow> frames (for_each f xs)"
  by (induction xs) (auto intro: sql_frame)

lemma frames_charge [sql_frame]: "frames charge"
  by (auto simp: frames_def charge_def same_session_def split: option.splits nat.splits)

lemma bind_params_snd [simp]: "snd (bind_params ps c) = c"
  by (induction ps) auto

lemma frames_bind_params [sql_frame]: "frames (bind_params ps)"
  by (simp add: frames_def)

lemma frames_execute [sql_frame]: "frames (execute ps f)"
  unfolding execute_def
  by (intro sql_frame) (auto simp: frames_def split: prod.splits)

lemma frames_query [sql_frame]: "frames (query ps q)"
  unfolding query_def by (intro sql_frame) (simp add: frames_def)

lemma frames_prepare [sql_frame]: "frames (prepare t)"
  by (simp add: frames_def prepare_def)

text \<open>
  \<open>updates m g\<close>: when \<open>m\<close> succeeds, the view has changed by \<open>g\<close>.
  \<open>reads m q\<close>: when \<open>m\<close> succeeds, it returns \<open>q\<close> of the view and leaves the view alone.
\<close>

definition updates :: "'a sql \<Rightarrow> (db \<Rightarrow> db \<times> 'a) \<Rightarrow> bool" where
  "updates m g \<longleftrightarrow> (\<forall>c x c'. m c = (Inr x, c') \<longrightarrow> (view c', x) = g (view c))"

definition reads :: "'a sql \<Rightarrow> (db \<Rightarrow> 'a) \<Rightarrow> bool" where
  "reads m q \<longleftrightarrow> updates m (\<lambda>d. (d, q d))"

lemma updatesD: "updates m g \<Longrightarrow> m c = (Inr x, c') \<Longrightarrow> (view c', x) = g (view c)"
  by (auto simp: updates_def)

named_theorems sql_effect

lemma updates_ret: "updates (ret x) (\<lambda>d. (d, x))"
  by (simp add: updates_def ret_def)

lemma view_charge: "charge c = (Inr x, c') \<Longrightarrow> view c' = view c"
  by (auto simp: charge_def view_def split: option.splits nat.splits)

lemma bind_params_Inr: "bind_params ps c = (Inr x, c') \<Longrightarrow> c' = c \<and> list_all (cn_binds c) ps"
  by (induction ps) (auto split: if_splits)

lemma bind_params_ok: "list_all (cn_binds c) ps \<Longrightarrow> bind_params ps c = (Inr (), c)"
  by (induction ps) auto

lemma updates_execute: "updates (execute ps f) f"
  by (auto simp: updates_def execute_def andthen_def dest!: bind_params_Inr view_charge
      split: sum.splits prod.splits)

lemma reads_query: "reads (query ps q) q"
  by (auto simp: reads_def updates_def query_def andthen_def dest!: bind_params_Inr view_charge
      split: sum.splits prod.splits)

lemma updates_prepare: "updates (prepare t) (\<lambda>d. (d, ()))"
  by (auto simp: updates_def prepare_def)

lemma updates_andthen:
  assumes "updates m g" "\<And>x. updates (k x) (h x)"
  shows "updates (andthen m k) (\<lambda>d. let (d', x) = g d in h x d')"
proof -
  have "(view c', y) = (let (d', x) = g (view c) in h x d')" if "andthen m k c = (Inr y, c')" for c y c'
  proof -
    from that obtain x c1 where m: "m c = (Inr x, c1)" "k x c1 = (Inr y, c')"
      by (auto simp: andthen_def split: prod.splits sum.splits)
    from updatesD [OF assms(1) m(1)] updatesD [OF assms(2) m(2)] show ?thesis
      by (metis (no_types, lifting) case_prod_conv)
  qed
  then show ?thesis by (simp add: updates_def)
qed

lemma updates_for_each:
  assumes "\<And>x. updates (f x) (\<lambda>d. (g x d, ()))"
  shows "updates (for_each f xs) (\<lambda>d. (fold g xs d, ()))"
proof (induction xs)
  case Nil
  then show ?case by (simp add: updates_ret)
next
  case (Cons x xs)
  from updates_andthen [OF assms [of x] Cons] show ?case by simp
qed

lemma updates_cong: "updates m g \<Longrightarrow> (\<And>d. g d = h d) \<Longrightarrow> updates m h"
  by (simp add: updates_def)

text \<open>
  Without faults a statement succeeds: \<open>healthy c\<close> is a connection whose statements do not
  run out of budget, and \<open>succeeds\<close> says that an operation then returns a result.
\<close>

definition healthy :: "conn \<Rightarrow> bool" where
  "healthy c \<longleftrightarrow> cn_budget c = None"

definition succeeds :: "'a sql \<Rightarrow> conn \<Rightarrow> bool" where
  "succeeds m c \<longleftrightarrow> (\<exists>x c'. m c = (Inr x, c'))"

lemma charge_healthy: "healthy c \<Longrightarrow> charge c = (Inr (), c)"
  by (simp add: healthy_def charge_def)

lemma execute_healthy:
  "healthy c \<Longrightarrow> list_all (cn_binds c) ps \<Longrightarrow>
   execute ps f c = (Inr (snd (f (view c))), set_view (fst (f (view c))) c)"
  by (simp add: execute_def andthen_def bind_params_ok charge_healthy case_prod_beta)

lemma query_healthy:
  "healthy c \<Longrightarrow> list_all (cn_binds c) ps \<Longrightarrow> query ps q c = (Inr (q (view c)), c)"
  by (simp add: query_def andthen_def bind_params_ok charge_healthy)

lemma query_unbound:
  "\<not> list_all (cn_binds c) ps \<Longrightarrow> \<exists>p. p \<in> set ps \<and> query ps q c = (Inl (ToSqlConversionFailure p), c)"
proof (induction ps)
  case Nil
  then show ?case by simp
next
  case (Cons p ps)
  show ?case
  proof (cases "cn_binds c p")
    case True
    with Cons obtain p' where "p' \<in> set ps" "query ps q c = (Inl (ToSqlConversionFailure p'), c)" by auto
    with True show ?thesis by (auto simp: query_def andthen_def intro!: exI [of _ p'])
  next
    case False
    then show ?thesis by (auto simp: query_def andthen_def)
  qed
qed

end
