(* ===== verification/Extract.thy ===== *)
theory Extract
  imports Encoding
begin

text \<open>
  \<open>src/extract.rs\<close>: the pure extraction of one executed block. The chain's own data types
  (headers, receipts, logs, recovered blocks) are records of what the code reads of them;
  \<open>Address::create\<close> and \<open>deconstruct_nonce\<close>, which the dependencies define, are fields of
  the parameter \<open>chain_fns\<close>.
\<close>

section \<open>Transaction types\<close>

definition TX_TYPE_NAMES :: "string list" where
  "TX_TYPE_NAMES = [''legacy'', ''eip2930'', ''eip1559'', ''eip4844'', ''eip7702'']"

definition tx_type_name :: "u8 \<Rightarrow> string" where
  "tx_type_name tx_type =
     (case slice_get TX_TYPE_NAMES (unat tx_type) of Some name \<Rightarrow> name | None \<Rightarrow> ''unknown'')"

fun name_position :: "string list \<Rightarrow> string \<Rightarrow> nat option" where
  "name_position [] s = None"
| "name_position (name # names) s =
     (if eq_ignore_ascii_case name s then Some 0 else map_option Suc (name_position names s))"

definition parse_tx_type :: "string \<Rightarrow> u8 option" where
  "parse_tx_type s0 =
     (let s = trim s0
      in case name_position TX_TYPE_NAMES s of
           Some idx \<Rightarrow> Some (of_nat idx)
         | None \<Rightarrow>
             (case s of
                [d] \<Rightarrow> (if is_ascii_digit d \<and> of_char d - 48 < length TX_TYPE_NAMES
                        then Some (of_nat (of_char d - 48)) else None)
              | _ \<Rightarrow> None))"

section \<open>Derived rows\<close>

record address_row =
  ar_address :: address
  ar_block_number :: u64
  ar_tx_index :: u64
  ar_tx_type :: u8

record tx_type_row =
  tr_tx_type :: u8
  tr_block_number :: u64
  tr_tx_index :: u64

record transfer_row =
  tf_block_number :: u64
  tf_tx_index :: u64
  tf_log_index :: u64
  tf_token :: address
  tf_from :: address
  tf_to :: address
  tf_value :: u256

record consensus_row =
  cr_digest :: b256
  cr_epoch :: u32
  cr_round :: u32
  cr_block_number :: u64

record header_consensus_fields =
  hc_digest :: b256
  hc_epoch :: u32
  hc_round :: u32
  hc_batch_index :: u64
  hc_worker_id :: u16
  hc_batch_digest :: b256
  hc_prev_randao :: "b256 option"
  hc_closes_epoch :: bool

record extracted_block =
  ex_number :: u64
  ex_address_rows :: "address_row list"
  ex_tx_types :: "tx_type_row list"
  ex_transfers :: "transfer_row list"
  ex_token_candidates :: "address list"
  ex_consensus :: "consensus_row option"

section \<open>What the code reads of a block\<close>

record exec_header =
  eh_number :: u64
  eh_parent_beacon_block_root :: "b256 option"
  eh_nonce :: bytes
  eh_difficulty :: u256
  eh_ommers_hash :: b256
  eh_mix_hash :: b256
  eh_extra_data :: bytes
  eh_timestamp :: u64
  eh_base_fee_per_gas :: "u64 option"
  eh_beneficiary :: address
  eh_parent_hash :: b256
  eh_gas_used :: u64
  eh_gas_limit :: u64

record log =
  log_address :: address
  log_topics :: "b256 list"
  log_data :: bytes

record receipt =
  rc_success :: bool
  rc_cumulative_gas_used :: u64
  rc_logs :: "log list"

record transaction =
  tx_hash :: b256
  tx_ty :: u8
  tx_to :: "address option"
  tx_nonce :: u64
  tx_value :: u256
  tx_input :: bytes
  tx_gas_limit :: u64
  tx_effective_gas_price :: "u64 option \<Rightarrow> u128"

text \<open>A recovered block: the header and \<open>transactions_with_sender\<close>, in block order.\<close>

record recovered_block =
  rb_header :: exec_header
  rb_transactions_with_sender :: "(address \<times> transaction) list"

record chain_fns =
  create_address :: "address \<Rightarrow> u64 \<Rightarrow> address"
  deconstruct_nonce :: "u64 \<Rightarrow> u32 \<times> u32"

section \<open>Header decoding\<close>

text \<open>\<open>u64::try_from(U256)\<close>.\<close>

definition u64_try_from :: "u256 \<Rightarrow> u64 option" where
  "u64_try_from v = (if unat v < 2 ^ 64 then Some (of_nat (unat v)) else None)"

definition decode_consensus_fields :: "chain_fns \<Rightarrow> exec_header \<Rightarrow> header_consensus_fields option" where
  "decode_consensus_fields fns header =
     (if eh_number header = 0 then None
      else case eh_parent_beacon_block_root header of
        None \<Rightarrow> None
      | Some digest \<Rightarrow>
          (let (epoch, round) = deconstruct_nonce fns (from_be_bytes (eh_nonce header))
           in case u64_try_from (eh_difficulty header) of
                None \<Rightarrow> None
              | Some difficulty \<Rightarrow>
                  Some \<lparr>hc_digest = digest,
                        hc_epoch = epoch,
                        hc_round = round,
                        hc_batch_index = drop_bit 16 difficulty,
                        hc_worker_id = ucast (and difficulty 0xffff),
                        hc_batch_digest = eh_ommers_hash header,
                        hc_prev_randao = Some (eh_mix_hash header),
                        hc_closes_epoch = (eh_extra_data header \<noteq> [])\<rparr>))"

section \<open>ERC-20 transfer logs\<close>

definition TRANSFER_TOPIC :: b256 where
  "TRANSFER_TOPIC = 0xddf252ad1be2c89b69c2b068fc378daa952ba7f163c4a11628f55a4df523b3ef"

definition SEL_NAME :: bytes where
  "SEL_NAME = [0x06, 0xfd, 0xde, 0x03]"

definition SEL_SYMBOL :: bytes where
  "SEL_SYMBOL = [0x95, 0xd8, 0x9b, 0x41]"

definition SEL_DECIMALS :: bytes where
  "SEL_DECIMALS = [0x31, 0x3c, 0xe5, 0x67]"

definition SEL_TOTAL_SUPPLY :: bytes where
  "SEL_TOTAL_SUPPLY = [0x18, 0x16, 0x0d, 0xdd]"

text \<open>\<open>Address::from_word\<close>: the last 20 of the 32 bytes.\<close>

definition address_from_word :: "b256 \<Rightarrow> address" where
  "address_from_word w = ucast w"

definition decode_transfer_log :: "log \<Rightarrow> u64 \<Rightarrow> u64 \<Rightarrow> u64 \<Rightarrow> transfer_row option" where
  "decode_transfer_log log block_number tx_index log_index =
     (let topics = log_topics log
      in if length topics \<noteq> 3 \<or> topics ! 0 \<noteq> TRANSFER_TOPIC then None
         else let data = log_data log
              in if length data \<noteq> 32 then None
                 else Some \<lparr>tf_block_number = block_number,
                            tf_tx_index = tx_index,
                            tf_log_index = log_index,
                            tf_token = log_address log,
                            tf_from = address_from_word (topics ! 1),
                            tf_to = address_from_word (topics ! 2),
                            tf_value = from_be_bytes data\<rparr>)"

section \<open>Block extraction\<close>

text \<open>
  The loops of \<open>extract_block\<close>, with the growing vectors as the state: the inner loop over
  the logs of one receipt, the body of the outer loop, and the outer loop.
\<close>

fun extract_logs :: "u64 \<Rightarrow> u64 \<Rightarrow> nat \<Rightarrow> log list \<Rightarrow> extracted_block \<Rightarrow> extracted_block" where
  "extract_logs number tx_index i [] out = out"
| "extract_logs number tx_index i (log # logs) out =
     extract_logs number tx_index (Suc i) logs
       (case decode_transfer_log log number tx_index (of_nat i) of
          Some row \<Rightarrow>
            out\<lparr>ex_token_candidates := push_new (tf_token row) (ex_token_candidates out),
                ex_transfers := ex_transfers out @ [row]\<rparr>
        | None \<Rightarrow> out)"

definition extract_tx ::
  "chain_fns \<Rightarrow> u64 \<Rightarrow> receipt list \<Rightarrow> nat \<Rightarrow> address \<times> transaction \<Rightarrow> extracted_block \<Rightarrow> extracted_block" where
  "extract_tx fns number receipts i stx out =
     (let (sender, tx) = stx;
          tx_index = of_nat i;
          tx_type = tx_ty tx;
          row = (\<lambda>a. \<lparr>ar_address = a, ar_block_number = number, ar_tx_index = tx_index, ar_tx_type = tx_type\<rparr>);
          out = out\<lparr>ex_tx_types := ex_tx_types out
                      @ [\<lparr>tr_tx_type = tx_type, tr_block_number = number, tr_tx_index = tx_index\<rparr>]\<rparr>;
          out = out\<lparr>ex_address_rows := ex_address_rows out @ [row sender]\<rparr>;
          out = out\<lparr>ex_address_rows := ex_address_rows out
                      @ [case tx_to tx of
                           Some to \<Rightarrow> row to
                         | None \<Rightarrow> row (create_address fns sender (tx_nonce tx))]\<rparr>
      in case slice_get receipts (unat tx_index) of
           Some receipt \<Rightarrow> extract_logs number tx_index 0 (rc_logs receipt) out
         | None \<Rightarrow> out)"

fun extract_txs ::
  "chain_fns \<Rightarrow> u64 \<Rightarrow> receipt list \<Rightarrow> nat \<Rightarrow> (address \<times> transaction) list \<Rightarrow> extracted_block \<Rightarrow> extracted_block" where
  "extract_txs fns number receipts i [] out = out"
| "extract_txs fns number receipts i (stx # stxs) out =
     extract_txs fns number receipts (Suc i) stxs (extract_tx fns number receipts i stx out)"

definition extract_block :: "chain_fns \<Rightarrow> recovered_block \<Rightarrow> receipt list \<Rightarrow> extracted_block" where
  "extract_block fns block receipts =
     (let number = eh_number (rb_header block);
          out = extract_txs fns number receipts 0 (rb_transactions_with_sender block)
                  \<lparr>ex_number = number, ex_address_rows = [], ex_tx_types = [], ex_transfers = [],
                   ex_token_candidates = [], ex_consensus = None\<rparr>
      in out\<lparr>ex_consensus :=
               map_option (\<lambda>f. \<lparr>cr_digest = hc_digest f, cr_epoch = hc_epoch f,
                                cr_round = hc_round f, cr_block_number = number\<rparr>)
                 (decode_consensus_fields fns (rb_header block))\<rparr>)"

end
