(* ===== verification/Storage.thy ===== *)
theory Storage
  imports Sqlite Extract
begin

text \<open>
  The write side of \<open>src/storage.rs\<close>: schema creation and migration (\<open>Writer::open\<close>,
  \<open>migrate\<close>), the one-transaction block write (\<open>apply_block\<close>, \<open>Writer::index_block\<close>), and
  the two questions the indexing loop asks (\<open>last_indexed\<close>, \<open>token_fetch_states\<close>). The
  writer is the connection behind its mutex: one operation runs at a time.
\<close>

definition SCHEMA_VERSION :: string where
  "SCHEMA_VERSION = ''3''"

definition addr_hex :: "address \<Rightarrow> string" where
  "addr_hex a = hex_word a"

definition digest_hex :: "b256 \<Rightarrow> string" where
  "digest_hex digest = hex_word digest"

lemma addr_hex_inj [simp]: "addr_hex a = addr_hex b \<longleftrightarrow> a = b"
  by (simp add: addr_hex_def hex_word_inj)

lemma digest_hex_inj [simp]: "digest_hex a = digest_hex b \<longleftrightarrow> a = b"
  by (simp add: digest_hex_def hex_word_inj)

record token_row =
  tw_address :: address
  tw_name :: "string option"
  tw_symbol :: "string option"
  tw_decimals :: "u8 option"
  tw_status :: u8
  tw_fetched_at :: u64

section \<open>Schema\<close>

datatype ddl = Create_Table string | Create_Index string string

text \<open>The statements of the DDL script, in its order.\<close>

definition DDL :: "ddl list" where
  "DDL =
     [Create_Table ''meta'', Create_Table ''address_txs'', Create_Table ''tx_types'',
      Create_Table ''tx_type_counts'', Create_Table ''consensus_blocks'',
      Create_Table ''token_transfers'',
      Create_Index ''idx_tt_token'' ''token_transfers'',
      Create_Index ''idx_tt_from'' ''token_transfers'',
      Create_Index ''idx_tt_to'' ''token_transfers'',
      Create_Table ''tokens'']"

text \<open>
  \<open>CREATE TABLE IF NOT EXISTS\<close> adds an empty table; an index changes no content.
\<close>

definition create_table :: "string \<Rightarrow> db \<Rightarrow> db" where
  "create_table t d = (if t \<in> set (db_tables d) then d else d\<lparr>db_tables := db_tables d @ [t]\<rparr>)"

fun run_ddl :: "ddl \<Rightarrow> unit sql" where
  "run_ddl (Create_Table t) = execute [] (\<lambda>d. (create_table t d, ()))"
| "run_ddl (Create_Index i t) = andthen (prepare t) (\<lambda>_. execute [] (\<lambda>d. (d, ())))"

text \<open>\<open>DROP TABLE IF EXISTS\<close> removes the table and its rows.\<close>

definition drop_table :: "string \<Rightarrow> db \<Rightarrow> db" where
  "drop_table t d =
     (let d = d\<lparr>db_tables := removeAll t (db_tables d)\<rparr>
      in if t = ''meta'' then d\<lparr>db_meta := Map.empty\<rparr>
         else if t = ''address_txs'' then d\<lparr>db_address_txs := []\<rparr>
         else if t = ''tx_types'' then d\<lparr>db_tx_types := []\<rparr>
         else if t = ''tx_type_counts'' then d\<lparr>db_tx_type_counts := Map.empty\<rparr>
         else if t = ''consensus_blocks'' then d\<lparr>db_consensus_blocks := Map.empty\<rparr>
         else if t = ''token_transfers'' then d\<lparr>db_token_transfers := []\<rparr>
         else if t = ''tokens'' then d\<lparr>db_tokens := Map.empty\<rparr>
         else d)"

definition DROPPED :: "string list" where
  "DROPPED = [''address_txs'', ''tx_types'', ''tx_type_counts'', ''consensus_blocks'',
     ''token_transfers'', ''tokens'', ''meta'', ''blocks'', ''transactions'']"

definition drop_outdated :: "unit sql" where
  "drop_outdated = for_each (\<lambda>t. execute [] (\<lambda>d. (drop_table t d, ()))) DROPPED"

definition table_exists :: "string \<Rightarrow> bool sql" where
  "table_exists name = query [] (\<lambda>d. name \<in> set (db_tables d))"

definition read_meta :: "string \<Rightarrow> string option sql" where
  "read_meta key = andthen (prepare ''meta'') (\<lambda>_. query [] (\<lambda>d. db_meta d key))"

definition put_meta :: "string \<Rightarrow> string \<Rightarrow> unit sql" where
  "put_meta key value =
     andthen (prepare ''meta'') (\<lambda>_. execute [] (\<lambda>d. (d\<lparr>db_meta := (db_meta d)(key \<mapsto> value)\<rparr>, ())))"

definition put_meta_if_absent :: "string \<Rightarrow> string \<Rightarrow> unit sql" where
  "put_meta_if_absent key value =
     andthen (prepare ''meta'') (\<lambda>_. execute [] (\<lambda>d.
       (if db_meta d key = None then d\<lparr>db_meta := (db_meta d)(key \<mapsto> value)\<rparr> else d, ())))"

definition check_chain_id :: "u64 \<Rightarrow> unit sql" where
  "check_chain_id chain_id =
     andthen (read_meta ''chain_id'') (\<lambda>stored.
       case stored of
         None \<Rightarrow> put_meta ''chain_id'' (to_dec chain_id)
       | Some s \<Rightarrow>
           (case parse_u64 s of
              None \<Rightarrow> fail (InvalidStoredChainId s)
            | Some stored_id \<Rightarrow>
                if stored_id \<noteq> chain_id then fail (ChainIdMismatch stored_id chain_id)
                else ret ()))"

definition migrate :: "u64 \<Rightarrow> unit sql" where
  "migrate chain_id =
     andthen (table_exists ''meta'') (\<lambda>meta_exists.
     andthen (table_exists ''blocks'') (\<lambda>blocks.
     andthen (if blocks then ret True else table_exists ''transactions'') (\<lambda>v1_tables.
     andthen (if meta_exists then read_meta ''schema_version'' else ret None) (\<lambda>version.
     andthen (if meta_exists \<and> version \<noteq> Some SCHEMA_VERSION \<or> v1_tables
              then drop_outdated else ret ()) (\<lambda>_.
     andthen (for_each run_ddl DDL) (\<lambda>_.
     andthen (put_meta_if_absent ''schema_version'' SCHEMA_VERSION) (\<lambda>_.
       check_chain_id chain_id)))))))"

text \<open>
  \<open>Writer::open\<close> after the connection is open: the four PRAGMAs of \<open>configure\<close>, which
  change no table, then \<open>migrate\<close>.
\<close>

definition configure :: "unit sql" where
  "configure = for_each (\<lambda>_. execute [] (\<lambda>d. (d, ())))
     [''journal_mode=WAL'', ''synchronous'', ''busy_timeout'', ''foreign_keys'']"

definition writer_open :: "u64 \<Rightarrow> unit sql" where
  "writer_open chain_id = andthen configure (\<lambda>_. migrate chain_id)"

section \<open>The cursor\<close>

definition read_cursor :: "u64 option sql" where
  "read_cursor =
     andthen (read_meta ''last_indexed'') (\<lambda>raw.
       case raw of
         None \<Rightarrow> ret None
       | Some r \<Rightarrow> (case parse_u64 r of Some n \<Rightarrow> ret (Some n) | None \<Rightarrow> fail (CorruptLastIndexed r)))"

definition last_indexed :: "u64 option sql" where
  "last_indexed = read_cursor"

section \<open>Writing one block\<close>

definition insert_address_row :: "address_row \<Rightarrow> unit sql" where
  "insert_address_row row =
     execute [ar_block_number row, ar_tx_index row] (\<lambda>d.
       (d\<lparr>db_address_txs := insert_or_ignore address_tx_key
            \<lparr>at_address = addr_hex (ar_address row), at_block_number = ar_block_number row,
             at_tx_index = ar_tx_index row, at_tx_type = ar_tx_type row\<rparr>
            (db_address_txs d)\<rparr>, ()))"

text \<open>\<open>execute\<close> returns how many rows changed: none for an ignored duplicate.\<close>

definition insert_tx_type_row :: "tx_type_row \<Rightarrow> u64 sql" where
  "insert_tx_type_row row =
     execute [tr_block_number row, tr_tx_index row] (\<lambda>d.
       let rows = insert_or_ignore tx_type_key
             \<lparr>tt_tx_type = tr_tx_type row, tt_block_number = tr_block_number row,
              tt_tx_index = tr_tx_index row\<rparr> (db_tx_types d)
       in (d\<lparr>db_tx_types := rows\<rparr>, of_nat (length rows - length (db_tx_types d))))"

fun insert_tx_types :: "tx_type_row list \<Rightarrow> (u8, u64) btree_map \<Rightarrow> (u8, u64) btree_map sql" where
  "insert_tx_types [] inserted = ret inserted"
| "insert_tx_types (row # rows) inserted =
     andthen (insert_tx_type_row row) (\<lambda>changed.
       insert_tx_types rows (bt_bump (tr_tx_type row) changed inserted))"

definition add_tx_type_count :: "u8 \<times> u64 \<Rightarrow> unit sql" where
  "add_tx_type_count e =
     (let (tx_type, count) = e
      in execute [count] (\<lambda>d.
           (d\<lparr>db_tx_type_counts := (db_tx_type_counts d)(tx_type \<mapsto>
                (case db_tx_type_counts d tx_type of None \<Rightarrow> count | Some c \<Rightarrow> c + count))\<rparr>, ())))"

definition upsert_consensus :: "consensus_row \<Rightarrow> unit sql" where
  "upsert_consensus consensus =
     execute [cr_block_number consensus] (\<lambda>d.
       (d\<lparr>db_consensus_blocks := (db_consensus_blocks d)(digest_hex (cr_digest consensus) \<mapsto>
            (case db_consensus_blocks d (digest_hex (cr_digest consensus)) of
               None \<Rightarrow> \<lparr>cb_epoch = cr_epoch consensus, cb_round = cr_round consensus,
                        cb_first_block = cr_block_number consensus, cb_last_block = cr_block_number consensus\<rparr>
             | Some c \<Rightarrow> c\<lparr>cb_first_block := min (cb_first_block c) (cr_block_number consensus),
                          cb_last_block := max (cb_last_block c) (cr_block_number consensus)\<rparr>))\<rparr>, ()))"

definition insert_transfer :: "transfer_row \<Rightarrow> unit sql" where
  "insert_transfer row =
     execute [tf_block_number row, tf_tx_index row, tf_log_index row] (\<lambda>d.
       (d\<lparr>db_token_transfers := insert_or_ignore transfer_key
            \<lparr>st_block_number = tf_block_number row, st_tx_index = tf_tx_index row,
             st_log_index = tf_log_index row, st_token = addr_hex (tf_token row),
             st_from = addr_hex (tf_from row), st_to = addr_hex (tf_to row),
             st_value = to_dec (tf_value row)\<rparr>
            (db_token_transfers d)\<rparr>, ()))"

definition upsert_token :: "token_row \<Rightarrow> unit sql" where
  "upsert_token row =
     execute [tw_fetched_at row] (\<lambda>d.
       (d\<lparr>db_tokens := (db_tokens d)(addr_hex (tw_address row) \<mapsto>
            \<lparr>tk_name = tw_name row, tk_symbol = tw_symbol row, tk_decimals = tw_decimals row,
             tk_status =
               (case db_tokens d (addr_hex (tw_address row)) of
                  None \<Rightarrow> tw_status row
                | Some old \<Rightarrow> if tw_status row \<noteq> 0 \<and> tk_status old \<noteq> 0 then 2 else tw_status row),
             tk_fetched_at = tw_fetched_at row\<rparr>)\<rparr>, ()))"

definition apply_block :: "extracted_block \<Rightarrow> token_row list \<Rightarrow> bool sql" where
  "apply_block extracted token_rows =
     andthen read_cursor (\<lambda>cursor.
       if (case cursor of Some c \<Rightarrow> ex_number extracted \<le> c | None \<Rightarrow> False) then ret False
       else
         andthen (prepare ''address_txs'') (\<lambda>_.
         andthen (for_each insert_address_row (ex_address_rows extracted)) (\<lambda>_.
         andthen (prepare ''tx_types'') (\<lambda>_.
         andthen (insert_tx_types (ex_tx_types extracted) bt_empty) (\<lambda>inserted.
         andthen (prepare ''tx_type_counts'') (\<lambda>_.
         andthen (for_each add_tx_type_count (bt_entries inserted)) (\<lambda>_.
         andthen
           (case ex_consensus extracted of
              None \<Rightarrow> ret ()
            | Some consensus \<Rightarrow> andthen (prepare ''consensus_blocks'') (\<lambda>_. upsert_consensus consensus)) (\<lambda>_.
         andthen (prepare ''token_transfers'') (\<lambda>_.
         andthen (for_each insert_transfer (ex_transfers extracted)) (\<lambda>_.
         andthen (prepare ''tokens'') (\<lambda>_.
         andthen (for_each upsert_token token_rows) (\<lambda>_.
         andthen (put_meta ''last_indexed'' (to_dec (ex_number extracted))) (\<lambda>_.
         ret True)))))))))))))"

text \<open>An error after the transaction began drops it.\<close>

definition index_block :: "extracted_block \<Rightarrow> token_row list \<Rightarrow> bool sql" where
  "index_block extracted token_rows c =
     (case begin_immediate c of
        (Inl e, c0) \<Rightarrow> (Inl e, c0)
      | (Inr _, c0) \<Rightarrow>
          (case apply_block extracted token_rows c0 of
             (Inl e, c1) \<Rightarrow> (Inl e, drop_tx c1)
           | (Inr indexed, c1) \<Rightarrow>
               (case (if indexed then commit c1 else rollback c1) of
                  (Inl e, c2) \<Rightarrow> (Inl e, drop_tx c2)
                | (Inr _, c2) \<Rightarrow> (Inr indexed, c2))))"

section \<open>Tokens to fetch\<close>

definition token_status :: "address \<Rightarrow> u8 option sql" where
  "token_status candidate = query [] (\<lambda>d. map_option tk_status (db_tokens d (addr_hex candidate)))"

fun fetch_states_loop :: "address list \<Rightarrow> address list \<Rightarrow> address list sql" where
  "fetch_states_loop [] out = ret out"
| "fetch_states_loop (candidate # candidates) out =
     andthen (token_status candidate) (\<lambda>status.
       fetch_states_loop candidates
         (if status = None \<or> status = Some 1 then out @ [candidate] else out))"

definition token_fetch_states :: "address list \<Rightarrow> address list sql" where
  "token_fetch_states candidates = andthen (prepare ''tokens'') (\<lambda>_. fetch_states_loop candidates [])"

end
