(* ===== verification/Storage_Correct.thy ===== *)
theory Storage_Correct
  imports Storage
begin

text \<open>
  What one block write does to the database, as a pure function \<open>block_effect\<close>, and that
  \<open>apply_block\<close> and \<open>index_block\<close> implement it: every successful run has exactly that effect,
  every failed one none, and without faults every run succeeds.
\<close>

section \<open>The effect of a block\<close>

definition address_entry :: "address_row \<Rightarrow> address_tx" where
  "address_entry row = \<lparr>at_address = addr_hex (ar_address row), at_block_number = ar_block_number row,
     at_tx_index = ar_tx_index row, at_tx_type = ar_tx_type row\<rparr>"

definition type_entry :: "tx_type_row \<Rightarrow> tx_type_entry" where
  "type_entry row = \<lparr>tt_tx_type = tr_tx_type row, tt_block_number = tr_block_number row,
     tt_tx_index = tr_tx_index row\<rparr>"

definition transfer_entry :: "transfer_row \<Rightarrow> stored_transfer" where
  "transfer_entry row = \<lparr>st_block_number = tf_block_number row, st_tx_index = tf_tx_index row,
     st_log_index = tf_log_index row, st_token = addr_hex (tf_token row),
     st_from = addr_hex (tf_from row), st_to = addr_hex (tf_to row), st_value = to_dec (tf_value row)\<rparr>"

text \<open>How many of the rows are new, per type.\<close>

definition type_total :: "u8 \<Rightarrow> tx_type_entry list \<Rightarrow> u64" where
  "type_total t rows = of_nat (length (filter (\<lambda>r. tt_tx_type r = t) rows))"

definition add_counts :: "tx_type_entry list \<Rightarrow> tx_type_entry list \<Rightarrow> (u8 \<rightharpoonup> u64) \<Rightarrow> (u8 \<rightharpoonup> u64)" where
  "add_counts new rows counts =
     (\<lambda>t. if t \<in> tt_tx_type ` set new
          then Some ((case counts t of None \<Rightarrow> 0 | Some n \<Rightarrow> n)
                     + (type_total t (fold (insert_or_ignore tx_type_key) new rows) - type_total t rows))
          else counts t)"

definition widen :: "consensus_row \<Rightarrow> consensus_block option \<Rightarrow> consensus_block" where
  "widen r old =
     (case old of
        None \<Rightarrow> \<lparr>cb_epoch = cr_epoch r, cb_round = cr_round r,
                 cb_first_block = cr_block_number r, cb_last_block = cr_block_number r\<rparr>
      | Some c \<Rightarrow> c\<lparr>cb_first_block := min (cb_first_block c) (cr_block_number r),
                   cb_last_block := max (cb_last_block c) (cr_block_number r)\<rparr>)"

definition next_status :: "u8 option \<Rightarrow> u8 \<Rightarrow> u8" where
  "next_status old new =
     (case old of None \<Rightarrow> new | Some s \<Rightarrow> if new \<noteq> 0 \<and> s \<noteq> 0 then 2 else new)"

definition put_token :: "token_row \<Rightarrow> (string \<rightharpoonup> token_entry) \<Rightarrow> (string \<rightharpoonup> token_entry)" where
  "put_token row tokens =
     tokens(addr_hex (tw_address row) \<mapsto>
       \<lparr>tk_name = tw_name row, tk_symbol = tw_symbol row, tk_decimals = tw_decimals row,
        tk_status = next_status (map_option tk_status (tokens (addr_hex (tw_address row)))) (tw_status row),
        tk_fetched_at = tw_fetched_at row\<rparr>)"

definition block_effect :: "extracted_block \<Rightarrow> token_row list \<Rightarrow> db \<Rightarrow> db" where
  "block_effect e ts d = d\<lparr>
     db_meta := (db_meta d)(''last_indexed'' \<mapsto> to_dec (ex_number e)),
     db_address_txs := fold (insert_or_ignore address_tx_key) (map address_entry (ex_address_rows e)) (db_address_txs d),
     db_tx_types := fold (insert_or_ignore tx_type_key) (map type_entry (ex_tx_types e)) (db_tx_types d),
     db_tx_type_counts := add_counts (map type_entry (ex_tx_types e)) (db_tx_types d) (db_tx_type_counts d),
     db_consensus_blocks :=
       (case ex_consensus e of None \<Rightarrow> db_consensus_blocks d
        | Some r \<Rightarrow> (db_consensus_blocks d)(digest_hex (cr_digest r) \<mapsto>
                     widen r (db_consensus_blocks d (digest_hex (cr_digest r))))),
     db_token_transfers := fold (insert_or_ignore transfer_key) (map transfer_entry (ex_transfers e)) (db_token_transfers d),
     db_tokens := fold put_token ts (db_tokens d)\<rparr>"

definition cursor_of :: "db \<Rightarrow> u64 option" where
  "cursor_of d = Option.bind (db_meta d ''last_indexed'') parse_u64"

definition at_or_below_cursor :: "db \<Rightarrow> u64 \<Rightarrow> bool" where
  "at_or_below_cursor d n = (case cursor_of d of Some c \<Rightarrow> n \<le> c | None \<Rightarrow> False)"

lemma cursor_of_block_effect [simp]: "cursor_of (block_effect e ts d) = Some (ex_number e)"
  by (simp add: cursor_of_def block_effect_def)

lemma tables_block_effect [simp]: "db_tables (block_effect e ts d) = db_tables d"
  by (simp add: block_effect_def)

section \<open>The statements have the effect\<close>

lemma updates_read_cursor: "updates read_cursor (\<lambda>d. (d, cursor_of d))"
  unfolding updates_def
proof (intro allI impI)
  fix c x c'
  assume "read_cursor c = (Inr x, c')"
  then obtain raw c1 where r: "read_meta ''last_indexed'' c = (Inr raw, c1)"
    and k: "(case raw of None \<Rightarrow> ret None
            | Some r \<Rightarrow> (case parse_u64 r of Some n \<Rightarrow> ret (Some n) | None \<Rightarrow> fail (CorruptLastIndexed r))) c1
          = (Inr x, c')"
    by (auto simp: read_cursor_def andthen_def split: prod.splits sum.splits)
  have "updates (read_meta ''last_indexed'') (\<lambda>d. (d, db_meta d ''last_indexed''))"
    unfolding read_meta_def
    by (rule updates_cong, rule updates_andthen [OF updates_prepare])
      (rule reads_query [unfolded reads_def], simp)
  from updatesD [OF this r] have "view c1 = view c" "raw = db_meta (view c) ''last_indexed''" by auto
  with k show "(view c', x) = (view c, cursor_of (view c))"
    by (auto simp: cursor_of_def ret_def fail_def split: option.splits)
qed

lemma frames_read_meta [sql_frame]: "frames (read_meta k)"
  unfolding read_meta_def by (intro sql_frame)

lemma frames_read_cursor [sql_frame]: "frames read_cursor"
  unfolding read_cursor_def by (intro sql_frame) (auto intro: sql_frame split: option.splits)

lemma frames_put_meta [sql_frame]: "frames (put_meta k v)"
  unfolding put_meta_def by (intro sql_frame)

lemma updates_put_meta: "updates (put_meta k v) (\<lambda>d. (d\<lparr>db_meta := (db_meta d)(k \<mapsto> v)\<rparr>, ()))"
  unfolding put_meta_def
  by (rule updates_cong, rule updates_andthen [OF updates_prepare]) (rule updates_execute, simp)

lemma fold_db_address_txs:
  "fold (\<lambda>r d. d\<lparr>db_address_txs := f r (db_address_txs d)\<rparr>) rs d = d\<lparr>db_address_txs := fold f rs (db_address_txs d)\<rparr>"
  by (induction rs arbitrary: d) auto

lemma fold_db_token_transfers:
  "fold (\<lambda>r d. d\<lparr>db_token_transfers := f r (db_token_transfers d)\<rparr>) rs d
   = d\<lparr>db_token_transfers := fold f rs (db_token_transfers d)\<rparr>"
  by (induction rs arbitrary: d) auto

lemma fold_db_tokens:
  "fold (\<lambda>r d. d\<lparr>db_tokens := f r (db_tokens d)\<rparr>) rs d = d\<lparr>db_tokens := fold f rs (db_tokens d)\<rparr>"
  by (induction rs arbitrary: d) auto

lemma fold_db_tx_type_counts:
  "fold (\<lambda>r d. d\<lparr>db_tx_type_counts := f r (db_tx_type_counts d)\<rparr>) rs d
   = d\<lparr>db_tx_type_counts := fold f rs (db_tx_type_counts d)\<rparr>"
  by (induction rs arbitrary: d) auto

lemma updates_address_rows:
  "updates (for_each insert_address_row rows)
     (\<lambda>d. (d\<lparr>db_address_txs := fold (insert_or_ignore address_tx_key) (map address_entry rows) (db_address_txs d)\<rparr>, ()))"
  unfolding fold_map comp_def fold_db_address_txs [symmetric]
  by (rule updates_for_each)
    (simp add: insert_address_row_def address_entry_def updates_execute)

lemma updates_transfers:
  "updates (for_each insert_transfer rows)
     (\<lambda>d. (d\<lparr>db_token_transfers := fold (insert_or_ignore transfer_key) (map transfer_entry rows) (db_token_transfers d)\<rparr>, ()))"
  unfolding fold_map comp_def fold_db_token_transfers [symmetric]
  by (rule updates_for_each)
    (simp add: insert_transfer_def transfer_entry_def updates_execute)

lemma updates_tokens:
  "updates (for_each upsert_token rows) (\<lambda>d. (d\<lparr>db_tokens := fold put_token rows (db_tokens d)\<rparr>, ()))"
  unfolding fold_db_tokens [symmetric]
  by (rule updates_for_each)
    (auto simp: upsert_token_def put_token_def next_status_def intro!: updates_cong [OF updates_execute]
      split: option.splits)

text \<open>The type rows: what each insertion adds, and the totals summed per type.\<close>

fun changes :: "tx_type_entry list \<Rightarrow> tx_type_entry list \<Rightarrow> (u8 \<times> u64) list" where
  "changes [] rows = []"
| "changes (r # rs) rows =
     (tt_tx_type r, of_nat (length (insert_or_ignore tx_type_key r rows) - length rows))
     # changes rs (insert_or_ignore tx_type_key r rows)"

lemma fst_changes: "map fst (changes rs rows) = map tt_tx_type rs"
  by (induction rs rows rule: changes.induct) auto

lemma sum_changes:
  "sum_list (map snd (filter (\<lambda>p. fst p = t) (changes rs rows))) =
   type_total t (fold (insert_or_ignore tx_type_key) rs rows) - type_total t rows"
  by (induction rs rows rule: changes.induct) (auto simp: type_total_def insert_or_ignore_def)

lemma updates_insert_tx_types:
  "updates (insert_tx_types rows inserted)
     (\<lambda>d. (d\<lparr>db_tx_types := fold (insert_or_ignore tx_type_key) (map type_entry rows) (db_tx_types d)\<rparr>,
           fold (\<lambda>(k, n). bt_bump k n) (changes (map type_entry rows) (db_tx_types d)) inserted))"
proof (induction rows arbitrary: inserted)
  case Nil
  then show ?case by (simp add: updates_ret)
next
  case (Cons row rows)
  have one: "updates (insert_tx_type_row row)
    (\<lambda>d. (d\<lparr>db_tx_types := insert_or_ignore tx_type_key (type_entry row) (db_tx_types d)\<rparr>,
          of_nat (length (insert_or_ignore tx_type_key (type_entry row) (db_tx_types d)) - length (db_tx_types d))))"
    unfolding insert_tx_type_row_def
    by (rule updates_cong [OF updates_execute]) (simp add: type_entry_def Let_def)
  have ty: "tt_tx_type (type_entry row) = tr_tx_type row" by (simp add: type_entry_def)
  show ?case
    by (simp only: insert_tx_types.simps, rule updates_cong [OF updates_andthen [OF one Cons.IH]])
      (simp add: ty)
qed

lemma map_of_bt_entries: "map_of (bt_entries m) k = bt_get k m"
  unfolding bt_entries_def by (induction m) auto

lemma fold_add_totals:
  fixes counts :: "u8 \<rightharpoonup> u64"
  assumes "distinct (map fst es)"
  shows "fold (\<lambda>(t, n) counts. counts(t \<mapsto> (case counts t of None \<Rightarrow> n | Some c \<Rightarrow> c + n))) es counts k =
    (case map_of es k of None \<Rightarrow> counts k
     | Some n \<Rightarrow> Some ((case counts k of None \<Rightarrow> 0 | Some c \<Rightarrow> c) + n))"
  using assms
proof (induction es arbitrary: counts)
  case Nil
  then show ?case by simp
next
  case (Cons e es)
  obtain t n where e: "e = (t, n)" by (cases e)
  with Cons.prems have "map_of es t = None" by (simp add: map_of_eq_None_iff)
  with Cons e show ?case by (auto split: option.splits)
qed

lemma totals_add_counts:
  "fold (\<lambda>(t, n) counts. counts(t \<mapsto> (case counts t of None \<Rightarrow> n | Some c \<Rightarrow> c + n)))
     (bt_entries (fold (\<lambda>(k, n). bt_bump k n) (changes rs rows) bt_empty)) counts
   = add_counts rs rows counts" (is "fold ?f (bt_entries ?m) counts = _")
proof
  fix k
  have "distinct (map fst (bt_entries ?m))"
    by (rule bt.entries_distinct) (rule bt_bump_wf)
  from fold_add_totals [OF this, of counts k]
  show "fold ?f (bt_entries ?m) counts k = add_counts rs rows counts k"
    using fst_changes [of rs rows]
    by (simp add: map_of_bt_entries bt_bump_count sum_changes add_counts_def image_image [symmetric]
        flip: set_map)
qed

lemma updates_totals:
  "updates (for_each add_tx_type_count es)
     (\<lambda>d. (d\<lparr>db_tx_type_counts :=
              fold (\<lambda>(t, n) counts. counts(t \<mapsto> (case counts t of None \<Rightarrow> n | Some c \<Rightarrow> c + n))) es (db_tx_type_counts d)\<rparr>, ()))"
  unfolding fold_db_tx_type_counts [symmetric]
  by (rule updates_for_each)
    (auto simp: add_tx_type_count_def split: prod.splits option.splits intro!: updates_cong [OF updates_execute])

lemma updates_consensus:
  "updates
     (case cons of None \<Rightarrow> ret () | Some r \<Rightarrow> andthen (prepare ''consensus_blocks'') (\<lambda>_. upsert_consensus r))
     (\<lambda>d. (d\<lparr>db_consensus_blocks :=
       (case cons of None \<Rightarrow> db_consensus_blocks d
        | Some r \<Rightarrow> (db_consensus_blocks d)(digest_hex (cr_digest r) \<mapsto>
                     widen r (db_consensus_blocks d (digest_hex (cr_digest r)))))\<rparr>, ()))"
proof (cases cons)
  case None
  then show ?thesis using updates_ret [of "()"] by simp
next
  case (Some r)
  have "updates (andthen (prepare ''consensus_blocks'') (\<lambda>_. upsert_consensus r))
    (\<lambda>d. (d\<lparr>db_consensus_blocks := (db_consensus_blocks d)(digest_hex (cr_digest r) \<mapsto>
            widen r (db_consensus_blocks d (digest_hex (cr_digest r))))\<rparr>, ()))"
    by (rule updates_cong [OF updates_andthen [OF updates_prepare]])
      (unfold upsert_consensus_def, rule updates_execute, simp add: widen_def)
  with Some show ?thesis by simp
qed

text \<open>
  A successful \<open>apply_block\<close> skipped a block at or below the cursor, or has exactly the effect
  of the block.
\<close>

lemma updates_apply_block:
  "updates (apply_block e ts)
     (\<lambda>d. if at_or_below_cursor d (ex_number e) then (d, False) else (block_effect e ts d, True))"
proof -
  note steps = updates_andthen [OF updates_prepare updates_andthen [OF updates_address_rows
    updates_andthen [OF updates_prepare updates_andthen [OF updates_insert_tx_types
    updates_andthen [OF updates_prepare updates_andthen [OF updates_totals
    updates_andthen [OF updates_consensus updates_andthen [OF updates_prepare
    updates_andthen [OF updates_transfers updates_andthen [OF updates_prepare
    updates_andthen [OF updates_tokens updates_andthen [OF updates_put_meta updates_ret]]]]]]]]]]]]
  show ?thesis
    unfolding apply_block_def
  proof (rule updates_cong [OF updates_andthen [OF updates_read_cursor, where
        h = "\<lambda>cursor d. if case cursor of Some c \<Rightarrow> ex_number e \<le> c | None \<Rightarrow> False then (d, False)
                        else (block_effect e ts d, True)"]], goal_cases)
    case (1 cursor)
    show ?case
    proof (cases "case cursor of Some c \<Rightarrow> ex_number e \<le> c | None \<Rightarrow> False")
      case True
      then show ?thesis using updates_ret [of False] by simp
    next
      case False
      show ?thesis
        unfolding if_not_P [OF False]
        by (rule updates_cong [OF steps]) (cases "ex_consensus e"; simp add: block_effect_def totals_add_counts)
    qed
  qed (simp add: at_or_below_cursor_def)
qed

section \<open>Atomicity\<close>

lemma frames_insert_tx_types [sql_frame]: "frames (insert_tx_types rows inserted)"
  by (induction rows arbitrary: inserted) (auto simp: insert_tx_type_row_def intro!: sql_frame)

lemma frames_apply_block: "frames (apply_block e ts)"
  unfolding apply_block_def insert_address_row_def add_tx_type_count_def upsert_consensus_def
    insert_transfer_def upsert_token_def case_prod_beta Let_def
  by (intro sql_frame) (auto intro!: sql_frame split: option.splits)

lemma charge_frame: "charge c = (r, c') \<Longrightarrow> cn_committed c' = cn_committed c \<and> cn_tx c' = cn_tx c \<and> cn_binds c' = cn_binds c"
  by (auto simp: charge_def split: option.splits nat.splits)

lemma begin_cases:
  assumes "cn_tx c = None" "begin_immediate c = (r, c')"
  shows "(\<exists>e. r = Inl e \<and> cn_tx c' = None \<and> cn_committed c' = cn_committed c) \<or>
         (r = Inr () \<and> cn_tx c' = Some (cn_committed c) \<and> cn_committed c' = cn_committed c)"
  using assms charge_frame
  by (fastforce simp: begin_immediate_def andthen_def view_def split: prod.splits sum.splits)

lemma commit_cases:
  assumes "cn_tx c = Some d" "commit c = (r, c')"
  shows "(\<exists>e. r = Inl e \<and> cn_committed c' = cn_committed c) \<or>
         (r = Inr () \<and> cn_tx c' = None \<and> cn_committed c' = d)"
  using assms charge_frame
  by (fastforce simp: commit_def andthen_def view_def split: prod.splits sum.splits)

lemma rollback_cases:
  assumes "rollback c = (r, c')"
  shows "cn_committed c' = cn_committed c \<and> ((\<exists>e. r = Inl e) \<or> (r = Inr () \<and> cn_tx c' = None))"
  using assms charge_frame
  by (fastforce simp: rollback_def andthen_def split: prod.splits sum.splits)

text \<open>What one call of \<open>index_block\<close> commits, whatever fails in it.\<close>

lemma index_block_outcome:
  assumes idle: "cn_tx c = None" and run: "index_block e ts c = (r, c')"
  shows "cn_tx c' = None \<and>
    (r = Inr True \<and> \<not> at_or_below_cursor (cn_committed c) (ex_number e) \<and>
       cn_committed c' = block_effect e ts (cn_committed c) \<or>
     r = Inr False \<and> at_or_below_cursor (cn_committed c) (ex_number e) \<and> cn_committed c' = cn_committed c \<or>
     (\<exists>err. r = Inl err) \<and> cn_committed c' = cn_committed c)"
proof -
  obtain r0 c0 where b: "begin_immediate c = (r0, c0)" by (cases "begin_immediate c")
  show ?thesis
  proof (cases r0)
    case (Inl err)
    with b run begin_cases [OF idle b] show ?thesis by (auto simp: index_block_def)
  next
    case (Inr u)
    with begin_cases [OF idle b]
    have c0: "cn_tx c0 = Some (cn_committed c)" "cn_committed c0 = cn_committed c" by auto
    obtain r1 c1 where a: "apply_block e ts c0 = (r1, c1)" by (cases "apply_block e ts c0")
    from framesD [OF frames_apply_block a] c0
    obtain d1 where c1: "cn_tx c1 = Some d1" "cn_committed c1 = cn_committed c"
      by (auto simp: same_session_def)
    show ?thesis
    proof (cases r1)
      case (Inl err)
      with run b a Inr c1 show ?thesis by (auto simp: index_block_def drop_tx_def)
    next
      case (Inr indexed)
      from updatesD [OF updates_apply_block a [unfolded Inr]] c0 c1
      have eff: "(d1, indexed) = (if at_or_below_cursor (cn_committed c) (ex_number e) then (cn_committed c, False)
                               else (block_effect e ts (cn_committed c), True))"
        by (simp add: view_def)
      obtain r2 c2 where f: "(if indexed then commit c1 else rollback c1) = (r2, c2)"
        by (cases "if indexed then commit c1 else rollback c1")
      have run': "(case r2 of Inl e \<Rightarrow> (Inl e, drop_tx c2) | Inr _ \<Rightarrow> (Inr indexed, c2)) = (r, c')"
        using run b a \<open>r0 = Inr u\<close> Inr f by (simp add: index_block_def)
      show ?thesis
        using run' f eff c1 commit_cases [OF c1(1), of r2 c2] rollback_cases [of c1 r2 c2]
        by (auto simp: drop_tx_def split: if_splits sum.splits)
    qed
  qed
qed

section \<open>Without faults the write succeeds\<close>

text \<open>The driver converts a \<open>u64\<close> to SQLite's signed 64-bit \<open>INTEGER\<close> when it fits.\<close>

definition fits_i64 :: "u64 \<Rightarrow> bool" where
  "fits_i64 v = (unat v < 2 ^ 63)"

definition SCHEMA_TABLES :: "string list" where
  "SCHEMA_TABLES = [''meta'', ''address_txs'', ''tx_types'', ''tx_type_counts'', ''consensus_blocks'',
     ''token_transfers'', ''tokens'']"

definition ready :: "conn \<Rightarrow> bool" where
  "ready c \<longleftrightarrow> healthy c \<and> cn_binds c = fits_i64 \<and> set SCHEMA_TABLES \<subseteq> set (db_tables (view c))"

definition completes :: "'a sql \<Rightarrow> conn \<Rightarrow> bool" where
  "completes m c \<longleftrightarrow> (\<exists>x c'. m c = (Inr x, c') \<and> ready c')"

named_theorems sql_completes

lemma completes_ret [sql_completes]: "ready c \<Longrightarrow> completes (ret x) c"
  by (simp add: completes_def ret_def)

lemma completes_andthen:
  assumes "completes m c" "\<And>x c'. m c = (Inr x, c') \<Longrightarrow> ready c' \<Longrightarrow> completes (k x) c'"
  shows "completes (andthen m k) c"
proof -
  from assms(1) obtain x c1 where "m c = (Inr x, c1)" "ready c1" by (auto simp: completes_def)
  with assms(2) show ?thesis by (simp add: completes_def andthen_def)
qed

lemma ready_set_view: "ready c \<Longrightarrow> db_tables d = db_tables (view c) \<Longrightarrow> ready (set_view d c)"
  by (auto simp: ready_def healthy_def set_view_def view_def split: option.splits)

lemma completes_execute [sql_completes]:
  "ready c \<Longrightarrow> list_all fits_i64 ps \<Longrightarrow> (\<And>d. db_tables (fst (f d)) = db_tables d) \<Longrightarrow> completes (execute ps f) c"
  using ready_set_view [of c "fst (f (view c))"]
  by (auto simp: completes_def execute_healthy ready_def)

lemma completes_query [sql_completes]: "ready c \<Longrightarrow> list_all fits_i64 ps \<Longrightarrow> completes (query ps q) c"
  by (auto simp: completes_def query_healthy ready_def)

lemma completes_prepare [sql_completes]: "ready c \<Longrightarrow> t \<in> set SCHEMA_TABLES \<Longrightarrow> completes (prepare t) c"
  by (auto simp: completes_def prepare_def ready_def)

lemma completes_for_each:
  assumes "ready c" "\<And>x c. x \<in> set xs \<Longrightarrow> ready c \<Longrightarrow> completes (f x) c"
  shows "completes (for_each f xs) c"
  using assms
proof (induction xs arbitrary: c)
  case Nil
  then show ?case by (simp add: completes_ret)
next
  case (Cons x xs)
  then show ?case by (auto intro!: completes_andthen)
qed

lemma completes_insert_tx_types:
  assumes "ready c" "\<And>r. r \<in> set rows \<Longrightarrow> fits_i64 (tr_block_number r) \<and> fits_i64 (tr_tx_index r)"
  shows "completes (insert_tx_types rows inserted) c"
  using assms
proof (induction rows arbitrary: c inserted)
  case Nil
  then show ?case by (simp add: completes_ret)
next
  case (Cons r rows)
  have "completes (insert_tx_type_row r) c"
    using Cons.prems unfolding insert_tx_type_row_def
    by (intro completes_execute) (auto simp: Let_def)
  with Cons show ?case by (auto intro!: completes_andthen)
qed

text \<open>The totals that are bound to the counter statement are at most the number of rows.\<close>

lemma type_total_bounds:
  "length (filter (\<lambda>r. tt_tx_type r = t) rows) \<le> length (filter (\<lambda>r. tt_tx_type r = t) (fold (insert_or_ignore tx_type_key) rs rows))
   \<and> length (filter (\<lambda>r. tt_tx_type r = t) (fold (insert_or_ignore tx_type_key) rs rows))
     \<le> length (filter (\<lambda>r. tt_tx_type r = t) rows) + length rs"
proof (induction rs arbitrary: rows)
  case Nil
  then show ?case by simp
next
  case (Cons r rs)
  from Cons [of "insert_or_ignore tx_type_key r rows"] show ?case
    by (auto simp: insert_or_ignore_def split: if_splits)
qed

lemma type_total_diff:
  "unat (type_total t (fold (insert_or_ignore tx_type_key) rs rows) - type_total t rows) \<le> length rs"
proof -
  let ?a = "length (filter (\<lambda>r. tt_tx_type r = t) rows)"
  let ?b = "length (filter (\<lambda>r. tt_tx_type r = t) (fold (insert_or_ignore tx_type_key) rs rows))"
  note bounds = type_total_bounds [of t rows rs]
  have diff: "(of_nat ?b - of_nat ?a :: u64) = of_nat (?b - ?a)"
    using conjunct1 [OF bounds] by (simp add: of_nat_diff)
  have "unat (of_nat (?b - ?a) :: u64) \<le> ?b - ?a"
    by (simp add: unat_of_nat)
  also have "?b - ?a \<le> length rs" using conjunct2 [OF bounds] by linarith
  finally show ?thesis unfolding type_total_def diff .
qed

lemma inserted_fits:
  assumes "(t, n) \<in> set (bt_entries (fold (\<lambda>(k, n). bt_bump k n) (changes rs rows) bt_empty))" "length rs < 2 ^ 63"
  shows "fits_i64 n"
proof -
  have "bt_get t (fold (\<lambda>(k, n). bt_bump k n) (changes rs rows) bt_empty) = Some n"
    using assms(1) bt_get_entries [OF bt_bump_wf [of "changes rs rows"], of t n]
    by (simp add: bt_entries_def)
  then have "n = type_total t (fold (insert_or_ignore tx_type_key) rs rows) - type_total t rows"
    by (auto simp: bt_bump_count sum_changes split: if_splits)
  with type_total_diff [of t rs rows] assms(2) show ?thesis by (simp add: fits_i64_def)
qed

definition block_fits :: "extracted_block \<Rightarrow> token_row list \<Rightarrow> bool" where
  "block_fits e ts \<longleftrightarrow>
     list_all (\<lambda>r. fits_i64 (ar_block_number r) \<and> fits_i64 (ar_tx_index r)) (ex_address_rows e) \<and>
     list_all (\<lambda>r. fits_i64 (tr_block_number r) \<and> fits_i64 (tr_tx_index r)) (ex_tx_types e) \<and>
     length (ex_tx_types e) < 2 ^ 63 \<and>
     (case ex_consensus e of None \<Rightarrow> True | Some r \<Rightarrow> fits_i64 (cr_block_number r)) \<and>
     list_all (\<lambda>r. fits_i64 (tf_block_number r) \<and> fits_i64 (tf_tx_index r) \<and> fits_i64 (tf_log_index r)) (ex_transfers e) \<and>
     list_all (\<lambda>r. fits_i64 (tw_fetched_at r)) ts"

definition cursor_readable :: "db \<Rightarrow> bool" where
  "cursor_readable d \<longleftrightarrow> (case db_meta d ''last_indexed'' of Some s \<Rightarrow> parse_u64 s \<noteq> None | None \<Rightarrow> True)"

lemma completes_read_meta [sql_completes]: "ready c \<Longrightarrow> completes (read_meta k) c"
  unfolding read_meta_def
  by (rule completes_andthen) (auto intro!: sql_completes simp: SCHEMA_TABLES_def)

lemma completes_put_meta [sql_completes]: "ready c \<Longrightarrow> completes (put_meta k v) c"
  unfolding put_meta_def
  by (rule completes_andthen) (auto intro!: sql_completes simp: SCHEMA_TABLES_def)

lemma updates_read_meta: "updates (read_meta k) (\<lambda>d. (d, db_meta d k))"
  unfolding read_meta_def
  by (rule updates_cong, rule updates_andthen [OF updates_prepare])
    (rule reads_query [unfolded reads_def], simp)

lemma completes_read_cursor:
  assumes "ready c" "cursor_readable (view c)"
  shows "completes read_cursor c"
  unfolding read_cursor_def
proof (rule completes_andthen [OF completes_read_meta [OF assms(1)]])
  fix raw c'
  assume r: "read_meta ''last_indexed'' c = (Inr raw, c')" "ready c'"
  from updatesD [OF updates_read_meta r(1)] assms(2) r(2)
  show "completes (case raw of None \<Rightarrow> ret None
      | Some r \<Rightarrow> (case parse_u64 r of Some n \<Rightarrow> ret (Some n) | None \<Rightarrow> fail (CorruptLastIndexed r))) c'"
    by (auto simp: cursor_readable_def intro: completes_ret split: option.splits)
qed

lemma completes_apply_block:
  assumes "ready c" "cursor_readable (view c)" "block_fits e ts"
  shows "completes (apply_block e ts) c"
proof -
  note fits = assms(3) [unfolded block_fits_def list_all_iff]
  have rows: "completes (for_each insert_address_row (ex_address_rows e)) c"
    and trs: "completes (for_each insert_transfer (ex_transfers e)) c"
    and toks: "completes (for_each upsert_token ts) c" if "ready c" for c
    using that fits
    by (auto intro!: completes_for_each completes_execute
        simp: insert_address_row_def insert_transfer_def upsert_token_def)
  have cons: "completes (case ex_consensus e of None \<Rightarrow> ret ()
      | Some r \<Rightarrow> andthen (prepare ''consensus_blocks'') (\<lambda>_. upsert_consensus r)) c" if "ready c" for c
    using that fits
    by (auto intro!: sql_completes completes_andthen simp: upsert_consensus_def SCHEMA_TABLES_def split: option.splits)
  have types: "completes (insert_tx_types (ex_tx_types e) bt_empty) c" if "ready c" for c
    using that fits by (intro completes_insert_tx_types) auto
  have totals: "completes (for_each add_tx_type_count (bt_entries inserted)) c'"
    if "insert_tx_types (ex_tx_types e) bt_empty c = (Inr inserted, c1)" "ready c'" for c c1 c' inserted
  proof (rule completes_for_each [OF that(2)])
    fix p and c :: conn
    assume p: "p \<in> set (bt_entries inserted)" and "ready c"
    have "fits_i64 (snd p)"
      using updatesD [OF updates_insert_tx_types that(1)] p fits
      by (cases p) (auto intro!: inserted_fits [where rs = "map type_entry (ex_tx_types e)"])
    then show "completes (add_tx_type_count p) c"
      using \<open>ready c\<close> by (auto simp: add_tx_type_count_def case_prod_beta intro!: completes_execute)
  qed
  have tabs: "completes (prepare ''address_txs'') c" "completes (prepare ''tx_types'') c"
    "completes (prepare ''tx_type_counts'') c" "completes (prepare ''token_transfers'') c"
    "completes (prepare ''tokens'') c" if "ready c" for c
    using that by (simp_all add: completes_prepare SCHEMA_TABLES_def)
  show ?thesis
    unfolding apply_block_def
  proof (rule completes_andthen [OF completes_read_cursor [OF assms(1,2)]])
    fix cursor c0
    assume "ready c0"
    show "completes (if case cursor of Some c \<Rightarrow> ex_number e \<le> c | None \<Rightarrow> False then ret False
      else andthen (prepare ''address_txs'') (\<lambda>_.
         andthen (for_each insert_address_row (ex_address_rows e)) (\<lambda>_.
         andthen (prepare ''tx_types'') (\<lambda>_.
         andthen (insert_tx_types (ex_tx_types e) bt_empty) (\<lambda>inserted.
         andthen (prepare ''tx_type_counts'') (\<lambda>_.
         andthen (for_each add_tx_type_count (bt_entries inserted)) (\<lambda>_.
         andthen
           (case ex_consensus e of
              None \<Rightarrow> ret ()
            | Some consensus \<Rightarrow> andthen (prepare ''consensus_blocks'') (\<lambda>_. upsert_consensus consensus)) (\<lambda>_.
         andthen (prepare ''token_transfers'') (\<lambda>_.
         andthen (for_each insert_transfer (ex_transfers e)) (\<lambda>_.
         andthen (prepare ''tokens'') (\<lambda>_.
         andthen (for_each upsert_token ts) (\<lambda>_.
         andthen (put_meta ''last_indexed'' (to_dec (ex_number e))) (\<lambda>_.
         ret True))))))))))))) c0"
      by (split if_split, intro conjI impI, rule completes_ret [OF \<open>ready c0\<close>],
          rule completes_andthen [OF tabs(1) [OF \<open>ready c0\<close>]],
          rule completes_andthen, erule rows, rule completes_andthen, erule tabs(2),
          rule completes_andthen, erule types, rule completes_andthen, erule tabs(3),
          rule completes_andthen, rule totals, assumption, assumption,
          rule completes_andthen, erule cons, rule completes_andthen, erule tabs(4),
          rule completes_andthen, erule trs, rule completes_andthen, erule tabs(5),
          rule completes_andthen, erule toks, rule completes_andthen, erule completes_put_meta,
          erule completes_ret)
  qed
qed

end
