(* ===== verification/Storage_Schema.thy ===== *)
theory Storage_Schema
  imports Storage_Correct
begin

text \<open>
  Opening the database: what \<open>migrate\<close> leaves behind, also when it stops after any of its
  statements. Each statement of \<open>migrate\<close> commits on its own, so the argument is a triple with
  a second postcondition for the states an error can leave.
\<close>

section \<open>Triples over autocommitted statements\<close>

text \<open>
  \<open>triple h P m Q E\<close>: from a committed state with \<open>P\<close>, \<open>m\<close> ends with its result in \<open>Q\<close> or
  its error in \<open>E\<close>. With \<open>h\<close> the connection is free of faults.
\<close>

definition triple :: "bool \<Rightarrow> (db \<Rightarrow> bool) \<Rightarrow> 'a sql \<Rightarrow> ('a \<Rightarrow> db \<Rightarrow> bool) \<Rightarrow> (report \<Rightarrow> db \<Rightarrow> bool) \<Rightarrow> bool" where
  "triple h P m Q E \<longleftrightarrow>
     (\<forall>c r c'. cn_tx c = None \<longrightarrow> (h \<longrightarrow> healthy c) \<longrightarrow> P (cn_committed c) \<longrightarrow> m c = (r, c') \<longrightarrow>
        cn_tx c' = None \<and> (h \<longrightarrow> healthy c') \<and>
        (case r of Inr x \<Rightarrow> Q x (cn_committed c') | Inl e \<Rightarrow> E e (cn_committed c')))"

lemma tripleD:
  "triple h P m Q E \<Longrightarrow> cn_tx c = None \<Longrightarrow> h \<longrightarrow> healthy c \<Longrightarrow> P (cn_committed c) \<Longrightarrow> m c = (r, c') \<Longrightarrow>
   cn_tx c' = None \<and> (h \<longrightarrow> healthy c') \<and>
   (case r of Inr x \<Rightarrow> Q x (cn_committed c') | Inl e \<Rightarrow> E e (cn_committed c'))"
  unfolding triple_def by blast

lemma triple_ret: "(\<And>d. P d \<Longrightarrow> Q x d) \<Longrightarrow> triple h P (ret x) Q E"
  by (simp add: triple_def ret_def)

lemma triple_fail: "(\<And>d. P d \<Longrightarrow> E e d) \<Longrightarrow> triple h P (fail e) Q E"
  by (simp add: triple_def fail_def)

lemma triple_andthen:
  assumes "triple h P m Q E" "\<And>x. triple h (Q x) (k x) R E"
  shows "triple h P (andthen m k) R E"
  unfolding triple_def
proof (intro allI impI)
  fix c r c'
  assume c: "cn_tx c = None" "h \<longrightarrow> healthy c" "P (cn_committed c)" "andthen m k c = (r, c')"
  obtain r1 c1 where m: "m c = (r1, c1)" by (cases "m c")
  note t = tripleD [OF assms(1) c(1-3) m]
  show "cn_tx c' = None \<and> (h \<longrightarrow> healthy c') \<and>
      (case r of Inr x \<Rightarrow> R x (cn_committed c') | Inl e \<Rightarrow> E e (cn_committed c'))"
  proof (cases r1)
    case (Inl e)
    with c(4) m t show ?thesis by (auto simp: andthen_def)
  next
    case (Inr x)
    with c(4) m have "k x c1 = (r, c')" by (simp add: andthen_def)
    with t Inr show ?thesis by (intro tripleD [OF assms(2)]) auto
  qed
qed

lemma triple_weaken:
  assumes "triple h P m Q E" "\<And>d. P' d \<Longrightarrow> P d" "\<And>x d. Q x d \<Longrightarrow> Q' x d" "\<And>e d. E e d \<Longrightarrow> E' e d"
  shows "triple h P' m Q' E'"
  unfolding triple_def
proof (intro allI impI)
  fix c r c'
  assume "cn_tx c = None" "h \<longrightarrow> healthy c" "P' (cn_committed c)" "m c = (r, c')"
  from tripleD [OF assms(1) this(1,2) assms(2) [OF this(3)] this(4)]
  show "cn_tx c' = None \<and> (h \<longrightarrow> healthy c') \<and>
      (case r of Inr x \<Rightarrow> Q' x (cn_committed c') | Inl e \<Rightarrow> E' e (cn_committed c'))"
    using assms(3,4) by (cases r) auto
qed

lemma charge_idle:
  "charge c = (r, c') \<Longrightarrow> cn_tx c = None \<Longrightarrow>
   cn_tx c' = None \<and> cn_committed c' = cn_committed c \<and> (healthy c \<longrightarrow> healthy c' \<and> r = Inr ())
   \<and> (r = Inr () \<or> r = Inl SqliteFailure)"
  by (auto simp: charge_def healthy_def split: option.splits nat.splits)

lemma triple_execute:
  assumes "\<And>d. P d \<Longrightarrow> Q (snd (f d)) (fst (f d))" "\<And>d. \<not> h \<Longrightarrow> P d \<Longrightarrow> E SqliteFailure d"
  shows "triple h P (execute [] f) Q E"
  unfolding triple_def
proof (intro allI impI)
  fix c r c'
  assume c: "cn_tx c = None" "h \<longrightarrow> healthy c" "P (cn_committed c)" "execute [] f c = (r, c')"
  obtain g cg where g: "charge c = (g, cg)" by (cases "charge c")
  from c charge_idle [OF g c(1)] g assms
  show "cn_tx c' = None \<and> (h \<longrightarrow> healthy c') \<and>
      (case r of Inr x \<Rightarrow> Q x (cn_committed c') | Inl e \<Rightarrow> E e (cn_committed c'))"
    by (auto simp: execute_def andthen_def view_def set_view_def case_prod_beta healthy_def split: sum.splits)
qed

lemma triple_query:
  assumes "\<And>d. P d \<Longrightarrow> Q (q d) d" "\<And>d. \<not> h \<Longrightarrow> P d \<Longrightarrow> E SqliteFailure d"
  shows "triple h P (query [] q) Q E"
  unfolding triple_def
proof (intro allI impI)
  fix c r c'
  assume c: "cn_tx c = None" "h \<longrightarrow> healthy c" "P (cn_committed c)" "query [] q c = (r, c')"
  obtain g cg where g: "charge c = (g, cg)" by (cases "charge c")
  from c charge_idle [OF g c(1)] g assms
  show "cn_tx c' = None \<and> (h \<longrightarrow> healthy c') \<and>
      (case r of Inr x \<Rightarrow> Q x (cn_committed c') | Inl e \<Rightarrow> E e (cn_committed c'))"
    by (auto simp: query_def andthen_def view_def split: sum.splits)
qed

lemma triple_prepare:
  "(\<And>d. P d \<Longrightarrow> t \<in> set (db_tables d) \<Longrightarrow> Q () d) \<Longrightarrow>
   (\<And>d. P d \<Longrightarrow> t \<notin> set (db_tables d) \<Longrightarrow> E (NoSuchTable t) d) \<Longrightarrow> triple h P (prepare t) Q E"
  by (auto simp: triple_def prepare_def view_def split: if_splits)

lemma triple_for_each:
  assumes "\<And>i. i < length xs \<Longrightarrow> triple h (P i) (f (xs ! i)) (\<lambda>_. P (Suc i)) E"
  shows "triple h (P 0) (for_each f xs) (\<lambda>_. P (length xs)) E"
  using assms
proof (induction xs arbitrary: P)
  case Nil
  then show ?case by (simp add: triple_ret)
next
  case (Cons x xs)
  have "triple h (P (Suc 0)) (for_each f xs) (\<lambda>_. P (Suc (length xs))) E"
    by (rule Cons.IH) (use Cons.prems in force)
  moreover have "triple h (P 0) (f x) (\<lambda>_. P (Suc 0)) E"
    using Cons.prems [of 0] by simp
  ultimately show ?case by (auto intro: triple_andthen)
qed

lemma triple_read_meta:
  assumes "\<And>d. P d \<Longrightarrow> ''meta'' \<in> set (db_tables d)" "\<And>d. P d \<Longrightarrow> Q (db_meta d k) d"
    "\<And>d. \<not> h \<Longrightarrow> P d \<Longrightarrow> E SqliteFailure d"
  shows "triple h P (read_meta k) Q E"
  unfolding read_meta_def
  by (rule triple_andthen [where Q = "\<lambda>_. P"]) (auto intro!: triple_prepare triple_query dest: assms)

section \<open>Files\<close>

definition has_v1 :: "db \<Rightarrow> bool" where
  "has_v1 d \<longleftrightarrow> ''blocks'' \<in> set (db_tables d) \<or> ''transactions'' \<in> set (db_tables d)"

text \<open>The file of an earlier schema, which \<open>migrate\<close> rebuilds; and a file of this schema.\<close>

definition stale :: "db \<Rightarrow> bool" where
  "stale d \<longleftrightarrow> (''meta'' \<in> set (db_tables d) \<and> db_meta d ''schema_version'' \<noteq> Some SCHEMA_VERSION) \<or> has_v1 d"

definition current :: "db \<Rightarrow> bool" where
  "current d \<longleftrightarrow> ''meta'' \<in> set (db_tables d) \<and> db_meta d ''schema_version'' = Some SCHEMA_VERSION \<and> \<not> has_v1 d"

definition blank :: "db \<Rightarrow> bool" where
  "blank d \<longleftrightarrow> db_address_txs d = [] \<and> db_tx_types d = [] \<and> db_tx_type_counts d = Map.empty \<and>
     db_consensus_blocks d = Map.empty \<and> db_token_transfers d = [] \<and> db_tokens d = Map.empty \<and>
     db_meta d ''last_indexed'' = None"

text \<open>A table that is not there has no rows; a file without \<open>meta\<close> is new or of schema v1.\<close>

definition file_ok :: "db \<Rightarrow> bool" where
  "file_ok d \<longleftrightarrow> (''meta'' \<notin> set (db_tables d) \<longrightarrow> db_meta d = Map.empty) \<and>
     (''meta'' \<notin> set (db_tables d) \<and> \<not> has_v1 d \<longrightarrow> blank d)"

definition same_rows :: "db \<Rightarrow> db \<Rightarrow> bool" where
  "same_rows d d' \<longleftrightarrow> db_address_txs d' = db_address_txs d \<and> db_tx_types d' = db_tx_types d \<and>
     db_tx_type_counts d' = db_tx_type_counts d \<and> db_consensus_blocks d' = db_consensus_blocks d \<and>
     db_token_transfers d' = db_token_transfers d \<and> db_tokens d' = db_tokens d \<and>
     db_meta d' ''last_indexed'' = db_meta d ''last_indexed''"

lemma same_rows_refl [simp]: "same_rows d d"
  by (simp add: same_rows_def)

lemma SCHEMA_VERSION_ne [simp]: "SCHEMA_VERSION \<noteq> []"
  by (simp add: SCHEMA_VERSION_def)

section \<open>Rebuilding a stale file\<close>

definition chain_ok :: "u64 \<Rightarrow> db \<Rightarrow> bool" where
  "chain_ok chain_id d \<longleftrightarrow>
     (case db_meta d ''chain_id'' of None \<Rightarrow> True | Some s \<Rightarrow> parse_u64 s = Some chain_id)"

definition rebuildable :: "u64 \<Rightarrow> db \<Rightarrow> bool" where
  "rebuildable chain_id d \<longleftrightarrow> file_ok d \<and> (stale d \<or> blank d \<and> chain_ok chain_id d)"

text \<open>After \<open>i\<close> of the nine drops.\<close>

definition dropped :: "nat \<Rightarrow> db \<Rightarrow> bool" where
  "dropped i d \<longleftrightarrow>
     (''meta'' \<notin> set (db_tables d) \<longrightarrow> db_meta d = Map.empty) \<and> (i \<le> 6 \<longrightarrow> stale d) \<and>
     (0 < i \<longrightarrow> db_address_txs d = []) \<and> (1 < i \<longrightarrow> db_tx_types d = []) \<and>
     (2 < i \<longrightarrow> db_tx_type_counts d = Map.empty) \<and> (3 < i \<longrightarrow> db_consensus_blocks d = Map.empty) \<and>
     (4 < i \<longrightarrow> db_token_transfers d = []) \<and> (5 < i \<longrightarrow> db_tokens d = Map.empty) \<and>
     (6 < i \<longrightarrow> ''meta'' \<notin> set (db_tables d)) \<and> (7 < i \<longrightarrow> ''blocks'' \<notin> set (db_tables d)) \<and>
     (8 < i \<longrightarrow> ''transactions'' \<notin> set (db_tables d))"

lemma dropped_rebuildable: "dropped i d \<Longrightarrow> rebuildable chain_id d"
  by (cases "i \<le> 6") (auto simp: dropped_def rebuildable_def file_ok_def blank_def stale_def has_v1_def chain_ok_def)

lemma dropped_step: "i < length DROPPED \<Longrightarrow> dropped i d \<Longrightarrow> dropped (Suc i) (drop_table (DROPPED ! i) d)"
proof -
  assume i: "i < length DROPPED" and d: "dropped i d"
  note defs = DROPPED_def dropped_def drop_table_def stale_def has_v1_def
  from i have "i = 0 \<or> i = 1 \<or> i = 2 \<or> i = 3 \<or> i = 4 \<or> i = 5 \<or> i = 6 \<or> i = 7 \<or> i = 8"
    by (simp add: DROPPED_def) linarith
  then show ?thesis
    using d by (elim disjE; hypsubst) (simp_all add: defs)
qed

lemma triple_drop_outdated:
  "triple h (\<lambda>d. file_ok d \<and> stale d) drop_outdated (\<lambda>_. dropped 9) (\<lambda>_ d. rebuildable chain_id d \<and> \<not> h)"
proof -
  have "triple h (dropped 0) drop_outdated (\<lambda>_. dropped (length DROPPED)) (\<lambda>_ d. rebuildable chain_id d \<and> \<not> h)"
    unfolding drop_outdated_def
    by (intro triple_for_each triple_execute) (simp_all add: dropped_step dropped_rebuildable)
  then show ?thesis
    by (rule triple_weaken) (auto simp: dropped_def file_ok_def DROPPED_def)
qed

section \<open>Creating the schema\<close>

text \<open>A file whose version, if it has one, is the current one, with tables of a prefix of the DDL.\<close>

definition creating :: "(db \<Rightarrow> bool) \<Rightarrow> nat \<Rightarrow> db \<Rightarrow> bool" where
  "creating keep i d \<longleftrightarrow> keep d \<and> \<not> has_v1 d \<and> list_all (\<lambda>s. case s of Create_Table t \<Rightarrow> t \<in> set (db_tables d) | _ \<Rightarrow> True) (take i DDL)"

definition opened :: "u64 \<Rightarrow> db \<Rightarrow> bool" where
  "opened chain_id d \<longleftrightarrow> set SCHEMA_TABLES \<subseteq> set (db_tables d) \<and> current d \<and>
     (\<exists>s. db_meta d ''chain_id'' = Some s \<and> parse_u64 s = Some chain_id)"

definition rebuilt :: "u64 \<Rightarrow> db \<Rightarrow> bool" where
  "rebuilt chain_id d \<longleftrightarrow> (''meta'' \<notin> set (db_tables d) \<longrightarrow> db_meta d = Map.empty) \<and> blank d \<and> chain_ok chain_id d \<and>
     (db_meta d ''schema_version'' = None \<or> db_meta d ''schema_version'' = Some SCHEMA_VERSION)"

definition unchanged :: "db \<Rightarrow> db \<Rightarrow> bool" where
  "unchanged d0 d \<longleftrightarrow> same_rows d0 d \<and> ''meta'' \<in> set (db_tables d) \<and>
     db_meta d ''schema_version'' = Some SCHEMA_VERSION \<and>
     (\<forall>s. db_meta d0 ''chain_id'' = Some s \<longrightarrow> db_meta d ''chain_id'' = Some s)"

text \<open>
  The two uses of the creation steps: after a rebuild, and on a current file. What they need of
  the predicate that is kept.
\<close>

locale kept_file =
  fixes keep :: "db \<Rightarrow> bool"
    and chain_id :: u64
  assumes keep_create: "keep d \<Longrightarrow> keep (create_table t d)"
    and keep_version: "keep d \<Longrightarrow> db_meta d ''schema_version'' = None \<or> db_meta d ''schema_version'' = Some SCHEMA_VERSION"
    and keep_put_version: "keep d \<Longrightarrow> ''meta'' \<in> set (db_tables d) \<Longrightarrow> db_meta d ''schema_version'' = None \<Longrightarrow>
      keep (d\<lparr>db_meta := (db_meta d)(''schema_version'' \<mapsto> SCHEMA_VERSION)\<rparr>)"
    and keep_put_chain: "keep d \<Longrightarrow> ''meta'' \<in> set (db_tables d) \<Longrightarrow> db_meta d ''chain_id'' = None \<Longrightarrow>
      keep (d\<lparr>db_meta := (db_meta d)(''chain_id'' \<mapsto> to_dec chain_id)\<rparr>)"
begin

lemma creating_step:
  assumes "i < length DDL"
  shows "triple h (creating keep i) (run_ddl (DDL ! i)) (\<lambda>_. creating keep (Suc i)) (\<lambda>e d. \<not> h \<and> keep d \<and> \<not> has_v1 d)"
proof (cases "DDL ! i")
  case (Create_Table t)
  have "t \<noteq> ''blocks''" "t \<noteq> ''transactions''"
    using Create_Table assms nth_mem [OF assms] by (auto simp: DDL_def)
  with Create_Table assms show ?thesis
    by (auto intro!: triple_execute keep_create simp: creating_def take_Suc_conv_app_nth list_all_iff has_v1_def
        split: ddl.splits) (auto simp: create_table_def split: if_splits)
next
  case (Create_Index n t)
  then have t: "t = ''token_transfers''" and i: "6 \<le> i"
    using assms by (auto simp: DDL_def less_Suc_eq numeral_nat)
  have "Create_Table ''token_transfers'' \<in> set (take i DDL)"
    using i by (auto simp: DDL_def le_Suc_ex take_Cons' numeral_nat)
  then have "creating keep i d \<Longrightarrow> t \<in> set (db_tables d)" for d
    using t by (fastforce simp: creating_def list_all_iff)
  with Create_Index assms show ?thesis
    by (auto intro!: triple_andthen [where Q = "\<lambda>_. creating keep i"] triple_execute triple_prepare
        simp: creating_def take_Suc_conv_app_nth)
qed

text \<open>The tail of \<open>migrate\<close>, from the DDL script on.\<close>

lemma creating_all:
  assumes "creating keep (length DDL) d"
  shows "keep d \<and> \<not> has_v1 d \<and> set SCHEMA_TABLES \<subseteq> set (db_tables d)"
  using assms by (simp add: creating_def DDL_def SCHEMA_TABLES_def)

abbreviation (input) laid_out :: "db \<Rightarrow> bool" where
  "laid_out d \<equiv> keep d \<and> \<not> has_v1 d \<and> set SCHEMA_TABLES \<subseteq> set (db_tables d)"

abbreviation (input) versioned :: "db \<Rightarrow> bool" where
  "versioned d \<equiv> laid_out d \<and> db_meta d ''schema_version'' = Some SCHEMA_VERSION"

abbreviation (input) refused :: "bool \<Rightarrow> db \<Rightarrow> bool" where
  "refused h d \<equiv> keep d \<and> \<not> has_v1 d \<and>
     (h \<longrightarrow> (\<exists>s. db_meta d ''chain_id'' = Some s \<and> parse_u64 s \<noteq> Some chain_id))"

lemma laid_out_meta: "set SCHEMA_TABLES \<subseteq> set (db_tables d) \<Longrightarrow> ''meta'' \<in> set (db_tables d)"
  by (simp add: SCHEMA_TABLES_def)

lemma has_v1_put_meta: "has_v1 (d\<lparr>db_meta := m\<rparr>) = has_v1 d"
  by (simp add: has_v1_def)

lemma triple_ddl: "triple h (\<lambda>d. keep d \<and> \<not> has_v1 d) (for_each run_ddl DDL) (\<lambda>_. laid_out) (\<lambda>_. refused h)"
proof -
  have "triple h (creating keep 0) (for_each run_ddl DDL) (\<lambda>_. creating keep (length DDL)) (\<lambda>e d. \<not> h \<and> keep d \<and> \<not> has_v1 d)"
    by (rule triple_for_each) (rule creating_step)
  then show ?thesis
  proof (rule triple_weaken)
    show "creating keep 0 d" if "keep d \<and> \<not> has_v1 d" for d using that by (simp add: creating_def)
    show "laid_out d" if "creating keep (length DDL) d" for d using that by (rule creating_all)
  qed simp
qed

lemma triple_prepare_meta: "triple h laid_out (prepare ''meta'') (\<lambda>_. laid_out) (\<lambda>_. refused h)"
  using laid_out_meta by (intro triple_prepare) blast+

lemma triple_put_version:
  "triple h laid_out (put_meta_if_absent ''schema_version'' SCHEMA_VERSION) (\<lambda>_. versioned) (\<lambda>_. refused h)"
  unfolding put_meta_if_absent_def
proof (rule triple_andthen [OF triple_prepare_meta], rule triple_execute)
  fix d
  assume "laid_out d"
  then show "versioned (fst (if db_meta d ''schema_version'' = None
       then d\<lparr>db_meta := (db_meta d)(''schema_version'' \<mapsto> SCHEMA_VERSION)\<rparr> else d, ()))"
    using keep_version [of d] keep_put_version [of d] laid_out_meta [of d] by (auto simp: has_v1_put_meta)
qed simp

lemma triple_check_chain_id:
  "triple h versioned (check_chain_id chain_id) (\<lambda>_ d. keep d \<and> opened chain_id d) (\<lambda>_. refused h)"
  unfolding check_chain_id_def
proof (rule triple_andthen [where Q = "\<lambda>stored d. versioned d \<and> db_meta d ''chain_id'' = stored"])
  show "triple h versioned (read_meta ''chain_id'') (\<lambda>stored d. versioned d \<and> db_meta d ''chain_id'' = stored) (\<lambda>_. refused h)"
    by (rule triple_read_meta) (auto simp: laid_out_meta)
next
  fix stored
  let ?A = "\<lambda>d. versioned d \<and> db_meta d ''chain_id'' = None"
  have put: "triple h ?A (put_meta ''chain_id'' (to_dec chain_id)) (\<lambda>_ d. keep d \<and> opened chain_id d) (\<lambda>_. refused h)"
    unfolding put_meta_def
  proof (rule triple_andthen [where Q = "\<lambda>_. ?A"])
    show "triple h ?A (prepare ''meta'') (\<lambda>_. ?A) (\<lambda>_. refused h)"
      using laid_out_meta by (intro triple_prepare) blast+
    show "triple h ?A (execute [] (\<lambda>d. (d\<lparr>db_meta := (db_meta d)(''chain_id'' \<mapsto> to_dec chain_id)\<rparr>, ())))
        (\<lambda>_ d. keep d \<and> opened chain_id d) (\<lambda>_. refused h)"
      using keep_put_chain laid_out_meta
      by (intro triple_execute) (auto simp: opened_def current_def has_v1_put_meta)
  qed
  show "triple h (\<lambda>d. versioned d \<and> db_meta d ''chain_id'' = stored)
     (case stored of
        None \<Rightarrow> put_meta ''chain_id'' (to_dec chain_id)
      | Some s \<Rightarrow>
          (case parse_u64 s of
             None \<Rightarrow> fail (InvalidStoredChainId s)
           | Some stored_id \<Rightarrow>
               if stored_id \<noteq> chain_id then fail (ChainIdMismatch stored_id chain_id) else ret ()))
     (\<lambda>_ d. keep d \<and> opened chain_id d) (\<lambda>_. refused h)"
  proof (cases stored)
    case None
    from put show ?thesis unfolding None option.case by (rule triple_weaken) auto
  next
    case (Some s)
    show ?thesis unfolding Some option.case
      by (cases "parse_u64 s") (auto intro!: triple_ret triple_fail simp: opened_def current_def laid_out_meta)
  qed
qed

text \<open>The tail of \<open>migrate\<close>, from the DDL script on.\<close>

lemma triple_create_schema:
  "triple h (\<lambda>d. keep d \<and> \<not> has_v1 d)
     (andthen (for_each run_ddl DDL) (\<lambda>_.
      andthen (put_meta_if_absent ''schema_version'' SCHEMA_VERSION) (\<lambda>_. check_chain_id chain_id)))
     (\<lambda>_ d. keep d \<and> opened chain_id d) (\<lambda>_. refused h)"
  by (rule triple_andthen [OF triple_ddl triple_andthen [OF triple_put_version triple_check_chain_id]])

end

section \<open>Opening a file\<close>

interpretation rebuilding: kept_file "rebuilt chain_id" chain_id for chain_id
  by unfold_locales (auto simp: rebuilt_def create_table_def blank_def chain_ok_def)

interpretation reopening: kept_file "unchanged d0" chain_id for d0 chain_id
  by unfold_locales (auto simp: unchanged_def create_table_def same_rows_def)

lemma dropped_rebuilt: "dropped 9 d \<Longrightarrow> rebuilt chain_id d \<and> \<not> has_v1 d"
  by (simp add: dropped_def rebuilt_def blank_def has_v1_def chain_ok_def)

lemma rebuilt_rebuildable: "rebuilt chain_id d \<Longrightarrow> \<not> has_v1 d \<Longrightarrow> rebuildable chain_id d"
  by (auto simp: rebuilt_def rebuildable_def file_ok_def)

lemma rebuildable_not_stale: "rebuildable chain_id d \<Longrightarrow> \<not> stale d \<Longrightarrow> rebuilt chain_id d \<and> \<not> has_v1 d"
  by (auto simp: rebuildable_def rebuilt_def file_ok_def stale_def)

text \<open>Steps that read keep any predicate.\<close>

lemma triple_table_exists:
  "(\<And>d. P d \<Longrightarrow> \<not> h \<Longrightarrow> E SqliteFailure d) \<Longrightarrow>
   triple h P (table_exists t) (\<lambda>b d. P d \<and> (b \<longleftrightarrow> t \<in> set (db_tables d))) E"
  unfolding table_exists_def by (rule triple_query) auto

lemma triple_v1_tables:
  assumes "\<And>d. P d \<Longrightarrow> \<not> h \<Longrightarrow> E SqliteFailure d"
  shows "triple h (\<lambda>d. P d \<and> (blocks \<longleftrightarrow> ''blocks'' \<in> set (db_tables d)))
     (if blocks then ret True else table_exists ''transactions'') (\<lambda>v1 d. P d \<and> (v1 \<longleftrightarrow> has_v1 d)) E"
proof (cases blocks)
  case True
  then show ?thesis by (auto intro!: triple_ret simp: has_v1_def)
next
  case False
  have "triple h (\<lambda>d. P d \<and> ''blocks'' \<notin> set (db_tables d)) (table_exists ''transactions'')
    (\<lambda>b d. (P d \<and> ''blocks'' \<notin> set (db_tables d)) \<and> (b \<longleftrightarrow> ''transactions'' \<in> set (db_tables d))) E"
    by (rule triple_table_exists) (auto intro: assms)
  with False show ?thesis by (auto intro: triple_weaken simp: has_v1_def)
qed

lemma triple_version:
  assumes "\<And>d. P d \<Longrightarrow> \<not> h \<Longrightarrow> E SqliteFailure d" "\<And>d. P d \<Longrightarrow> meta_exists \<longleftrightarrow> ''meta'' \<in> set (db_tables d)"
  shows "triple h P (if meta_exists then read_meta ''schema_version'' else ret None)
     (\<lambda>version d. P d \<and> (meta_exists \<longrightarrow> version = db_meta d ''schema_version'')) E"
  using assms by (auto intro!: triple_ret triple_read_meta)

text \<open>
  \<open>migrate\<close> from any \<open>P\<close>: the branch on what it read is the branch on staleness, and the
  tail runs from a rebuilt or an unchanged file.
\<close>

lemma triple_migrate:
  assumes fault: "\<And>d. P d \<Longrightarrow> \<not> h \<Longrightarrow> E SqliteFailure d"
    and rebuild: "triple h (\<lambda>d. P d \<and> stale d) drop_outdated (\<lambda>_ d. K d \<and> \<not> has_v1 d) E"
    and clean: "\<And>d. P d \<Longrightarrow> \<not> stale d \<Longrightarrow> K d \<and> \<not> has_v1 d"
    and tail: "triple h (\<lambda>d. K d \<and> \<not> has_v1 d)
      (andthen (for_each run_ddl DDL) (\<lambda>_.
       andthen (put_meta_if_absent ''schema_version'' SCHEMA_VERSION) (\<lambda>_. check_chain_id chain_id))) Q E"
  shows "triple h P (migrate chain_id) Q E"
proof -
  let ?P1 = "\<lambda>meta_exists d. P d \<and> (meta_exists \<longleftrightarrow> ''meta'' \<in> set (db_tables d))"
  have p1: "triple h P (table_exists ''meta'') ?P1 E"
    by (rule triple_table_exists) (rule fault)
  have p2: "triple h (?P1 m) (table_exists ''blocks'') (\<lambda>b d. ?P1 m d \<and> (b \<longleftrightarrow> ''blocks'' \<in> set (db_tables d))) E" for m
    by (rule triple_table_exists) (use fault in blast)
  have p3: "triple h (\<lambda>d. ?P1 m d \<and> (blocks \<longleftrightarrow> ''blocks'' \<in> set (db_tables d)))
      (if blocks then ret True else table_exists ''transactions'') (\<lambda>v1 d. ?P1 m d \<and> (v1 \<longleftrightarrow> has_v1 d)) E" for m blocks
    by (rule triple_v1_tables) (use fault in blast)
  have p4: "triple h (\<lambda>d. ?P1 m d \<and> (v1 \<longleftrightarrow> has_v1 d)) (if m then read_meta ''schema_version'' else ret None)
      (\<lambda>version d. (?P1 m d \<and> (v1 \<longleftrightarrow> has_v1 d)) \<and> (m \<longrightarrow> version = db_meta d ''schema_version'')) E" for m v1
    by (rule triple_version) (use fault in blast)+
  have branch: "triple h (\<lambda>d. (?P1 meta_exists d \<and> (v1 \<longleftrightarrow> has_v1 d)) \<and> (meta_exists \<longrightarrow> version = db_meta d ''schema_version''))
      (if meta_exists \<and> version \<noteq> Some SCHEMA_VERSION \<or> v1 then drop_outdated else ret ())
      (\<lambda>_ d. K d \<and> \<not> has_v1 d) E" for meta_exists v1 version
  proof (cases "meta_exists \<and> version \<noteq> Some SCHEMA_VERSION \<or> v1")
    case True
    from rebuild show ?thesis unfolding if_P [OF True]
      by (rule triple_weaken) (use True in \<open>auto simp: stale_def\<close>)
  next
    case False
    then show ?thesis unfolding if_not_P [OF False]
      by (intro triple_ret clean) (auto simp: stale_def)
  qed
  show ?thesis
    unfolding migrate_def
    by (rule triple_andthen, rule p1, rule triple_andthen, rule p2, rule triple_andthen, rule p3,
        rule triple_andthen, rule p4, rule triple_andthen, rule branch, rule tail)
qed

text \<open>The two outcomes of opening: a rebuilt file, or an unchanged one.\<close>

lemma triple_configure: "(\<And>d. P d \<Longrightarrow> \<not> h \<Longrightarrow> E SqliteFailure d) \<Longrightarrow> triple h P configure (\<lambda>_. P) E"
  unfolding configure_def
  by (rule triple_for_each [where P = "\<lambda>_. P", simplified]) (auto intro: triple_execute)

lemma triple_open_rebuild:
  "triple h (rebuildable chain_id) (writer_open chain_id) (\<lambda>_ d. rebuilt chain_id d \<and> opened chain_id d)
     (\<lambda>_ d. rebuildable chain_id d \<and> \<not> h)"
  unfolding writer_open_def
proof (rule triple_andthen [OF triple_configure triple_migrate [where K = "rebuilt chain_id"]])
  show "triple h (\<lambda>d. rebuildable chain_id d \<and> stale d) drop_outdated (\<lambda>_ d. rebuilt chain_id d \<and> \<not> has_v1 d)
      (\<lambda>_ d. rebuildable chain_id d \<and> \<not> h)"
    by (rule triple_weaken [OF triple_drop_outdated]) (auto simp: rebuildable_def dest: dropped_rebuilt)
  show "triple h (\<lambda>d. rebuilt chain_id d \<and> \<not> has_v1 d)
    (andthen (for_each run_ddl DDL) (\<lambda>_.
     andthen (put_meta_if_absent ''schema_version'' SCHEMA_VERSION) (\<lambda>_. check_chain_id chain_id)))
    (\<lambda>_ d. rebuilt chain_id d \<and> opened chain_id d) (\<lambda>_ d. rebuildable chain_id d \<and> \<not> h)"
    by (rule triple_weaken [OF rebuilding.triple_create_schema])
      (auto intro: rebuilt_rebuildable simp: rebuilt_def chain_ok_def)
qed (auto dest: rebuildable_not_stale)

text \<open>
  Process starts that stop at an arbitrary statement, one after the other.
\<close>

fun open_run :: "nat option list \<Rightarrow> u64 \<Rightarrow> conn \<Rightarrow> conn" where
  "open_run [] chain_id c = c"
| "open_run (budget # budgets) chain_id c =
     open_run budgets chain_id (snd (writer_open chain_id (c\<lparr>cn_budget := budget\<rparr>)))"

text \<open>A predicate that makes the file current is kept by opening it, and by any starts that stop anywhere.\<close>

context kept_file
begin

lemma triple_open_kept:
  assumes "\<And>d. keep d \<Longrightarrow> ''meta'' \<in> set (db_tables d) \<and> db_meta d ''schema_version'' = Some SCHEMA_VERSION"
  shows "triple h (\<lambda>d. keep d \<and> \<not> has_v1 d) (writer_open chain_id) (\<lambda>_ d. keep d \<and> opened chain_id d) (\<lambda>_. refused h)"
  unfolding writer_open_def
proof (rule triple_andthen [OF triple_configure triple_migrate [where K = keep]])
  show "triple h (\<lambda>d. (keep d \<and> \<not> has_v1 d) \<and> stale d) drop_outdated (\<lambda>_ d. keep d \<and> \<not> has_v1 d) E" for E
  proof -
    have no: "\<not> ((keep d \<and> \<not> has_v1 d) \<and> stale d)" for d using assms by (auto simp: stale_def)
    show ?thesis unfolding triple_def using no by blast
  qed
qed (auto intro: triple_create_schema)

lemma open_run_kept:
  assumes "\<And>d. keep d \<Longrightarrow> ''meta'' \<in> set (db_tables d) \<and> db_meta d ''schema_version'' = Some SCHEMA_VERSION"
  shows "cn_tx c = None \<Longrightarrow> keep (cn_committed c) \<Longrightarrow> \<not> has_v1 (cn_committed c) \<Longrightarrow>
    cn_tx (open_run budgets chain_id c) = None \<and> keep (cn_committed (open_run budgets chain_id c)) \<and>
    \<not> has_v1 (cn_committed (open_run budgets chain_id c))"
proof (induction budgets arbitrary: c)
  case Nil
  then show ?case by simp
next
  case (Cons budget budgets)
  obtain r c1 where o: "writer_open chain_id (c\<lparr>cn_budget := budget\<rparr>) = (r, c1)"
    by (cases "writer_open chain_id (c\<lparr>cn_budget := budget\<rparr>)")
  from tripleD [OF triple_open_kept [OF assms, of False] _ _ _ o] Cons.prems
  have "cn_tx c1 = None" "keep (cn_committed c1)" "\<not> has_v1 (cn_committed c1)"
    by (auto split: sum.splits simp: opened_def current_def)
  with Cons.IH o show ?case by simp
qed

end

text \<open>A file of the own chain, or of none yet.\<close>

interpretation owned: kept_file "\<lambda>d. unchanged d0 d \<and> chain_ok chain_id d" chain_id for d0 chain_id
  by unfold_locales (auto simp: unchanged_def create_table_def same_rows_def chain_ok_def)

lemma unchanged_current: "unchanged d0 d \<Longrightarrow> ''meta'' \<in> set (db_tables d) \<and> db_meta d ''schema_version'' = Some SCHEMA_VERSION"
  by (simp add: unchanged_def)

lemma triple_open_unchanged:
  "triple h (\<lambda>d. unchanged d0 d \<and> \<not> has_v1 d) (writer_open chain_id) (\<lambda>_ d. unchanged d0 d \<and> opened chain_id d)
     (\<lambda>_ d. unchanged d0 d \<and> \<not> has_v1 d \<and> (h \<longrightarrow> (\<exists>s. db_meta d ''chain_id'' = Some s \<and> parse_u64 s \<noteq> Some chain_id)))"
  by (rule reopening.triple_open_kept) (rule unchanged_current)

lemma triple_open_owned:
  "triple h (\<lambda>d. (unchanged d0 d \<and> chain_ok chain_id d) \<and> \<not> has_v1 d) (writer_open chain_id)
     (\<lambda>_ d. (unchanged d0 d \<and> chain_ok chain_id d) \<and> opened chain_id d) (\<lambda>_ d. \<not> h)"
  by (rule triple_weaken [OF owned.triple_open_kept]) (auto simp: unchanged_current chain_ok_def)

lemma open_run_unchanged:
  "cn_tx c = None \<Longrightarrow> unchanged d0 (cn_committed c) \<Longrightarrow> \<not> has_v1 (cn_committed c) \<Longrightarrow>
   cn_tx (open_run budgets chain_id c) = None \<and> unchanged d0 (cn_committed (open_run budgets chain_id c)) \<and>
   \<not> has_v1 (cn_committed (open_run budgets chain_id c))"
  by (rule reopening.open_run_kept) (rule unchanged_current)

lemma open_run_owned:
  "cn_tx c = None \<Longrightarrow> unchanged d0 (cn_committed c) \<and> chain_ok chain_id (cn_committed c) \<Longrightarrow> \<not> has_v1 (cn_committed c) \<Longrightarrow>
   cn_tx (open_run budgets chain_id c) = None \<and>
   (unchanged d0 (cn_committed (open_run budgets chain_id c)) \<and> chain_ok chain_id (cn_committed (open_run budgets chain_id c))) \<and>
   \<not> has_v1 (cn_committed (open_run budgets chain_id c))"
  by (rule owned.open_run_kept) (auto simp: unchanged_current)

lemma open_run_rebuildable:
  "cn_tx c = None \<Longrightarrow> rebuildable chain_id (cn_committed c) \<Longrightarrow>
   cn_tx (open_run budgets chain_id c) = None \<and> rebuildable chain_id (cn_committed (open_run budgets chain_id c))"
proof (induction budgets chain_id c rule: open_run.induct)
  case (1 chain_id c)
  then show ?case by simp
next
  case (2 budget budgets chain_id c)
  obtain r c1 where o: "writer_open chain_id (c\<lparr>cn_budget := budget\<rparr>) = (r, c1)"
    by (cases "writer_open chain_id (c\<lparr>cn_budget := budget\<rparr>)")
  from tripleD [OF triple_open_rebuild [of False chain_id] _ _ _ o] "2.prems"
  have "cn_tx c1 = None" "rebuildable chain_id (cn_committed c1)"
    by (auto split: sum.splits intro: rebuilt_rebuildable simp: opened_def current_def)
  with "2.IH" o show ?case by simp
qed

end
