(* ===== verification/Paging.thy ===== *)
theory Paging
  imports Prelude
begin

text \<open>
  The paging arithmetic of the list endpoints: \<open>clamp_per_page\<close> (\<open>types.rs\<close>),
  \<open>page_params\<close> (\<open>api.rs\<close>) and the descending page arithmetic of \<open>node_reads.rs\<close>, which
  pages dense numbers without an \<open>OFFSET\<close> scan. The locale \<open>paged_feed\<close> is the contract
  every list endpoint relies on: page \<open>p\<close> of size \<open>n\<close> is the \<open>p\<close>-th window of \<open>n\<close> items of
  one feed.
\<close>

section \<open>The contract of a paged feed\<close>

locale paged_feed =
  fixes feed :: "'a list"
    and page_of :: "u64 \<Rightarrow> u64 \<Rightarrow> 'a list"
    and serves :: "u64 \<Rightarrow> u64 \<Rightarrow> bool"
  assumes page_window:
    "0 < n \<Longrightarrow> serves p n \<Longrightarrow> page_of p n = take (unat n) (drop (unat p * unat n) feed)"
begin

lemma page_length: "0 < n \<Longrightarrow> serves p n \<Longrightarrow> length (page_of p n) \<le> unat n"
  by (simp add: page_window)

lemma page_past_end: "0 < n \<Longrightarrow> serves p n \<Longrightarrow> length feed \<le> unat p * unat n \<Longrightarrow> page_of p n = []"
  by (simp add: page_window)

lemma page_full:
  "0 < n \<Longrightarrow> serves p n \<Longrightarrow> (unat p + 1) * unat n \<le> length feed \<Longrightarrow> length (page_of p n) = unat n"
  by (simp add: page_window)

lemma page_sorted: "0 < n \<Longrightarrow> serves p n \<Longrightarrow> sorted_wrt P feed \<Longrightarrow> sorted_wrt P (page_of p n)"
  by (simp add: page_window)

lemma page_subset: "0 < n \<Longrightarrow> serves p n \<Longrightarrow> set (page_of p n) \<subseteq> set feed"
  by (auto simp: page_window dest!: in_set_takeD in_set_dropD)

text \<open>The pages in order are the feed, each item once.\<close>

lemma pages_prefix:
  assumes n: "0 < n" and served: "\<And>p. unat p < k \<Longrightarrow> serves p n" and k: "k \<le> 2 ^ 64"
  shows "concat (map (\<lambda>p. page_of (of_nat p) n) [0..<k]) = take (k * unat n) feed"
  using served k
proof (induction k)
  case 0
  then show ?case by simp
next
  case (Suc k)
  then have u: "unat (of_nat k :: u64) = k" by (intro unat_of_nat_small) simp
  with Suc.prems n have "page_of (of_nat k) n = take (unat n) (drop (k * unat n) feed)"
    using page_window [of n "of_nat k"] by simp
  with Suc show ?case by (simp add: take_add [symmetric] add.commute)
qed

lemma pages_cover:
  assumes "0 < n" "\<And>p. unat p < k \<Longrightarrow> serves p n" "k \<le> 2 ^ 64" "length feed \<le> k * unat n"
  shows "concat (map (\<lambda>p. page_of (of_nat p) n) [0..<k]) = feed"
  using pages_prefix [OF assms(1-3)] assms(4) by simp

text \<open>Two different pages of a feed without duplicates share no item.\<close>

lemma pages_disjoint:
  assumes "0 < n" "serves p n" "serves q n" "distinct feed" "unat p < unat q"
  shows "set (page_of p n) \<inter> set (page_of q n) = {}"
proof -
  have "unat p * unat n + unat n \<le> unat q * unat n"
    using assms(5) by (metis Suc_leI add.commute mult_Suc mult_le_mono1)
  then have "set (page_of q n) \<subseteq> set (drop (unat p * unat n + unat n) feed)"
    using assms page_window [of n q] set_drop_subset_set_drop [of "unat p * unat n + unat n"]
    by (metis (no_types, lifting) in_set_takeD subset_eq)
  moreover have "set (page_of p n) \<subseteq> set (take (unat p * unat n + unat n) feed)"
    using assms(1,2) page_window [of n p]
    by (metis add.commute set_take_subset set_drop_subset take_drop)
  ultimately show ?thesis
    using set_take_disj_set_drop_if_distinct [OF assms(4)] by blast
qed

end

section \<open>Query parameters\<close>

definition DEFAULT_PER_PAGE :: u64 where
  "DEFAULT_PER_PAGE = 25"

definition MAX_PER_PAGE :: u64 where
  "MAX_PER_PAGE = 100"

definition clamp_per_page :: "u64 option \<Rightarrow> u64" where
  "clamp_per_page requested =
     clamp (case requested of Some n \<Rightarrow> n | None \<Rightarrow> DEFAULT_PER_PAGE) 1 MAX_PER_PAGE"

record page_query =
  pq_page :: "u64 option"
  pq_per_page :: "u64 option"

definition page_params :: "page_query \<Rightarrow> u64 \<times> u64 \<times> u64" where
  "page_params query =
     (let page = (case pq_page query of Some p \<Rightarrow> p | None \<Rightarrow> 0);
          per_page = clamp_per_page (pq_per_page query)
      in (page, per_page, saturating_mul page per_page))"

section \<open>Descending pages of dense numbers\<close>

definition desc_page_bounds :: "u64 \<Rightarrow> u64 \<Rightarrow> u64 \<Rightarrow> (u64 \<times> u64) option" where
  "desc_page_bounds tot page per_page =
     (case checked_mul page per_page of
        None \<Rightarrow> None
      | Some skip \<Rightarrow>
          if tot \<le> skip then None
          else let high = tot - 1 - skip;
                   low = saturating_sub high (saturating_sub per_page 1)
               in Some (low, high))"

definition desc_page_items :: "u64 \<Rightarrow> u64 \<Rightarrow> u64 \<Rightarrow> u64 list" where
  "desc_page_items tot page per_page =
     (case desc_page_bounds tot page per_page of
        Some (low, high) \<Rightarrow> rev (map of_nat [unat low..<Suc (unat high)])
      | None \<Rightarrow> [])"

definition consensus_page_numbers :: "u64 \<Rightarrow> u64 \<Rightarrow> u64 \<Rightarrow> u64 list" where
  "consensus_page_numbers tot page per_page = map (\<lambda>index. index + 1) (desc_page_items tot page per_page)"

lemma clamp_per_page_bounds: "1 \<le> clamp_per_page r \<and> clamp_per_page r \<le> 100"
  using clamp_bounds [of "1::u64" 100] by (simp add: clamp_per_page_def MAX_PER_PAGE_def)

lemma clamp_per_page_pos: "0 < clamp_per_page r"
  using clamp_per_page_bounds [of r] by (auto simp: word_le_nat_alt word_less_nat_alt)

lemma desc_page_bounds_Some:
  assumes "desc_page_bounds tot page n = Some (low, high)" "0 < n"
  shows "unat page * unat n < unat tot"
    "unat high = unat tot - 1 - unat page * unat n"
    "unat low = unat high - (unat n - 1)"
proof -
  from assms obtain skip where s: "checked_mul page n = Some skip" "\<not> tot \<le> skip"
    "high = tot - 1 - skip" "low = saturating_sub high (saturating_sub n 1)"
    by (auto simp: desc_page_bounds_def Let_def split: option.splits if_splits)
  from s(1) have u: "unat skip = unat page * unat n" by (simp add: checked_mul_Some_iff)
  with s(2) show lt: "unat page * unat n < unat tot" by (simp add: word_le_nat_alt)
  have "unat (tot - 1) = unat tot - 1" using lt by (intro unat_pred) simp
  moreover from this lt u have "skip \<le> tot - 1" by (simp add: word_le_nat_alt)
  ultimately show "unat high = unat tot - 1 - unat page * unat n"
    using u s(3) by (simp add: unat_minus_le)
  show "unat low = unat high - (unat n - 1)" using s(4) by (simp add: unat_saturating_sub)
qed

lemma desc_page_bounds_None:
  "desc_page_bounds tot page n = None \<longleftrightarrow> unat tot \<le> unat page * unat n"
proof (cases "checked_mul page n")
  case None
  then have "unat tot \<le> unat page * unat n"
    using unat_lt2p [of tot] by (simp add: checked_mul_None_iff)
  moreover have "desc_page_bounds tot page n = None"
    unfolding desc_page_bounds_def None by simp
  ultimately show ?thesis by simp
next
  case (Some skip)
  then have "unat skip = unat page * unat n" by (simp add: checked_mul_Some_iff)
  then show ?thesis
    unfolding desc_page_bounds_def Some by (simp add: Let_def word_le_nat_alt)
qed

text \<open>The feed of \<open>tot\<close> dense items, newest first.\<close>

definition dense_desc :: "u64 \<Rightarrow> u64 list" where
  "dense_desc tot = rev (map of_nat [0..<unat tot])"

lemma length_dense_desc [simp]: "length (dense_desc tot) = unat tot"
  by (simp add: dense_desc_def)

lemma take_drop_rev:
  "take n (drop p (rev xs)) = rev (drop (length xs - p - n) (take (length xs - p) xs))"
  by (simp add: drop_rev take_rev)

lemma desc_page_items_window:
  assumes n: "0 < n"
  shows "desc_page_items tot p n = take (unat n) (drop (unat p * unat n) (dense_desc tot))"
proof (cases "desc_page_bounds tot p n")
  case None
  then have "desc_page_items tot p n = []"
    unfolding desc_page_items_def by simp
  then show ?thesis
    using None by (simp add: desc_page_bounds_None)
next
  case (Some b)
  obtain low high where b: "b = (low, high)" by (cases b)
  note f = desc_page_bounds_Some [OF Some [unfolded b] n]
  have pos: "0 < unat n" using n by (simp add: word_less_nat_alt)
  have hi: "Suc (unat high) = unat tot - unat p * unat n" using f(1,2) by simp
  have "[unat low..<Suc (unat high)] = drop (unat low) (take (Suc (unat high)) [0..<unat tot])"
    using hi by (simp add: take_upt drop_upt)
  moreover have "unat low = unat tot - unat p * unat n - unat n"
    using f(2,3) hi pos by linarith
  ultimately show ?thesis
    using hi Some b
    by (simp add: desc_page_items_def dense_desc_def take_drop_rev take_map drop_map del: upt.simps)
qed

interpretation dense: paged_feed "dense_desc tot" "desc_page_items tot" "\<lambda>_ _. True" for tot
  by unfold_locales (rule desc_page_items_window)

lemma distinct_dense_desc: "distinct (dense_desc tot)"
proof -
  have "inj_on (of_nat :: nat \<Rightarrow> u64) {0..<unat tot}"
    using unat_lt2p [of tot] by (intro inj_onI) (simp add: of_nat_eq_small)
  then show ?thesis by (simp add: dense_desc_def distinct_map)
qed

lemma sorted_dense_desc: "sorted_wrt (\<lambda>x y. y < x) (dense_desc tot)"
proof -
  have "sorted_wrt (\<lambda>i j. (of_nat i :: u64) < of_nat j) [0..<unat tot]"
    using unat_lt2p [of tot] by (auto simp: sorted_wrt_iff_nth_less of_nat_less_small)
  then show ?thesis by (simp add: dense_desc_def sorted_wrt_rev sorted_wrt_map)
qed

lemma set_dense_desc: "set (dense_desc tot) = {i. i < tot}"
proof -
  have "i \<in> of_nat ` {0..<unat tot}" if "i < tot" for i :: u64
    using that by (intro image_eqI [of _ _ "unat i"]) (auto simp: word_less_nat_alt)
  moreover have "(of_nat k :: u64) < tot" if "k < unat tot" for k
    using that unat_lt2p [of tot] by (simp add: word_less_nat_alt unat_of_nat_small)
  ultimately show ?thesis by (auto simp: dense_desc_def)
qed

end
