(* ===== verification/Storage_Reads.thy ===== *)
theory Storage_Reads
  imports Storage Paging
begin

text \<open>
  The read side of \<open>src/storage.rs\<close>: the counts and pages the API asks for, each one prepared
  statement over a pooled read-only connection. \<open>ORDER BY ... DESC\<close> over rows whose key is
  unique is \<open>rev\<close> of the rows sorted by that key; \<open>LIMIT n OFFSET m\<close> is a window of it.
\<close>

record tx_pointer =
  tp_block_number :: u64
  tp_tx_index :: u64

record consensus_range =
  rg_first_block :: u64
  rg_last_block :: u64

record stored_token =
  so_name :: "string option"
  so_symbol :: "string option"
  so_decimals :: "u8 option"
  so_status :: u8

definition count_rows :: "'a list \<Rightarrow> u64" where
  "count_rows rows = of_nat (length rows)"

definition limit_offset :: "u64 \<Rightarrow> u64 \<Rightarrow> 'a list \<Rightarrow> 'a list" where
  "limit_offset limit offset rows = take (unat limit) (drop (unat offset) rows)"

section \<open>Address pointers\<close>

definition address_pointer :: "address_tx \<Rightarrow> tx_pointer" where
  "address_pointer r = \<lparr>tp_block_number = at_block_number r, tp_tx_index = at_tx_index r\<rparr>"

definition address_feed :: "string \<Rightarrow> db \<Rightarrow> tx_pointer list" where
  "address_feed address d =
     map address_pointer (rev (sort_key (\<lambda>r. (at_block_number r, at_tx_index r))
       (filter (\<lambda>r. at_address r = address) (db_address_txs d))))"

definition address_type_feed :: "string \<Rightarrow> u8 \<Rightarrow> db \<Rightarrow> tx_pointer list" where
  "address_type_feed address tx_type d =
     map address_pointer (rev (sort_key (\<lambda>r. (at_block_number r, at_tx_index r))
       (filter (\<lambda>r. at_address r = address \<and> at_tx_type r = tx_type) (db_address_txs d))))"

definition count_address_txs :: "string \<Rightarrow> u64 sql" where
  "count_address_txs address =
     andthen (prepare ''address_txs'') (\<lambda>_.
       query [] (\<lambda>d. count_rows (filter (\<lambda>r. at_address r = address) (db_address_txs d))))"

definition address_txs_page :: "string \<Rightarrow> u64 \<Rightarrow> u64 \<Rightarrow> tx_pointer list sql" where
  "address_txs_page address limit offset =
     andthen (prepare ''address_txs'') (\<lambda>_.
       query [limit, offset] (\<lambda>d. limit_offset limit offset (address_feed address d)))"

definition count_address_txs_by_type :: "string \<Rightarrow> u8 \<Rightarrow> u64 sql" where
  "count_address_txs_by_type address tx_type =
     andthen (prepare ''address_txs'') (\<lambda>_.
       query [] (\<lambda>d. count_rows
         (filter (\<lambda>r. at_address r = address \<and> at_tx_type r = tx_type) (db_address_txs d))))"

definition address_txs_page_by_type :: "string \<Rightarrow> u8 \<Rightarrow> u64 \<Rightarrow> u64 \<Rightarrow> tx_pointer list sql" where
  "address_txs_page_by_type address tx_type limit offset =
     andthen (prepare ''address_txs'') (\<lambda>_.
       query [limit, offset] (\<lambda>d. limit_offset limit offset (address_type_feed address tx_type d)))"

section \<open>Transaction types\<close>

definition type_pointer :: "tx_type_entry \<Rightarrow> tx_pointer" where
  "type_pointer r = \<lparr>tp_block_number = tt_block_number r, tp_tx_index = tt_tx_index r\<rparr>"

definition type_feed :: "u8 \<Rightarrow> db \<Rightarrow> tx_pointer list" where
  "type_feed tx_type d =
     map type_pointer (rev (sort_key (\<lambda>r. (tt_block_number r, tt_tx_index r))
       (filter (\<lambda>r. tt_tx_type r = tx_type) (db_tx_types d))))"

definition count_tx_type :: "u8 \<Rightarrow> u64 sql" where
  "count_tx_type tx_type =
     andthen (prepare ''tx_type_counts'') (\<lambda>_.
       query [] (\<lambda>d. case db_tx_type_counts d tx_type of Some n \<Rightarrow> n | None \<Rightarrow> 0))"

definition tx_type_page :: "u8 \<Rightarrow> u64 \<Rightarrow> u64 \<Rightarrow> tx_pointer list sql" where
  "tx_type_page tx_type limit offset =
     andthen (prepare ''tx_types'') (\<lambda>_.
       query [limit, offset] (\<lambda>d. limit_offset limit offset (type_feed tx_type d)))"

section \<open>Consensus ranges\<close>

definition range_of :: "consensus_block \<Rightarrow> consensus_range" where
  "range_of r = \<lparr>rg_first_block = cb_first_block r, rg_last_block = cb_last_block r\<rparr>"

definition consensus_range_by_digest :: "b256 \<Rightarrow> consensus_range option sql" where
  "consensus_range_by_digest digest =
     andthen (prepare ''consensus_blocks'') (\<lambda>_.
       query [] (\<lambda>d. map_option range_of (db_consensus_blocks d (digest_hex digest))))"

fun ranges_loop :: "b256 list \<Rightarrow> (b256, consensus_range) btree_map \<Rightarrow> (b256, consensus_range) btree_map sql" where
  "ranges_loop [] out = ret out"
| "ranges_loop (digest # digests) out =
     andthen (query [] (\<lambda>d. map_option range_of (db_consensus_blocks d (digest_hex digest)))) (\<lambda>found.
       ranges_loop digests (case found of Some found_range \<Rightarrow> bt_insert digest found_range out | None \<Rightarrow> out))"

definition consensus_ranges_by_digests :: "b256 list \<Rightarrow> (b256, consensus_range) btree_map sql" where
  "consensus_ranges_by_digests digests =
     andthen (prepare ''consensus_blocks'') (\<lambda>_. ranges_loop digests bt_empty)"

section \<open>Transfers\<close>

definition from_arm :: "string \<Rightarrow> db \<Rightarrow> stored_transfer list" where
  "from_arm address d = filter (\<lambda>r. st_from r = address) (db_token_transfers d)"

definition to_arm :: "string \<Rightarrow> db \<Rightarrow> stored_transfer list" where
  "to_arm address d = filter (\<lambda>r. st_to r = address) (db_token_transfers d)"

text \<open>\<open>UNION\<close> keeps each row once.\<close>

definition union_rows :: "'a list \<Rightarrow> 'a list \<Rightarrow> 'a list" where
  "union_rows xs ys = remdups (xs @ ys)"

definition address_transfer_feed :: "string \<Rightarrow> db \<Rightarrow> stored_transfer list" where
  "address_transfer_feed address d =
     rev (sort_key transfer_key (union_rows (from_arm address d) (to_arm address d)))"

definition token_transfer_feed :: "string \<Rightarrow> db \<Rightarrow> stored_transfer list" where
  "token_transfer_feed token d =
     rev (sort_key transfer_key (filter (\<lambda>r. st_token r = token) (db_token_transfers d)))"

definition tx_transfer_feed :: "u64 \<Rightarrow> u64 \<Rightarrow> db \<Rightarrow> stored_transfer list" where
  "tx_transfer_feed block_number tx_index d =
     sort_key st_log_index
       (filter (\<lambda>r. st_block_number r = block_number \<and> st_tx_index r = tx_index) (db_token_transfers d))"

definition count_address_transfers :: "string \<Rightarrow> u64 sql" where
  "count_address_transfers address =
     andthen (prepare ''token_transfers'') (\<lambda>_.
       query [] (\<lambda>d. count_rows
         (union_rows (map transfer_key (from_arm address d)) (map transfer_key (to_arm address d)))))"

definition address_transfers_page :: "string \<Rightarrow> u64 \<Rightarrow> u64 \<Rightarrow> stored_transfer list sql" where
  "address_transfers_page address limit offset =
     andthen (prepare ''token_transfers'') (\<lambda>_.
       query [limit, offset] (\<lambda>d. limit_offset limit offset (address_transfer_feed address d)))"

definition count_token_transfers :: "string \<Rightarrow> u64 sql" where
  "count_token_transfers token =
     andthen (prepare ''token_transfers'') (\<lambda>_.
       query [] (\<lambda>d. count_rows (filter (\<lambda>r. st_token r = token) (db_token_transfers d))))"

definition token_transfers_page :: "string \<Rightarrow> u64 \<Rightarrow> u64 \<Rightarrow> stored_transfer list sql" where
  "token_transfers_page token limit offset =
     andthen (prepare ''token_transfers'') (\<lambda>_.
       query [limit, offset] (\<lambda>d. limit_offset limit offset (token_transfer_feed token d)))"

definition count_transfers_for_tx :: "u64 \<Rightarrow> u64 \<Rightarrow> u64 sql" where
  "count_transfers_for_tx block_number tx_index =
     andthen (prepare ''token_transfers'') (\<lambda>_.
       query [block_number, tx_index] (\<lambda>d. count_rows
         (filter (\<lambda>r. st_block_number r = block_number \<and> st_tx_index r = tx_index) (db_token_transfers d))))"

definition transfers_for_tx_page :: "u64 \<Rightarrow> u64 \<Rightarrow> u64 \<Rightarrow> u64 \<Rightarrow> stored_transfer list sql" where
  "transfers_for_tx_page block_number tx_index limit offset =
     andthen (prepare ''token_transfers'') (\<lambda>_.
       query [block_number, tx_index, limit, offset]
         (\<lambda>d. limit_offset limit offset (tx_transfer_feed block_number tx_index d)))"

section \<open>Token rows\<close>

definition token_row_of :: "string \<Rightarrow> stored_token option sql" where
  "token_row_of address =
     andthen (prepare ''tokens'') (\<lambda>_.
       query [] (\<lambda>d. map_option
         (\<lambda>t. \<lparr>so_name = tk_name t, so_symbol = tk_symbol t, so_decimals = tk_decimals t, so_status = tk_status t\<rparr>)
         (db_tokens d address)))"

section \<open>The read pool\<close>

definition READ_POOL_SIZE :: nat where
  "READ_POOL_SIZE = 4"

text \<open>
  The connections in the shared vector and the free permits; the requests that hold a permit
  and no connection yet, those running on a connection, those that have pushed it back, and
  those that got the \<open>read pool exhausted\<close> error. A request is known by a number.
\<close>

record read_pool =
  pool_conns :: "nat list"
  pool_permits :: nat
  pool_admitted :: "nat list"
  pool_running :: "(nat \<times> nat) list"
  pool_returning :: "nat list"
  pool_exhausted :: "nat list"

definition pool_open :: read_pool where
  "pool_open = \<lparr>pool_conns = [0..<READ_POOL_SIZE], pool_permits = READ_POOL_SIZE, pool_admitted = [],
     pool_running = [], pool_returning = [], pool_exhausted = []\<rparr>"

text \<open>
  \<open>with_conn\<close> step by step: take a permit (waiting while there is none), pop a connection under
  the mutex (an error when the vector is empty, which gives the permit back), run, push the
  connection back, and only then release the permit, which the blocking closure holds to its
  end. The closures the API passes do not panic, so every running request comes back. \<open>Vec::pop\<close> and \<open>push\<close> work at the end.
\<close>

inductive pool_step :: "read_pool \<Rightarrow> read_pool \<Rightarrow> bool" where
  acquire: "pool_permits p = Suc n \<Longrightarrow>
    pool_step p (p\<lparr>pool_permits := n, pool_admitted := r # pool_admitted p\<rparr>)"
| pop: "r \<in> set (pool_admitted p) \<Longrightarrow> pool_conns p = cs @ [c] \<Longrightarrow>
    pool_step p (p\<lparr>pool_admitted := remove1 r (pool_admitted p), pool_conns := cs,
                  pool_running := (r, c) # pool_running p\<rparr>)"
| exhausted: "r \<in> set (pool_admitted p) \<Longrightarrow> pool_conns p = [] \<Longrightarrow>
    pool_step p (p\<lparr>pool_admitted := remove1 r (pool_admitted p), pool_permits := Suc (pool_permits p),
                  pool_exhausted := r # pool_exhausted p\<rparr>)"
| push: "(r, c) \<in> set (pool_running p) \<Longrightarrow>
    pool_step p (p\<lparr>pool_running := remove1 (r, c) (pool_running p), pool_conns := pool_conns p @ [c],
                  pool_returning := r # pool_returning p\<rparr>)"
| release: "r \<in> set (pool_returning p) \<Longrightarrow>
    pool_step p (p\<lparr>pool_returning := remove1 r (pool_returning p), pool_permits := Suc (pool_permits p)\<rparr>)"

inductive pool_reachable :: "read_pool \<Rightarrow> bool" where
  init: "pool_reachable pool_open"
| step: "pool_reachable p \<Longrightarrow> pool_step p p' \<Longrightarrow> pool_reachable p'"

inductive_cases pool_stepE: "pool_step p p'"

end
