(* ===== verification/Extract_Correct.thy ===== *)
theory Extract_Correct
  imports Extract
begin

unbundle bit_operations_syntax

text \<open>
  What block extraction computes: the loops of \<open>extract_block\<close> in closed form, the decode
  rules of logs and headers, and the transaction type names.
\<close>

section \<open>The loops in closed form\<close>

text \<open>The participants of one transaction, in the order the rows are pushed.\<close>

definition participants :: "chain_fns \<Rightarrow> address \<times> transaction \<Rightarrow> address list" where
  "participants fns stx =
     [fst stx, case tx_to (snd stx) of Some to \<Rightarrow> to | None \<Rightarrow> create_address fns (fst stx) (tx_nonce (snd stx))]"

definition address_rows_of :: "chain_fns \<Rightarrow> u64 \<Rightarrow> nat \<Rightarrow> address \<times> transaction \<Rightarrow> address_row list" where
  "address_rows_of fns number i stx =
     map (\<lambda>a. \<lparr>ar_address = a, ar_block_number = number, ar_tx_index = of_nat i, ar_tx_type = tx_ty (snd stx)\<rparr>)
       (participants fns stx)"

definition tx_type_row_of :: "u64 \<Rightarrow> nat \<Rightarrow> address \<times> transaction \<Rightarrow> tx_type_row" where
  "tx_type_row_of number i stx =
     \<lparr>tr_tx_type = tx_ty (snd stx), tr_block_number = number, tr_tx_index = of_nat i\<rparr>"

definition log_transfers :: "u64 \<Rightarrow> u64 \<Rightarrow> nat \<Rightarrow> log list \<Rightarrow> transfer_row list" where
  "log_transfers number tx_index i logs =
     List.map_filter (\<lambda>(j, log). decode_transfer_log log number tx_index (of_nat j)) (enumerate i logs)"

definition tx_transfers :: "u64 \<Rightarrow> receipt list \<Rightarrow> nat \<Rightarrow> transfer_row list" where
  "tx_transfers number receipts i =
     (case slice_get receipts (unat (of_nat i :: u64)) of
        Some receipt \<Rightarrow> log_transfers number (of_nat i) 0 (rc_logs receipt)
      | None \<Rightarrow> [])"

lemma log_transfers_Cons:
  "log_transfers number t i (log # logs) =
   (case decode_transfer_log log number t (of_nat i) of Some row \<Rightarrow> [row] | None \<Rightarrow> [])
   @ log_transfers number t (Suc i) logs"
  by (simp add: log_transfers_def map_filter_simps split: option.splits)

lemma extract_logs_eq:
  "extract_logs number t i logs out =
   out\<lparr>ex_token_candidates := fold push_new (map tf_token (log_transfers number t i logs)) (ex_token_candidates out),
       ex_transfers := ex_transfers out @ log_transfers number t i logs\<rparr>"
proof (induction logs arbitrary: i out)
  case Nil
  then show ?case by (simp add: log_transfers_def map_filter_simps)
next
  case (Cons log logs)
  then show ?case by (simp add: log_transfers_Cons split: option.splits)
qed

lemma extract_tx_eq:
  "extract_tx fns number receipts i stx out =
   out\<lparr>ex_tx_types := ex_tx_types out @ [tx_type_row_of number i stx],
       ex_address_rows := ex_address_rows out @ address_rows_of fns number i stx,
       ex_token_candidates := fold push_new (map tf_token (tx_transfers number receipts i)) (ex_token_candidates out),
       ex_transfers := ex_transfers out @ tx_transfers number receipts i\<rparr>"
  by (cases stx)
     (auto simp: extract_tx_def extract_logs_eq tx_type_row_of_def address_rows_of_def participants_def
        tx_transfers_def Let_def split: option.splits)

lemma extract_txs_eq:
  "extract_txs fns number receipts i stxs out =
   out\<lparr>ex_tx_types := ex_tx_types out @ map (\<lambda>(j, stx). tx_type_row_of number j stx) (enumerate i stxs),
       ex_address_rows := ex_address_rows out
         @ concat (map (\<lambda>(j, stx). address_rows_of fns number j stx) (enumerate i stxs)),
       ex_token_candidates := fold push_new
         (map tf_token (concat (map (tx_transfers number receipts) [i..<i + length stxs]))) (ex_token_candidates out),
       ex_transfers := ex_transfers out @ concat (map (tx_transfers number receipts) [i..<i + length stxs])\<rparr>"
proof (induction stxs arbitrary: i out)
  case Nil
  then show ?case by simp
next
  case (Cons stx stxs)
  have "[i..<i + length (stx # stxs)] = i # [Suc i..<Suc i + length stxs]"
    by (simp add: upt_conv_Cons del: upt_Suc)
  with Cons show ?case by (simp add: extract_tx_eq del: upt_Suc)
qed

text \<open>The number and the consensus row are taken from the header.\<close>

lemma ex_number_extract_block [simp]:
  "ex_number (extract_block fns block receipts) = eh_number (rb_header block)"
  by (simp add: extract_block_def Let_def extract_txs_eq)

lemma ex_consensus_extract_block:
  "ex_consensus (extract_block fns block receipts) =
   map_option (\<lambda>f. \<lparr>cr_digest = hc_digest f, cr_epoch = hc_epoch f, cr_round = hc_round f,
                    cr_block_number = eh_number (rb_header block)\<rparr>)
     (decode_consensus_fields fns (rb_header block))"
  by (simp add: extract_block_def Let_def)

lemma ex_transfers_extract_block:
  "ex_transfers (extract_block fns block receipts) =
   concat (map (tx_transfers (eh_number (rb_header block)) receipts)
     [0..<length (rb_transactions_with_sender block)])"
  by (simp add: extract_block_def Let_def extract_txs_eq)

section \<open>Decode rules\<close>

lemma decode_transfer_log_Some_iff:
  "decode_transfer_log log n t l = Some row \<longleftrightarrow>
   length (log_topics log) = 3 \<and> log_topics log ! 0 = TRANSFER_TOPIC \<and> length (log_data log) = 32 \<and>
   row = \<lparr>tf_block_number = n, tf_tx_index = t, tf_log_index = l, tf_token = log_address log,
          tf_from = ucast (log_topics log ! 1), tf_to = ucast (log_topics log ! 2),
          tf_value = from_be_bytes (log_data log)\<rparr>"
  by (auto simp: decode_transfer_log_def Let_def address_from_word_def)

lemma log_transfers_positions:
  "row \<in> set (log_transfers number t i logs) \<Longrightarrow>
   tf_block_number row = number \<and> tf_tx_index row = t \<and>
   (\<exists>j<length logs. tf_log_index row = of_nat (i + j) \<and> decode_transfer_log (logs ! j) number t (of_nat (i + j)) = Some row)"
proof (induction logs arbitrary: i)
  case Nil
  then show ?case by (simp add: log_transfers_def map_filter_simps)
next
  case (Cons log logs)
  show ?case
  proof (cases "row \<in> set (log_transfers number t (Suc i) logs)")
    case True
    from Cons.IH [OF this] obtain j where j: "j < length logs" "tf_log_index row = of_nat (Suc i + j)"
      "decode_transfer_log (logs ! j) number t (of_nat (Suc i + j)) = Some row"
      "tf_block_number row = number" "tf_tx_index row = t" by blast
    then show ?thesis by (intro conjI exI [of _ "Suc j"]) (auto simp: algebra_simps)
  next
    case False
    with Cons.prems have "decode_transfer_log log number t (of_nat i) = Some row"
      by (auto simp: log_transfers_Cons split: option.splits)
    then show ?thesis
      by (intro conjI exI [of _ 0]) (auto simp: decode_transfer_log_Some_iff)
  qed
qed

lemma log_transfers_strict:
  "i + length logs \<le> 2 ^ 64 \<Longrightarrow>
   sorted_wrt (\<lambda>x y. tf_log_index x < tf_log_index y) (log_transfers number t i logs)"
proof (induction logs arbitrary: i)
  case Nil
  then show ?case by (simp add: log_transfers_def map_filter_simps)
next
  case (Cons log logs)
  have "(of_nat i :: u64) < tf_log_index row" if "row \<in> set (log_transfers number t (Suc i) logs)" for row
  proof -
    from log_transfers_positions [OF that] obtain j where
      "j < length logs" "tf_log_index row = of_nat (Suc i + j)" by blast
    moreover have "(of_nat i :: u64) < of_nat (Suc i + j)"
      using Cons.prems \<open>j < length logs\<close> by (subst of_nat_less_small) auto
    ultimately show ?thesis by simp
  qed
  with Cons show ?case
    by (auto simp: log_transfers_Cons decode_transfer_log_Some_iff split: option.splits)
qed

section \<open>Ordering of the extracted transfers\<close>

definition transfer_pos :: "transfer_row \<Rightarrow> u64 \<times> u64 \<times> u64" where
  "transfer_pos row = (tf_block_number row, tf_tx_index row, tf_log_index row)"

lemma tx_transfers_positions:
  "row \<in> set (tx_transfers number receipts i) \<Longrightarrow> tf_block_number row = number \<and> tf_tx_index row = of_nat i"
  using log_transfers_positions by (fastforce simp: tx_transfers_def split: option.splits)

lemma tx_transfers_strict:
  assumes "list_all (\<lambda>r. length (rc_logs r) \<le> 2 ^ 64) receipts"
  shows "sorted_wrt (\<lambda>x y. transfer_pos x < transfer_pos y) (tx_transfers number receipts i)"
proof (cases "slice_get receipts (unat (of_nat i :: u64))")
  case None
  then show ?thesis by (simp add: tx_transfers_def)
next
  case (Some r)
  then have "length (rc_logs r) \<le> 2 ^ 64" using assms slice_get_in_set [OF Some] by (auto simp: list_all_iff)
  then have "sorted_wrt (\<lambda>x y. tf_log_index x < tf_log_index y) (tx_transfers number receipts i)"
    using log_transfers_strict [of 0] Some by (simp add: tx_transfers_def)
  then show ?thesis
    by (rule sorted_wrt_mono_rel [rotated]) (simp add: transfer_pos_def tx_transfers_positions)
qed

lemma transfers_strict_upto:
  assumes logs: "list_all (\<lambda>r. length (rc_logs r) \<le> 2 ^ 64) receipts" and "n \<le> 2 ^ 64"
  shows "sorted_wrt (\<lambda>x y. transfer_pos x < transfer_pos y) (concat (map (tx_transfers number receipts) [0..<n]))"
  using \<open>n \<le> 2 ^ 64\<close>
proof (induction n)
  case 0
  then show ?case by simp
next
  case (Suc n)
  have "transfer_pos x < transfer_pos y"
    if x: "x \<in> set (tx_transfers number receipts i)" and i: "i < n"
      and y: "y \<in> set (tx_transfers number receipts n)" for x y i
    using tx_transfers_positions [OF x] tx_transfers_positions [OF y] i Suc.prems
    by (simp add: transfer_pos_def of_nat_less_small)
  with Suc tx_transfers_strict [OF logs] show ?case by (auto simp: sorted_wrt_append)
qed

lemmas extract_defs = extract_block_def extract_tx_def participants_def address_rows_of_def

section \<open>Bit fields and names\<close>

lemma nonce_split:
  fixes e r :: u32
  defines "n \<equiv> push_bit 32 (ucast e) OR ucast r :: u64"
  shows "(ucast (drop_bit 32 n) :: u32) = e" "(ucast n :: u32) = r"
  unfolding n_def by (rule bit_word_eqI, force simp: bit_simps dest: bit_imp_le_length)+

lemma difficulty_split:
  fixes bi :: u64 and w :: u16
  assumes "bi < 2 ^ 48"
  defines "d \<equiv> push_bit 16 bi OR ucast w :: u64"
  shows "drop_bit 16 d = bi" "(ucast (d AND 0xffff) :: u16) = w"
proof -
  have hi: "k < 48" if "bit bi k" for k
  proof (rule ccontr)
    assume "\<not> k < 48"
    have "unat bi < 2 ^ 48" using assms(1) by (simp add: word_less_nat_alt)
    then have "take_bit 48 (unat bi) = unat bi" by (simp add: take_bit_nat_eq_self)
    then have "\<not> bit (unat bi) k" using \<open>\<not> k < 48\<close> by (metis bit_take_bit_iff)
    then show False using that bit_imp_le_length [of bi k] by (auto simp: bit_unsigned_iff)
  qed
  show "drop_bit 16 d = bi"
    unfolding d_def by (rule bit_word_eqI) (auto simp: bit_simps dest: bit_imp_le_length hi)
  have m: "(0xffff :: u64) = mask 16" by (simp add: mask_eq_exp_minus_1)
  show "(ucast (d AND 0xffff) :: u16) = w"
    unfolding d_def m by (rule bit_word_eqI) (simp add: bit_simps)
qed

lemma u64_try_from_ucast: "u64_try_from (ucast (d :: u64)) = Some d"
proof -
  have "unat d < 2 ^ 256" by (rule less_le_trans [OF unat_lt2p]) simp
  then have "take_bit 256 (unat d) = unat d" by (rule take_bit_nat_eq_self)
  then show ?thesis using unat_lt2p [of d] by (simp add: u64_try_from_def unsigned_ucast_eq)
qed

lemma name_position_Some:
  "name_position names s = Some i \<Longrightarrow> i < length names \<and> eq_ignore_ascii_case (names ! i) s"
  by (induction names arbitrary: i) (auto split: if_splits)

lemma name_position_first:
  "i < length names \<Longrightarrow> eq_ignore_ascii_case (names ! i) s \<Longrightarrow> distinct (map (map ascii_lower) names) \<Longrightarrow>
   name_position names s = Some i"
proof (induction names arbitrary: i)
  case Nil
  then show ?case by simp
next
  case (Cons name names)
  then show ?case by (cases i) (auto simp: eq_ignore_ascii_case_def, metis nth_mem rev_image_eqI)
qed

lemma distinct_names: "distinct (map (map ascii_lower) TX_TYPE_NAMES)"
  by (simp add: TX_TYPE_NAMES_def ascii_lower_def)

lemma trim_id:
  assumes "s \<noteq> []" "32 < (of_char (hd s) :: nat)" "(of_char (hd s) :: nat) < 127"
    "32 < (of_char (last s) :: nat)" "(of_char (last s) :: nat) < 127"
  shows "trim s = s"
proof -
  have "list_all (\<lambda>w. w \<noteq> [] \<and> ((of_char (hd w) :: nat) \<le> 32 \<or> 127 \<le> (of_char (hd w) :: nat))
      \<and> ((of_char (last w) :: nat) \<le> 32 \<or> 127 \<le> (of_char (last w) :: nat))) white_space"
    by (simp add: white_space_def)
  then have ne: "w \<noteq> [] \<and> hd w \<noteq> hd s \<and> last w \<noteq> last s" if "w \<in> set white_space" for w
    using that assms by (fastforce simp: list_all_iff)
  have "trim_start_with white_space s = s"
    by (rule trim_start_with_id) (use ne in \<open>metis hd_append2\<close>)
  moreover have "trim_start_with (map rev white_space) (rev s) = rev s"
    by (rule trim_start_with_id) (use ne assms(1) in \<open>auto, metis hd_append2 hd_rev rev_is_Nil_conv\<close>)
  ultimately show ?thesis by (simp add: trim_def)
qed

lemma digit_of_type:
  "is_ascii_digit d \<and> of_char d - 48 < (5::nat) \<and> t = (of_nat (of_char d - 48) :: u8) \<longleftrightarrow>
   unat t < 5 \<and> d = digit_char (unat t)" (is "?L \<longleftrightarrow> ?R")
proof
  assume l: ?L
  then have "unat t = of_char d - 48" by (simp add: unat_of_nat_small)
  with l show ?R by (simp add: is_ascii_digit_def digit_char_def)
next
  assume r: ?R
  then have "of_char d = 48 + unat t" by (simp add: of_char_digit_char)
  with r show ?L by (simp add: is_ascii_digit_def)
qed

lemma trim_tx_type_names:
  "name \<in> set TX_TYPE_NAMES \<Longrightarrow> trim name = name" and trim_unknown: "trim ''unknown'' = ''unknown''"
  by (auto simp: TX_TYPE_NAMES_def intro!: trim_id)

section \<open>Properties\<close>

text \<open>A block with one transaction that emits two transfers, to instantiate the properties on.\<close>

definition example_fns :: chain_fns where
  "example_fns = \<lparr>create_address = (\<lambda>a n. a + ucast n), deconstruct_nonce = (\<lambda>n. (ucast (drop_bit 32 n), ucast n))\<rparr>"

definition example_block :: recovered_block where
  "example_block = \<lparr>rb_header = \<lparr>eh_number = 42, eh_parent_beacon_block_root = Some 1, eh_nonce = [0, 0, 0, 7, 0, 0, 0, 9],
      eh_difficulty = 0x30001, eh_ommers_hash = 2, eh_mix_hash = 3, eh_extra_data = [], eh_timestamp = 0,
      eh_base_fee_per_gas = None, eh_beneficiary = 0, eh_parent_hash = 0, eh_gas_used = 60000, eh_gas_limit = 30000000\<rparr>,
    rb_transactions_with_sender = [(8, \<lparr>tx_hash = 5, tx_ty = 2, tx_to = Some 6, tx_nonce = 0, tx_value = 0, tx_input = [],
      tx_gas_limit = 60000, tx_effective_gas_price = (\<lambda>_. 1)\<rparr>)]\<rparr>"

definition example_log :: "b256 \<Rightarrow> log" where
  "example_log to = \<lparr>log_address = 6, log_topics = [TRANSFER_TOPIC, 8, to], log_data = replicate 31 0 @ [9]\<rparr>"

definition example_receipts :: "receipt list" where
  "example_receipts = [\<lparr>rc_success = True, rc_cumulative_gas_used = 60000, rc_logs = [example_log 10, example_log 11]\<rparr>]"

text \<open>Every transaction of the block yields exactly one type row, in block order, carrying its
  EIP-2718 type, the block's number and its index within the block.\<close>

theorem extract_block_tx_types:
  "ex_tx_types (extract_block fns block receipts) =
   map (\<lambda>(i, sender, tx). \<lparr>tr_tx_type = tx_ty tx, tr_block_number = eh_number (rb_header block), tr_tx_index = of_nat i\<rparr>)
     (enumerate 0 (rb_transactions_with_sender block))"
  by (simp add: extract_block_def Let_def extract_txs_eq tx_type_row_of_def case_prod_beta')

text \<open>The address rows are, transaction by transaction in block order, the sender's row and then the
  recipient's, or the created contract's when there is no recipient, each with the transaction's
  position and type.\<close>

theorem extract_block_address_rows:
  "ex_address_rows (extract_block fns block receipts) =
   concat (map (\<lambda>(i, sender, tx).
       let row = (\<lambda>a. \<lparr>ar_address = a, ar_block_number = eh_number (rb_header block), ar_tx_index = of_nat i, ar_tx_type = tx_ty tx\<rparr>)
       in [row sender, row (case tx_to tx of Some to \<Rightarrow> to | None \<Rightarrow> create_address fns sender (tx_nonce tx))])
     (enumerate 0 (rb_transactions_with_sender block)))"
  by (simp add: extract_block_def Let_def extract_txs_eq address_rows_of_def participants_def case_prod_beta')

text \<open>The token candidates are exactly the contracts of the extracted transfers, each once, in the
  order of its first transfer.\<close>

theorem extract_block_token_candidates:
  "ex_token_candidates (extract_block fns block receipts) =
     rev (remdups (rev (map tf_token (ex_transfers (extract_block fns block receipts)))))
   \<and> distinct (ex_token_candidates (extract_block fns block receipts))"
  unfolding first_seen_rev_remdups [symmetric]
  by (simp add: extract_block_def Let_def extract_txs_eq first_seen_def [symmetric])

text \<open>The extracted transfers are strictly ascending in (block, transaction index, log index), so no
  two of them share a key of the transfer table.\<close>

theorem extract_block_transfers_ascending:
  assumes "length (rb_transactions_with_sender block) \<le> 2 ^ 64"
    and "list_all (\<lambda>r. length (rc_logs r) \<le> 2 ^ 64) receipts"
  shows "sorted_wrt (\<lambda>x y. (tf_block_number x, tf_tx_index x, tf_log_index x) < (tf_block_number y, tf_tx_index y, tf_log_index y))
           (ex_transfers (extract_block fns block receipts))"
  using transfers_strict_upto [OF assms(2,1)] by (simp add: ex_transfers_extract_block transfer_pos_def)

lemma extract_block_transfers_ascending_witness:
  "sorted_wrt (\<lambda>x y. (tf_block_number x, tf_tx_index x, tf_log_index x) < (tf_block_number y, tf_tx_index y, tf_log_index y))
     (ex_transfers (extract_block example_fns example_block example_receipts))"
  by (rule extract_block_transfers_ascending) (simp_all add: example_block_def example_receipts_def example_log_def)

text \<open>C26: a transfer row is extracted exactly for each log of a transaction's receipt that has three topics,
  the Transfer topic first, and 32 bytes of data, and it carries that log's position, contract,
  participants and amount.\<close>

theorem extract_block_transfer_iff:
  assumes "length (rb_transactions_with_sender block) \<le> 2 ^ 64"
  shows "row \<in> set (ex_transfers (extract_block fns block receipts)) \<longleftrightarrow>
    (\<exists>i j. i < length (rb_transactions_with_sender block) \<and> i < length receipts \<and> j < length (rc_logs (receipts ! i)) \<and>
       (let log = rc_logs (receipts ! i) ! j in
          length (log_topics log) = 3 \<and> log_topics log ! 0 = TRANSFER_TOPIC \<and> length (log_data log) = 32 \<and>
          row = \<lparr>tf_block_number = eh_number (rb_header block), tf_tx_index = of_nat i, tf_log_index = of_nat j,
                 tf_token = log_address log, tf_from = ucast (log_topics log ! 1), tf_to = ucast (log_topics log ! 2),
                 tf_value = from_be_bytes (log_data log)\<rparr>))"
proof -
  let ?n = "eh_number (rb_header block)"
  have mem: "row \<in> set (log_transfers number t 0 logs) \<longleftrightarrow>
      (\<exists>j<length logs. decode_transfer_log (logs ! j) number t (of_nat j) = Some row)" for number t logs
    by (auto simp: log_transfers_def List.map_filter_def in_set_enumerate_eq image_iff split: prod.splits)
  have tx: "row \<in> set (tx_transfers ?n receipts i) \<longleftrightarrow>
      i < length receipts \<and> (\<exists>j<length (rc_logs (receipts ! i)). decode_transfer_log (rc_logs (receipts ! i) ! j) ?n (of_nat i) (of_nat j) = Some row)"
    if "i < length (rb_transactions_with_sender block)" for i
    using that assms
    by (auto simp: tx_transfers_def mem unat_of_nat_small slice_get_def split: option.splits)
  show ?thesis
    by (simp add: ex_transfers_extract_block Let_def) (auto simp: tx decode_transfer_log_Some_iff)
qed

lemma extract_block_transfer_iff_witness:
  "\<lparr>tf_block_number = 42, tf_tx_index = 0, tf_log_index = 1, tf_token = 6, tf_from = 8, tf_to = 11,
    tf_value = from_be_bytes (replicate 31 0 @ [9])\<rparr> \<in> set (ex_transfers (extract_block example_fns example_block example_receipts))"
  by (subst extract_block_transfer_iff, simp add: example_block_def, rule exI [of _ 0], rule exI [of _ 1])
    (simp add: example_block_def example_receipts_def example_log_def Let_def)

text \<open>C37: a header that packs epoch and round into the nonce, batch index and worker into the difficulty
  (the encoding the node writes) decodes to exactly those values, for any 32-bit epoch and round, any
  48-bit batch index and any 16-bit worker.\<close>

theorem decode_consensus_fields_packed:
  assumes "\<And>n. deconstruct_nonce fns n = (ucast (drop_bit 32 n), ucast n)"
    and "eh_number h \<noteq> 0" and "eh_parent_beacon_block_root h = Some digest"
    and "eh_nonce h = to_be_bytes (push_bit 32 (ucast epoch) OR ucast round :: u64)"
    and "eh_difficulty h = ucast (push_bit 16 batch_index OR ucast worker_id :: u64)" and "batch_index < 2 ^ 48"
  shows "decode_consensus_fields fns h =
    Some \<lparr>hc_digest = digest, hc_epoch = epoch, hc_round = round, hc_batch_index = batch_index,
          hc_worker_id = worker_id, hc_batch_digest = eh_ommers_hash h, hc_prev_randao = Some (eh_mix_hash h),
          hc_closes_epoch = (eh_extra_data h \<noteq> [])\<rparr>"
proof -
  have "from_be_bytes (eh_nonce h) = (push_bit 32 (ucast epoch) OR ucast round :: u64)"
    using from_to_be_bytes [of "push_bit 32 (ucast epoch) OR ucast round :: u64"] assms(4) by simp
  with assms show ?thesis
    using difficulty_split [OF assms(6), of worker_id] nonce_split [of epoch round]
    by (simp add: decode_consensus_fields_def u64_try_from_ucast)
qed

lemma decode_consensus_fields_packed_witness:
  "decode_consensus_fields
     \<lparr>create_address = (\<lambda>_ _. 0), deconstruct_nonce = (\<lambda>n. (ucast (drop_bit 32 n), ucast n))\<rparr>
     \<lparr>eh_number = 42, eh_parent_beacon_block_root = Some 1, eh_nonce = to_be_bytes (push_bit 32 (ucast (7 :: u32)) OR ucast (9 :: u32) :: u64),
      eh_difficulty = ucast (push_bit 16 3 OR ucast (1 :: u16) :: u64), eh_ommers_hash = 2, eh_mix_hash = 3, eh_extra_data = [],
      eh_timestamp = 0, eh_base_fee_per_gas = None, eh_beneficiary = 0, eh_parent_hash = 0, eh_gas_used = 0, eh_gas_limit = 0\<rparr>
   = Some \<lparr>hc_digest = 1, hc_epoch = 7, hc_round = 9, hc_batch_index = 3, hc_worker_id = 1, hc_batch_digest = 2,
           hc_prev_randao = Some 3, hc_closes_epoch = False\<rparr>"
  by (subst decode_consensus_fields_packed [where digest = 1 and epoch = 7 and round = 9 and batch_index = 3 and worker_id = 1]) simp_all

text \<open>Decoding fails exactly for block 0, for a header without a parent beacon block root, and for a
  difficulty that does not fit 64 bits.\<close>

theorem decode_consensus_fields_None_iff:
  "decode_consensus_fields fns h = None \<longleftrightarrow>
   eh_number h = 0 \<or> eh_parent_beacon_block_root h = None \<or> 2 ^ 64 \<le> unat (eh_difficulty h)"
  by (auto simp: decode_consensus_fields_def u64_try_from_def Let_def split: option.splits prod.splits)

text \<open>\<open>?type=\<close> parses to type \<open>t\<close> exactly when \<open>t\<close> is below 5 and the trimmed text is its name up to ASCII
  case or its one decimal digit; every other text is rejected.\<close>

theorem parse_tx_type_iff:
  "parse_tx_type s = Some t \<longleftrightarrow>
   unat t < 5 \<and> (eq_ignore_ascii_case (TX_TYPE_NAMES ! unat t) (trim s) \<or> trim s = dec_of_nat (unat t))"
proof (cases "name_position TX_TYPE_NAMES (trim s)")
  case (Some i)
  note i = name_position_Some [OF Some]
  have len: "length TX_TYPE_NAMES = 5" by (simp add: TX_TYPE_NAMES_def)
  have "length (trim s) \<noteq> 1"
    using i by (auto simp: eq_ignore_ascii_case_def TX_TYPE_NAMES_def less_Suc_eq nth_Cons' dest!: arg_cong [where f = length])
  then have nd: "trim s \<noteq> dec_of_nat (unat t)" if "unat t < 5"
    using that by (subst dec_of_nat.simps) auto
  have "parse_tx_type s = Some (of_nat i)" using Some by (simp add: parse_tx_type_def)
  moreover have "eq_ignore_ascii_case (TX_TYPE_NAMES ! unat t) (trim s) \<and> unat t < 5 \<longleftrightarrow> t = of_nat i"
    using i name_position_first [of "unat t" TX_TYPE_NAMES "trim s"] Some distinct_names
    by (auto simp: len unat_of_nat_small)
  ultimately show ?thesis using nd by auto
next
  case None
  have len: "length TX_TYPE_NAMES = 5" by (simp add: TX_TYPE_NAMES_def)
  have no: "\<not> eq_ignore_ascii_case (TX_TYPE_NAMES ! unat t) (trim s)" if "unat t < 5"
    using name_position_first [of "unat t" TX_TYPE_NAMES "trim s"] None distinct_names that by (auto simp: len)
  show ?thesis
  proof (cases "\<exists>d. trim s = [d]")
    case True
    then obtain d where d: "trim s = [d]" by blast
    have "is_ascii_digit d \<and> of_char d - 48 < (5::nat) \<and> t = of_nat (of_char d - 48) \<longleftrightarrow> unat t < 5 \<and> d = digit_char (unat t)"
      by (rule digit_of_type)
    moreover have "[d] = dec_of_nat (unat t) \<longleftrightarrow> d = digit_char (unat t)" if "unat t < 5"
      using that by (subst dec_of_nat.simps) auto
    ultimately show ?thesis using None d no by (auto simp: parse_tx_type_def len)
  next
    case False
    then have "trim s \<noteq> dec_of_nat (unat t)" if "unat t < 5" using that by (subst dec_of_nat.simps) auto
    with False None no show ?thesis by (auto simp: parse_tx_type_def split: list.splits)
  qed
qed

text \<open>The name the API emits for a type parses back to that type for the five known types, and the
  placeholder of every other type byte is rejected.\<close>

theorem parse_tx_type_name: "parse_tx_type (tx_type_name t) = (if unat t < 5 then Some t else None)"
proof -
  have "parse_tx_type ''legacy'' = Some 0" "parse_tx_type ''eip2930'' = Some 1" "parse_tx_type ''eip1559'' = Some 2"
    "parse_tx_type ''eip4844'' = Some 3" "parse_tx_type ''eip7702'' = Some 4" "parse_tx_type ''unknown'' = None"
    using trim_tx_type_names trim_unknown
    by (simp_all add: parse_tx_type_def TX_TYPE_NAMES_def eq_ignore_ascii_case_def ascii_lower_def)
  moreover have "t = 0 \<or> t = 1 \<or> t = 2 \<or> t = 3 \<or> t = 4" if "unat t < 5"
  proof -
    have "unat t \<in> {0, 1, 2, 3, 4}" using that by auto
    then show ?thesis by (auto simp: word_unat_eq_iff)
  qed
  ultimately show ?thesis
    by (auto simp: tx_type_name_def slice_get_def TX_TYPE_NAMES_def)
qed

end
