(* ===== verification/Storage_History.thy ===== *)
theory Storage_History
  imports Storage_Correct Extract_Correct
begin

text \<open>
  The database over the life of the writer: a run of \<open>index_block\<close> calls with arbitrary
  failures commits the effects of the accepted blocks in order (\<open>writer_run_history\<close>), and the
  locale \<open>db_invariant\<close> carries what one block write keeps to every such history.
\<close>

section \<open>Histories\<close>

type_synonym block_write = "extracted_block \<times> token_row list"

definition replay_db :: "block_write list \<Rightarrow> db \<Rightarrow> db" where
  "replay_db h d = fold (\<lambda>(e, ts). block_effect e ts) h d"

fun accepted :: "block_write list \<Rightarrow> db \<Rightarrow> bool" where
  "accepted [] d = True"
| "accepted ((e, ts) # h) d = (\<not> at_or_below_cursor d (ex_number e) \<and> accepted h (block_effect e ts d))"

lemma replay_db_simps [simp]:
  "replay_db [] d = d" "replay_db ((e, ts) # h) d = replay_db h (block_effect e ts d)"
  by (simp_all add: replay_db_def)

lemma replay_db_snoc: "replay_db (h @ [(e, ts)]) d = block_effect e ts (replay_db h d)"
  by (simp add: replay_db_def)

lemma replay_db_append: "replay_db (h @ h') d = replay_db h' (replay_db h d)"
  by (simp add: replay_db_def)

lemma accepted_append: "accepted (h @ h') d \<longleftrightarrow> accepted h d \<and> accepted h' (replay_db h d)"
  by (induction h d rule: accepted.induct) auto

lemma at_or_below_block_effect [simp]: "at_or_below_cursor (block_effect e ts d) n \<longleftrightarrow> n \<le> ex_number e"
  by (simp add: at_or_below_cursor_def)

text \<open>Accepted blocks ascend, above the cursor, and the last one is the cursor.\<close>

lemma accepted_ascending:
  "accepted h d \<Longrightarrow>
   sorted_wrt (\<lambda>x y. ex_number (fst x) < ex_number (fst y)) h \<and>
   (\<forall>w \<in> set h. \<not> at_or_below_cursor d (ex_number (fst w)))"
proof (induction h d rule: accepted.induct)
  case (1 d)
  then show ?case by simp
next
  case (2 e ts h d)
  then have "\<forall>w \<in> set h. ex_number e < ex_number (fst w)" by auto
  moreover have "\<not> at_or_below_cursor d n" if "ex_number e < n" for n
    using that "2.prems" by (auto simp: at_or_below_cursor_def split: option.splits)
  ultimately show ?case using 2 by auto
qed

lemma cursor_of_replay:
  "cursor_of (replay_db h d) = (if h = [] then cursor_of d else Some (ex_number (fst (last h))))"
  by (cases h rule: rev_cases) (auto simp: replay_db_snoc)

lemma tables_replay [simp]: "db_tables (replay_db h d) = db_tables d"
  by (induction h arbitrary: d) auto

section \<open>Runs of the writer\<close>

text \<open>
  Each attempt has its own fault budget: the statement after which the disk, the driver or the
  process fails.
\<close>

fun writer_run :: "(nat option \<times> block_write) list \<Rightarrow> conn \<Rightarrow> block_write list \<times> conn" where
  "writer_run [] c = ([], c)"
| "writer_run ((budget, e, ts) # attempts) c =
     (case index_block e ts (c\<lparr>cn_budget := budget\<rparr>) of
        (r, c1) \<Rightarrow>
          (case writer_run attempts c1 of
             (done, c2) \<Rightarrow> (if r = Inr True then (e, ts) # done else done, c2)))"

lemma writer_run_replay:
  "cn_tx c = None \<Longrightarrow> writer_run attempts c = (acc, c') \<Longrightarrow>
   cn_tx c' = None \<and> cn_committed c' = replay_db acc (cn_committed c) \<and> accepted acc (cn_committed c)"
proof (induction attempts c arbitrary: acc c' rule: writer_run.induct)
  case (1 c)
  then show ?case by simp
next
  case (2 budget e ts attempts c)
  obtain r c1 where i: "index_block e ts (c\<lparr>cn_budget := budget\<rparr>) = (r, c1)"
    by (cases "index_block e ts (c\<lparr>cn_budget := budget\<rparr>)")
  obtain acc2 c2 where w: "writer_run attempts c1 = (acc2, c2)" by (cases "writer_run attempts c1")
  from "2.prems" i w have acc: "acc = (if r = Inr True then (e, ts) # acc2 else acc2)" "c' = c2" by auto
  from index_block_outcome [OF _ i] "2.prems"
  have o: "cn_tx c1 = None"
    "r = Inr True \<and> \<not> at_or_below_cursor (cn_committed c) (ex_number e) \<and>
       cn_committed c1 = block_effect e ts (cn_committed c) \<or>
     r \<noteq> Inr True \<and> cn_committed c1 = cn_committed c"
    by auto
  from "2.IH" [OF i [symmetric]] o(1) w
  have "cn_tx c2 = None \<and> cn_committed c2 = replay_db acc2 (cn_committed c1) \<and> accepted acc2 (cn_committed c1)"
    by blast
  with acc o(2) show ?case by auto
qed

section \<open>Invariants of the history\<close>

locale db_invariant =
  fixes I :: "db \<Rightarrow> bool"
    and good :: "extracted_block \<Rightarrow> bool"
  assumes keeps: "I d \<Longrightarrow> good e \<Longrightarrow> \<not> at_or_below_cursor d (ex_number e) \<Longrightarrow> I (block_effect e ts d)"
begin

lemma replay_keeps: "I d \<Longrightarrow> accepted h d \<Longrightarrow> list_all (\<lambda>w. good (fst w)) h \<Longrightarrow> I (replay_db h d)"
  by (induction h d rule: accepted.induct) (auto intro: keeps)

lemma run_keeps:
  assumes "I (cn_committed c)" "cn_tx c = None" "writer_run attempts c = (acc, c')"
    and "list_all (\<lambda>w. good (fst w)) acc"
  shows "I (cn_committed c')"
  using writer_run_replay [OF assms(2,3)] assms(1,4) replay_keeps by auto

end

text \<open>
  The per-type counters are the row counts; the keys of the scanned tables are unique; both
  hold for any input.
\<close>

definition counts_exact :: "db \<Rightarrow> bool" where
  "counts_exact d \<longleftrightarrow> (\<forall>t. (case db_tx_type_counts d t of Some n \<Rightarrow> n | None \<Rightarrow> 0) = type_total t (db_tx_types d))"

definition keys_unique :: "db \<Rightarrow> bool" where
  "keys_unique d \<longleftrightarrow> distinct (map address_tx_key (db_address_txs d)) \<and>
     distinct (map tx_type_key (db_tx_types d)) \<and> distinct (map transfer_key (db_token_transfers d))"

lemma type_total_unchanged:
  "t \<notin> tt_tx_type ` set rs \<Longrightarrow> type_total t (fold (insert_or_ignore tx_type_key) rs rows) = type_total t rows"
  by (induction rs arbitrary: rows) (auto simp: type_total_def insert_or_ignore_def)

lemma counts_exact_step: "counts_exact d \<Longrightarrow> counts_exact (block_effect e ts d)"
  by (auto simp: counts_exact_def block_effect_def add_counts_def type_total_unchanged)

lemma keys_unique_step: "keys_unique d \<Longrightarrow> keys_unique (block_effect e ts d)"
  by (simp add: keys_unique_def block_effect_def distinct_fold_insert)

interpretation counts: db_invariant counts_exact "\<lambda>_. True"
  by unfold_locales (rule counts_exact_step)

interpretation keys: db_invariant keys_unique "\<lambda>_. True"
  by unfold_locales (rule keys_unique_step)

section \<open>Extracted blocks\<close>

text \<open>
  What \<open>extract_block\<close> guarantees of the rows it hands to the writer: all carry the block's
  number, positions are unique, and an address row has the type of its transaction.
\<close>

definition well_extracted :: "extracted_block \<Rightarrow> bool" where
  "well_extracted e \<longleftrightarrow>
     (\<forall>r \<in> set (ex_address_rows e). ar_block_number r = ex_number e \<and>
        \<lparr>tr_tx_type = ar_tx_type r, tr_block_number = ar_block_number r, tr_tx_index = ar_tx_index r\<rparr> \<in> set (ex_tx_types e)) \<and>
     (\<forall>r \<in> set (ex_tx_types e). tr_block_number r = ex_number e) \<and>
     distinct (map tr_tx_index (ex_tx_types e)) \<and>
     (\<forall>r. ex_consensus e = Some r \<longrightarrow> cr_block_number r = ex_number e) \<and>
     (\<forall>r \<in> set (ex_transfers e). tf_block_number r = ex_number e) \<and>
     distinct (map (\<lambda>r. (tf_block_number r, tf_tx_index r, tf_log_index r)) (ex_transfers e))"

definition block_sizes_ok :: "recovered_block \<Rightarrow> receipt list \<Rightarrow> bool" where
  "block_sizes_ok block receipts \<longleftrightarrow>
     length (rb_transactions_with_sender block) \<le> 2 ^ 64 \<and> list_all (\<lambda>r. length (rc_logs r) \<le> 2 ^ 64) receipts"

lemma ex_tx_types_extract_block:
  "ex_tx_types (extract_block fns block receipts) =
   map (\<lambda>(i, stx). tx_type_row_of (eh_number (rb_header block)) i stx) (enumerate 0 (rb_transactions_with_sender block))"
  by (simp add: extract_block_def Let_def extract_txs_eq)

lemma ex_address_rows_extract_block:
  "ex_address_rows (extract_block fns block receipts) =
   concat (map (\<lambda>(i, stx). address_rows_of fns (eh_number (rb_header block)) i stx)
     (enumerate 0 (rb_transactions_with_sender block)))"
  by (simp add: extract_block_def Let_def extract_txs_eq)

lemma distinct_tx_indices:
  assumes "length xs \<le> 2 ^ 64"
  shows "distinct (map tr_tx_index (map (\<lambda>(i, stx). tx_type_row_of n i stx) (enumerate 0 xs)))"
proof -
  have "map tr_tx_index (map (\<lambda>(i, stx). tx_type_row_of n i stx) (enumerate 0 xs)) = map of_nat [0..<length xs]"
    by (rule nth_equalityI) (simp_all add: nth_enumerate_eq tx_type_row_of_def)
  moreover have "inj_on (of_nat :: nat \<Rightarrow> u64) {0..<length xs}"
    using assms by (intro inj_onI) (simp add: of_nat_eq_small)
  ultimately show ?thesis by (simp add: distinct_map)
qed

lemma well_extracted_extract_block:
  assumes "block_sizes_ok block receipts"
  shows "well_extracted (extract_block fns block receipts)"
proof -
  let ?e = "extract_block fns block receipts"
  let ?n = "eh_number (rb_header block)"
  have "sorted_wrt (\<lambda>x y. transfer_pos x < transfer_pos y) (ex_transfers ?e)"
    using transfers_strict_upto [of receipts "length (rb_transactions_with_sender block)"] assms
    by (simp add: ex_transfers_extract_block block_sizes_ok_def)
  then have "sorted_wrt (<) (map transfer_pos (ex_transfers ?e))"
    by (simp add: sorted_wrt_map)
  then have "distinct (map transfer_pos (ex_transfers ?e))"
    by (simp only: strict_sorted_iff)
  moreover have "transfer_pos = (\<lambda>r. (tf_block_number r, tf_tx_index r, tf_log_index r))"
    by (simp add: fun_eq_iff transfer_pos_def)
  ultimately have tf: "distinct (map (\<lambda>r. (tf_block_number r, tf_tx_index r, tf_log_index r)) (ex_transfers ?e))"
    by simp
  have ar: "ar_block_number r = ?n \<and>
      \<lparr>tr_tx_type = ar_tx_type r, tr_block_number = ar_block_number r, tr_tx_index = ar_tx_index r\<rparr> \<in> set (ex_tx_types ?e)"
    if "r \<in> set (ex_address_rows ?e)" for r
  proof -
    from that obtain i stx where p: "(i, stx) \<in> set (enumerate 0 (rb_transactions_with_sender block))"
      and r: "r \<in> set (address_rows_of fns ?n i stx)"
      unfolding ex_address_rows_extract_block by auto
    from r have "ar_block_number r = ?n"
      "\<lparr>tr_tx_type = ar_tx_type r, tr_block_number = ar_block_number r, tr_tx_index = ar_tx_index r\<rparr> = tx_type_row_of ?n i stx"
      by (auto simp: address_rows_of_def tx_type_row_of_def)
    with p show ?thesis unfolding ex_tx_types_extract_block by force
  qed
  have tr: "tr_block_number r = ?n" if "r \<in> set (ex_tx_types ?e)" for r
    using that unfolding ex_tx_types_extract_block by (auto simp: tx_type_row_of_def)
  have di: "distinct (map tr_tx_index (ex_tx_types ?e))"
    unfolding ex_tx_types_extract_block using assms by (intro distinct_tx_indices) (simp add: block_sizes_ok_def)
  have tb: "tf_block_number r = ?n" if "r \<in> set (ex_transfers ?e)" for r
    using that unfolding ex_transfers_extract_block by (auto dest: tx_transfers_positions)
  have cr: "cr_block_number r = ?n" if "ex_consensus ?e = Some r" for r
    using that unfolding ex_consensus_extract_block by auto
  show ?thesis
    unfolding well_extracted_def ex_number_extract_block
    using ar tr di tb cr tf by blast
qed

section \<open>The tables are the extraction of the accepted blocks\<close>

text \<open>Every row lies at or below the cursor, so the rows of the next block are new.\<close>

definition below_cursor :: "db \<Rightarrow> u64 \<Rightarrow> bool" where
  "below_cursor d n \<longleftrightarrow> (\<exists>c. cursor_of d = Some c \<and> n \<le> c)"

definition rows_below_cursor :: "db \<Rightarrow> bool" where
  "rows_below_cursor d \<longleftrightarrow>
     (\<forall>r \<in> set (db_address_txs d). below_cursor d (at_block_number r)) \<and>
     (\<forall>r \<in> set (db_tx_types d). below_cursor d (tt_block_number r)) \<and>
     (\<forall>r \<in> set (db_token_transfers d). below_cursor d (st_block_number r)) \<and>
     (\<forall>k c. db_consensus_blocks d k = Some c \<longrightarrow> cb_first_block c \<le> cb_last_block c \<and> below_cursor d (cb_last_block c))"

lemma below_cursor_block_effect [simp]: "below_cursor (block_effect e ts d) n \<longleftrightarrow> n \<le> ex_number e"
  by (simp add: below_cursor_def)

lemma below_new: "\<not> at_or_below_cursor d n \<Longrightarrow> below_cursor d m \<Longrightarrow> m < n"
  by (auto simp: at_or_below_cursor_def below_cursor_def)

lemma rows_below_cursor_step:
  assumes inv: "rows_below_cursor d" and wf: "well_extracted e" and new: "\<not> at_or_below_cursor d (ex_number e)"
  shows "rows_below_cursor (block_effect e ts d)"
proof -
  have old: "below_cursor d n \<Longrightarrow> n \<le> ex_number e" for n
    using below_new [OF new] by (simp add: less_imp_le)
  have at: "\<forall>r \<in> set (db_address_txs (block_effect e ts d)). at_block_number r \<le> ex_number e"
    using inv wf old subset_fold_insert [of address_tx_key "map address_entry (ex_address_rows e)" "db_address_txs d"]
    by (fastforce simp: block_effect_def rows_below_cursor_def well_extracted_def address_entry_def)
  have tt: "\<forall>r \<in> set (db_tx_types (block_effect e ts d)). tt_block_number r \<le> ex_number e"
    using inv wf old subset_fold_insert [of tx_type_key "map type_entry (ex_tx_types e)" "db_tx_types d"]
    by (fastforce simp: block_effect_def rows_below_cursor_def well_extracted_def type_entry_def)
  have st: "\<forall>r \<in> set (db_token_transfers (block_effect e ts d)). st_block_number r \<le> ex_number e"
    using inv wf old subset_fold_insert [of transfer_key "map transfer_entry (ex_transfers e)" "db_token_transfers d"]
    by (fastforce simp: block_effect_def rows_below_cursor_def well_extracted_def transfer_entry_def)
  have "cb_first_block c \<le> cb_last_block c \<and> cb_last_block c \<le> ex_number e"
    if "db_consensus_blocks (block_effect e ts d) k = Some c" for k c
  proof -
    have o: "cb_first_block c \<le> cb_last_block c \<and> cb_last_block c \<le> ex_number e"
      if "db_consensus_blocks d k = Some c" for k c
      using inv old that by (auto simp: rows_below_cursor_def)
    show ?thesis
    proof (cases "ex_consensus e")
      case None
      with that o show ?thesis by (simp add: block_effect_def)
    next
      case (Some r)
      with wf have n: "cr_block_number r = ex_number e" by (simp add: well_extracted_def)
      with Some that o show ?thesis
        by (auto simp: block_effect_def widen_def min_def max_def split: if_splits option.splits intro: order.trans)
    qed
  qed
  with at tt st show ?thesis by (simp add: rows_below_cursor_def)
qed

interpretation rows: db_invariant rows_below_cursor well_extracted
  by unfold_locales (rule rows_below_cursor_step)

text \<open>Under the invariant the rows of an accepted block are appended.\<close>

lemma tx_types_step:
  assumes "rows_below_cursor d" "well_extracted e" "\<not> at_or_below_cursor d (ex_number e)"
  shows "db_tx_types (block_effect e ts d) = db_tx_types d @ map type_entry (ex_tx_types e)"
proof -
  have "distinct (map tx_type_key (map type_entry (ex_tx_types e)))"
    using assms(2) unfolding well_extracted_def distinct_map
    by (auto simp: inj_on_def tx_type_key_def type_entry_def)
  moreover have "tt_block_number r < ex_number e" if "r \<in> set (db_tx_types d)" for r
    using assms(1,3) that below_new by (auto simp: rows_below_cursor_def)
  then have "tx_type_key ` set (map type_entry (ex_tx_types e)) \<inter> tx_type_key ` set (db_tx_types d) = {}"
    using assms(2) by (fastforce simp: well_extracted_def tx_type_key_def type_entry_def)
  ultimately show ?thesis by (simp add: block_effect_def fold_insert_new)
qed

lemma transfers_step:
  assumes "rows_below_cursor d" "well_extracted e" "\<not> at_or_below_cursor d (ex_number e)"
  shows "db_token_transfers (block_effect e ts d) = db_token_transfers d @ map transfer_entry (ex_transfers e)"
proof -
  have "map transfer_key (map transfer_entry (ex_transfers e)) =
    map (\<lambda>r. (tf_block_number r, tf_tx_index r, tf_log_index r)) (ex_transfers e)"
    by (simp add: transfer_key_def transfer_entry_def)
  then have "distinct (map transfer_key (map transfer_entry (ex_transfers e)))"
    using assms(2) by (simp only: well_extracted_def)
  moreover have "st_block_number r < ex_number e" if "r \<in> set (db_token_transfers d)" for r
    using assms(1,3) that below_new by (auto simp: rows_below_cursor_def)
  then have "transfer_key ` set (map transfer_entry (ex_transfers e)) \<inter> transfer_key ` set (db_token_transfers d) = {}"
    using assms(2) by (fastforce simp: well_extracted_def transfer_key_def transfer_entry_def)
  ultimately show ?thesis by (simp add: block_effect_def fold_insert_new)
qed

text \<open>Rows that agree whenever their keys agree are all stored.\<close>

lemma set_fold_insert_inj:
  "inj_on key (set new) \<Longrightarrow> key ` set new \<inter> key ` set rows = {} \<Longrightarrow>
   set (fold (insert_or_ignore key) new rows) = set new \<union> set rows"
proof (intro equalityI subset_fold_insert subsetI)
  fix x
  assume inj: "inj_on key (set new)" and disj: "key ` set new \<inter> key ` set rows = {}" and x: "x \<in> set new \<union> set rows"
  have "key x \<in> key ` set (fold (insert_or_ignore key) new rows)"
    using x by (auto simp: keys_fold_insert)
  then obtain y where y: "y \<in> set (fold (insert_or_ignore key) new rows)" "key y = key x" by auto
  show "x \<in> set (fold (insert_or_ignore key) new rows)"
  proof (cases "x \<in> set rows")
    case True
    then show ?thesis by (rule subsetD [OF superset_fold_insert])
  next
    case False
    with x have "x \<in> set new" by blast
    have "key y \<notin> key ` set rows" using disj y(2) \<open>x \<in> set new\<close> by auto
    then have "y \<notin> set rows" by auto
    with y(1) subset_fold_insert [of key new rows] have "y \<in> set new" by auto
    with inj y(2) \<open>x \<in> set new\<close> have "x = y" by (simp add: inj_on_eq_iff)
    with y(1) show ?thesis by simp
  qed
qed

lemma address_txs_step:
  assumes "rows_below_cursor d" "well_extracted e" "\<not> at_or_below_cursor d (ex_number e)"
  shows "set (db_address_txs (block_effect e ts d)) = address_entry ` set (ex_address_rows e) \<union> set (db_address_txs d)"
proof -
  have typed: "ar_tx_type r = ar_tx_type r'"
    if "r \<in> set (ex_address_rows e)" "r' \<in> set (ex_address_rows e)" "ar_tx_index r = ar_tx_index r'" for r r'
  proof -
    let ?row = "\<lambda>r. \<lparr>tr_tx_type = ar_tx_type r, tr_block_number = ar_block_number r, tr_tx_index = ar_tx_index r\<rparr>"
    from assms(2) that(1,2) have "?row r \<in> set (ex_tx_types e)" "?row r' \<in> set (ex_tx_types e)"
      "distinct (map tr_tx_index (ex_tx_types e))" by (auto simp: well_extracted_def)
    with that(3) have "?row r = ?row r'" unfolding distinct_map by (intro inj_onD [of tr_tx_index]) auto
    then show ?thesis by simp
  qed
  have "inj_on address_tx_key (address_entry ` set (ex_address_rows e))"
    by (intro inj_onI) (auto simp: address_tx_key_def address_entry_def dest: typed)
  moreover have "at_block_number r < ex_number e" if "r \<in> set (db_address_txs d)" for r
    using assms(1,3) that below_new by (auto simp: rows_below_cursor_def)
  then have "address_tx_key ` (address_entry ` set (ex_address_rows e)) \<inter> address_tx_key ` set (db_address_txs d) = {}"
    using assms(2) by (fastforce simp: well_extracted_def address_tx_key_def address_entry_def)
  ultimately show ?thesis
    by (simp add: block_effect_def set_fold_insert_inj)
qed

text \<open>The tables after a history of extracted blocks.\<close>

definition consensus_rows_of :: "b256 \<Rightarrow> block_write list \<Rightarrow> consensus_row list" where
  "consensus_rows_of digest h =
     filter (\<lambda>r. cr_digest r = digest) (List.map_filter (\<lambda>w. ex_consensus (fst w)) h)"

lemma replay_tables:
  assumes "rows_below_cursor d" "accepted h d" "list_all (\<lambda>w. well_extracted (fst w)) h"
  shows "db_tx_types (replay_db h d) = db_tx_types d @ map type_entry (concat (map (\<lambda>w. ex_tx_types (fst w)) h))"
    and "db_token_transfers (replay_db h d) =
      db_token_transfers d @ map transfer_entry (concat (map (\<lambda>w. ex_transfers (fst w)) h))"
    and "set (db_address_txs (replay_db h d)) =
      set (db_address_txs d) \<union> address_entry ` (\<Union>w \<in> set h. set (ex_address_rows (fst w)))"
  using assms
proof (induction h d rule: accepted.induct)
  case (1 d)
  { case 1 then show ?case by simp next case 2 then show ?case by simp next case 3 then show ?case by simp }
next
  case (2 e ts h d)
  { case 1
    then show ?case using 2(1) rows_below_cursor_step tx_types_step by auto
  next
    case 2
    then show ?case using "2.IH"(2) rows_below_cursor_step transfers_step by auto
  next
    case 3
    then show ?case using "2.IH"(3) rows_below_cursor_step address_txs_step by auto }
qed

text \<open>The consensus range of a digest spans the first and the last accepted block naming it.\<close>

definition range_entry :: "consensus_row list \<Rightarrow> consensus_block option" where
  "range_entry rows =
     (case rows of [] \<Rightarrow> None
      | r # _ \<Rightarrow> Some \<lparr>cb_epoch = cr_epoch r, cb_round = cr_round r,
                       cb_first_block = cr_block_number r, cb_last_block = cr_block_number (last rows)\<rparr>)"

lemma consensus_rows_of_snoc:
  "consensus_rows_of x (h @ [w]) = consensus_rows_of x h
     @ (case ex_consensus (fst w) of Some r \<Rightarrow> if cr_digest r = x then [r] else [] | None \<Rightarrow> [])"
  by (auto simp: consensus_rows_of_def List.map_filter_def split: option.splits)

lemma consensus_rows_of_in: "r \<in> set (consensus_rows_of x h) \<Longrightarrow> \<exists>w \<in> set h. ex_consensus (fst w) = Some r"
  by (force simp: consensus_rows_of_def List.map_filter_def)

lemma consensus_step:
  assumes "db_consensus_blocks d (digest_hex x) = range_entry rows" "well_extracted e"
    and "\<And>r. r \<in> set rows \<Longrightarrow> cr_block_number r < ex_number e"
  shows "db_consensus_blocks (block_effect e ts d) (digest_hex x) =
    range_entry (rows @ (case ex_consensus e of Some r \<Rightarrow> if cr_digest r = x then [r] else [] | None \<Rightarrow> []))"
proof (cases "ex_consensus e")
  case None
  with assms(1) show ?thesis by (simp add: block_effect_def)
next
  case (Some r)
  with assms(2) have n: "cr_block_number r = ex_number e" by (simp add: well_extracted_def)
  show ?thesis
  proof (cases "cr_digest r = x")
    case False
    with assms(1) Some show ?thesis by (simp add: block_effect_def)
  next
    case True
    have "db_consensus_blocks (block_effect e ts d) (digest_hex x) = Some (widen r (range_entry rows))"
      using True Some assms(1) by (simp add: block_effect_def)
    also have "\<dots> = range_entry (rows @ [r])"
    proof (cases rows)
      case Nil
      then show ?thesis by (simp add: range_entry_def widen_def)
    next
      case (Cons a rest)
      have "cr_block_number a < ex_number e" "cr_block_number (last (a # rest)) < ex_number e"
        using assms(3) [unfolded Cons] last_in_set [of "a # rest"] by auto
      then show ?thesis
        unfolding Cons using n by (auto simp: range_entry_def widen_def min_absorb1 max_absorb2)
    qed
    finally show ?thesis using Some True by simp
  qed
qed

lemma consensus_replay:
  assumes "db_consensus_blocks d (digest_hex x) = None" "accepted h d" "list_all (\<lambda>w. well_extracted (fst w)) h"
  shows "db_consensus_blocks (replay_db h d) (digest_hex x) = range_entry (consensus_rows_of x h)"
  using assms(2,3)
proof (induction h rule: rev_induct)
  case Nil
  then show ?case using assms(1) by (simp add: consensus_rows_of_def range_entry_def List.map_filter_def)
next
  case (snoc w h)
  obtain e ts where w: "w = (e, ts)" by (cases w)
  from snoc.prems have acc: "accepted h d" and wf: "well_extracted e" and wfh: "\<forall>w \<in> set h. well_extracted (fst w)"
    by (auto simp: accepted_append w list_all_iff)
  have IH: "db_consensus_blocks (replay_db h d) (digest_hex x) = range_entry (consensus_rows_of x h)"
    using snoc acc by simp
  have below: "cr_block_number r < ex_number e" if "r \<in> set (consensus_rows_of x h)" for r
  proof -
    from consensus_rows_of_in [OF that] obtain v where v: "v \<in> set h" "ex_consensus (fst v) = Some r" by blast
    with wfh have "cr_block_number r = ex_number (fst v)" by (auto simp: well_extracted_def)
    with v accepted_ascending [OF snoc.prems(1)] show ?thesis by (auto simp: sorted_wrt_append w)
  qed
  from consensus_step [OF IH wf below] show ?case
    by (simp add: replay_db_snoc w consensus_rows_of_snoc)
qed

section \<open>Token metadata\<close>

text \<open>
  The token rows of a block are the fetch results of the candidates that needed one: at most
  one per token, with status 0 or 1, and only for tokens the database does not hold as fetched
  or failed for good.
\<close>

definition token_pending :: "db \<Rightarrow> address \<Rightarrow> bool" where
  "token_pending d a \<longleftrightarrow> (case db_tokens d (addr_hex a) of None \<Rightarrow> True | Some t \<Rightarrow> tk_status t = 1)"

definition well_fetched :: "db \<Rightarrow> token_row list \<Rightarrow> bool" where
  "well_fetched d ts \<longleftrightarrow> distinct (map tw_address ts) \<and>
     list_all (\<lambda>t. tw_status t \<in> {0, 1} \<and> token_pending d (tw_address t)) ts"

lemma updates_fetch_states:
  "updates (fetch_states_loop candidates out) (\<lambda>d. (d, out @ filter (token_pending d) candidates))"
proof (induction candidates arbitrary: out)
  case Nil
  then show ?case by (simp add: updates_ret)
next
  case (Cons a as)
  have "updates (token_status a) (\<lambda>d. (d, map_option tk_status (db_tokens d (addr_hex a))))"
    unfolding token_status_def by (rule reads_query [unfolded reads_def])
  from updates_andthen [OF this Cons, where ?out1 = "\<lambda>status. if status = None \<or> status = Some 1 then out @ [a] else out"]
  show ?case
    by (simp, elim updates_cong) (auto simp: token_pending_def split: option.splits)
qed

lemma updates_token_fetch_states:
  "updates (token_fetch_states candidates) (\<lambda>d. (d, filter (token_pending d) candidates))"
  unfolding token_fetch_states_def
  by (rule updates_cong [OF updates_andthen [OF updates_prepare updates_fetch_states]]) simp

lemma put_tokens_untouched:
  "k \<notin> addr_hex ` tw_address ` set ts \<Longrightarrow> fold put_token ts tokens k = tokens k"
  by (induction ts arbitrary: tokens) (auto simp: put_token_def)

lemma put_tokens_lookup:
  "distinct (map tw_address ts) \<Longrightarrow> t \<in> set ts \<Longrightarrow>
   fold put_token ts tokens (addr_hex (tw_address t)) =
   Some \<lparr>tk_name = tw_name t, tk_symbol = tw_symbol t, tk_decimals = tw_decimals t,
         tk_status = next_status (map_option tk_status (tokens (addr_hex (tw_address t)))) (tw_status t),
         tk_fetched_at = tw_fetched_at t\<rparr>"
proof (induction ts arbitrary: tokens)
  case Nil
  then show ?case by simp
next
  case (Cons u ts)
  show ?case
  proof (cases "t = u")
    case True
    with Cons.prems have "addr_hex (tw_address u) \<notin> addr_hex ` tw_address ` set ts" by auto
    then have "fold put_token (u # ts) tokens (addr_hex (tw_address u)) = put_token u tokens (addr_hex (tw_address u))"
      by (simp add: put_tokens_untouched)
    then show ?thesis unfolding True by (simp only:) (simp add: put_token_def)
  next
    case False
    with Cons.prems have "t \<in> set ts" by simp
    then have "tw_address t \<in> tw_address ` set ts" by simp
    moreover have "tw_address u \<notin> tw_address ` set ts" using Cons.prems(1) by simp
    ultimately have "tw_address t \<noteq> tw_address u" by metis
    with Cons \<open>t \<in> set ts\<close> show ?thesis by (simp add: put_token_def)
  qed
qed

end
