(* ===== verification/Storage_Reads_Correct.thy ===== *)
theory Storage_Reads_Correct
  imports Storage_Reads Storage_History "HOL-Library.Multiset"
begin

text \<open>
  The feeds the read queries serve: every page query is the window of one feed
  (interpretations of \<open>paged_feed\<close>), the feeds are strictly newest first, the counts are their
  lengths, and the read pool never runs out of connections.
\<close>

section \<open>Page queries as windows of a feed\<close>

definition rows_of :: "'a list sql \<Rightarrow> conn \<Rightarrow> 'a list" where
  "rows_of m c = (case fst (m c) of Inr rows \<Rightarrow> rows | Inl _ \<Rightarrow> [])"

text \<open>The page statements: prepared over one table, with \<open>LIMIT\<close> and \<open>OFFSET\<close> bound.\<close>

definition page_statement :: "string \<Rightarrow> u64 list \<Rightarrow> (db \<Rightarrow> 'a list) \<Rightarrow> u64 \<Rightarrow> u64 \<Rightarrow> 'a list sql" where
  "page_statement table params feed limit offset =
     andthen (prepare table) (\<lambda>_. query (params @ [limit, offset]) (\<lambda>d. limit_offset limit offset (feed d)))"

lemma page_queries:
  "address_txs_page a = page_statement ''address_txs'' [] (address_feed a)"
  "address_txs_page_by_type a t = page_statement ''address_txs'' [] (address_type_feed a t)"
  "tx_type_page t = page_statement ''tx_types'' [] (type_feed t)"
  "address_transfers_page a = page_statement ''token_transfers'' [] (address_transfer_feed a)"
  "token_transfers_page a = page_statement ''token_transfers'' [] (token_transfer_feed a)"
  "transfers_for_tx_page b i = page_statement ''token_transfers'' [b, i] (tx_transfer_feed b i)"
  by (simp_all add: fun_eq_iff page_statement_def address_txs_page_def address_txs_page_by_type_def
      tx_type_page_def address_transfers_page_def token_transfers_page_def transfers_for_tx_page_def)

lemma page_statement_ready:
  assumes "ready c" "table \<in> set SCHEMA_TABLES" "list_all fits_i64 params" "fits_i64 limit" "fits_i64 offset"
  shows "page_statement table params feed limit offset c = (Inr (limit_offset limit offset (feed (view c))), c)"
  using assms
  by (auto simp: page_statement_def andthen_def prepare_def query_healthy ready_def)

text \<open>The saturated offset of a page that is beyond the 64-bit range does not fit either.\<close>

lemma fits_saturating_mul: "fits_i64 (saturating_mul p n) \<Longrightarrow> unat (saturating_mul p n) = unat p * unat n"
  by (auto simp: fits_i64_def unat_saturating_mul min_def split: if_splits)

lemma page_statement_window:
  assumes "ready c" "table \<in> set SCHEMA_TABLES" "list_all fits_i64 params" "fits_i64 n" "fits_i64 (saturating_mul p n)"
  shows "rows_of (page_statement table params feed n (saturating_mul p n)) c =
    take (unat n) (drop (unat p * unat n) (feed (view c)))"
  using assms by (simp add: rows_of_def page_statement_ready limit_offset_def fits_saturating_mul)

text \<open>Which pages a connection serves: a ready one, with an offset SQLite can take.\<close>

definition serves :: "conn \<Rightarrow> u64 \<Rightarrow> u64 \<Rightarrow> bool" where
  "serves c p n \<longleftrightarrow> ready c \<and> fits_i64 n \<and> fits_i64 (saturating_mul p n)"

interpretation address_pages: paged_feed "address_feed a (view c)"
    "\<lambda>p n. rows_of (address_txs_page a n (saturating_mul p n)) c" "serves c" for a c
  by unfold_locales (simp add: page_queries page_statement_window serves_def SCHEMA_TABLES_def)

interpretation address_type_pages: paged_feed "address_type_feed a t (view c)"
    "\<lambda>p n. rows_of (address_txs_page_by_type a t n (saturating_mul p n)) c" "serves c" for a t c
  by unfold_locales (simp add: page_queries page_statement_window serves_def SCHEMA_TABLES_def)

interpretation type_pages: paged_feed "type_feed t (view c)"
    "\<lambda>p n. rows_of (tx_type_page t n (saturating_mul p n)) c" "serves c" for t c
  by unfold_locales (simp add: page_queries page_statement_window serves_def SCHEMA_TABLES_def)

interpretation address_transfer_pages: paged_feed "address_transfer_feed a (view c)"
    "\<lambda>p n. rows_of (address_transfers_page a n (saturating_mul p n)) c" "serves c" for a c
  by unfold_locales (simp add: page_queries page_statement_window serves_def SCHEMA_TABLES_def)

interpretation token_transfer_pages: paged_feed "token_transfer_feed a (view c)"
    "\<lambda>p n. rows_of (token_transfers_page a n (saturating_mul p n)) c" "serves c" for a c
  by unfold_locales (simp add: page_queries page_statement_window serves_def SCHEMA_TABLES_def)

interpretation tx_transfer_pages: paged_feed "tx_transfer_feed b i (view c)"
    "\<lambda>p n. rows_of (transfers_for_tx_page b i n (saturating_mul p n)) c"
    "\<lambda>p n. serves c p n \<and> fits_i64 b \<and> fits_i64 i" for b i c
  by unfold_locales (simp add: page_queries page_statement_window serves_def SCHEMA_TABLES_def)

text \<open>An offset beyond the signed range is an error of the driver, not an empty page.\<close>

lemma page_statement_unbound:
  assumes "ready c" "table \<in> set SCHEMA_TABLES" "list_all fits_i64 params" "fits_i64 limit" "\<not> fits_i64 offset"
  shows "page_statement table params feed limit offset c = (Inl (ToSqlConversionFailure offset), c)"
proof -
  have bind: "bind_params (params @ [limit, offset]) c = (Inl (ToSqlConversionFailure offset), c)"
    using assms by (induction params) (auto simp: ready_def)
  then show ?thesis
    using assms by (auto simp: page_statement_def query_def andthen_def prepare_def ready_def)
qed

section \<open>Order of the feeds\<close>

text \<open>Pointers are ordered by block and, in a block, by position.\<close>

instantiation tx_pointer_ext :: (linorder) linorder
begin

definition less_eq_tx_pointer_ext :: "'a tx_pointer_scheme \<Rightarrow> 'a tx_pointer_scheme \<Rightarrow> bool" where
  "p \<le> q \<longleftrightarrow> (tp_block_number p, tp_tx_index p, tx_pointer.more p) \<le> (tp_block_number q, tp_tx_index q, tx_pointer.more q)"

definition less_tx_pointer_ext :: "'a tx_pointer_scheme \<Rightarrow> 'a tx_pointer_scheme \<Rightarrow> bool" where
  "p < q \<longleftrightarrow> (tp_block_number p, tp_tx_index p, tx_pointer.more p) < (tp_block_number q, tp_tx_index q, tx_pointer.more q)"

instance
proof
  fix p q r :: "'a tx_pointer_scheme"
  show "p < q \<longleftrightarrow> p \<le> q \<and> \<not> q \<le> p"
    unfolding less_eq_tx_pointer_ext_def less_tx_pointer_ext_def by (rule less_le_not_le)
  show "p \<le> p" unfolding less_eq_tx_pointer_ext_def by (rule order.refl)
  show "p \<le> q \<Longrightarrow> q \<le> r \<Longrightarrow> p \<le> r" unfolding less_eq_tx_pointer_ext_def by (rule order.trans)
  show "p \<le> q \<or> q \<le> p" unfolding less_eq_tx_pointer_ext_def by (rule linear)
  assume "p \<le> q" "q \<le> p"
  then have "(tp_block_number p, tp_tx_index p, tx_pointer.more p) = (tp_block_number q, tp_tx_index q, tx_pointer.more q)"
    unfolding less_eq_tx_pointer_ext_def by (rule order.antisym)
  then show "p = q" by (cases p; cases q) simp
qed

end

lemma tx_pointer_less: "p < (q :: tx_pointer) \<longleftrightarrow> (tp_block_number p, tp_tx_index p) < (tp_block_number q, tp_tx_index q)"
  by (auto simp: less_tx_pointer_ext_def less_prod_def)

definition newest_first :: "tx_pointer list \<Rightarrow> bool" where
  "newest_first ps \<longleftrightarrow> sorted_wrt (>) ps"

text \<open>A newest-first list is determined by its members.\<close>

lemma newest_first_unique: "newest_first xs \<Longrightarrow> set xs = set ys \<Longrightarrow> newest_first ys \<Longrightarrow> xs = ys"
  using strict_sorted_equal [of "rev xs" "rev ys"] by (simp add: newest_first_def sorted_wrt_rev)

lemma distinct_map_filter_key: "distinct (map f xs) \<Longrightarrow> distinct (map f (filter P xs))"
  by (rule distinct_map_filter)

lemma newest_first_address:
  assumes "keys_unique d"
  shows "newest_first (address_feed a d)"
proof -
  let ?rows = "filter (\<lambda>r. at_address r = a) (db_address_txs d)"
  have "distinct (map (\<lambda>r. (at_block_number r, at_tx_index r)) ?rows)"
    using assms unfolding keys_unique_def distinct_map
    by (auto simp: inj_on_def address_tx_key_def)
  from rev_sort_key_desc [OF this] show ?thesis
    by (simp add: newest_first_def tx_pointer_less address_feed_def sorted_wrt_map address_pointer_def)
qed

lemma newest_first_address_type:
  assumes "keys_unique d"
  shows "newest_first (address_type_feed a t d)"
proof -
  let ?rows = "filter (\<lambda>r. at_address r = a \<and> at_tx_type r = t) (db_address_txs d)"
  have "distinct (map (\<lambda>r. (at_block_number r, at_tx_index r)) ?rows)"
    using assms unfolding keys_unique_def distinct_map
    by (auto simp: inj_on_def address_tx_key_def)
  from rev_sort_key_desc [OF this] show ?thesis
    by (simp add: newest_first_def tx_pointer_less address_type_feed_def sorted_wrt_map address_pointer_def)
qed

lemma newest_first_type:
  assumes "keys_unique d"
  shows "newest_first (type_feed t d)"
proof -
  let ?rows = "filter (\<lambda>r. tt_tx_type r = t) (db_tx_types d)"
  have "distinct (map (\<lambda>r. (tt_block_number r, tt_tx_index r)) ?rows)"
    using assms unfolding keys_unique_def distinct_map
    by (auto simp: inj_on_def tx_type_key_def)
  from rev_sort_key_desc [OF this] show ?thesis
    by (simp add: newest_first_def tx_pointer_less type_feed_def sorted_wrt_map type_pointer_def)
qed

lemma transfers_newest_first:
  assumes "keys_unique d" "distinct rows" "set rows \<subseteq> set (db_token_transfers d)"
  shows "sorted_wrt (\<lambda>x y. transfer_key y < transfer_key x) (rev (sort_key transfer_key rows))"
proof -
  have "inj_on transfer_key (set (db_token_transfers d))"
    using assms(1) by (simp add: keys_unique_def distinct_map)
  then have "distinct (map transfer_key rows)"
    using assms(2,3) by (auto simp: distinct_map intro: inj_on_subset)
  then show ?thesis by (rule rev_sort_key_desc)
qed

section \<open>Counts\<close>

text \<open>The \<open>UNION\<close> of the keys has as many rows as the \<open>UNION\<close> of the rows.\<close>

lemma union_count:
  assumes "keys_unique d" "set xs \<subseteq> set (db_token_transfers d)" "set ys \<subseteq> set (db_token_transfers d)"
  shows "length (union_rows (map transfer_key xs) (map transfer_key ys)) = length (union_rows xs ys)"
proof -
  have inj: "inj_on transfer_key (set xs \<union> set ys)"
    using assms by (auto simp: keys_unique_def distinct_map intro: inj_on_subset)
  have "length (union_rows (map transfer_key xs) (map transfer_key ys)) = card (transfer_key ` (set xs \<union> set ys))"
    by (simp add: union_rows_def length_remdups_card_conv image_Un)
  also have "\<dots> = card (set xs \<union> set ys)" by (rule card_image [OF inj])
  finally show ?thesis by (simp add: union_rows_def length_remdups_card_conv)
qed

lemma query_prepared:
  assumes "ready c" "table \<in> set SCHEMA_TABLES" "list_all fits_i64 params"
  shows "andthen (prepare table) (\<lambda>_. query params q) c = (Inr (q (view c)), c)"
  using assms by (auto simp: andthen_def prepare_def query_healthy ready_def)

section \<open>The read pool\<close>

text \<open>Each permit is free or held by one request; each connection is free or in use.\<close>

definition pool_ok :: "read_pool \<Rightarrow> bool" where
  "pool_ok p \<longleftrightarrow>
     pool_permits p + length (pool_admitted p) + length (pool_running p) + length (pool_returning p) = READ_POOL_SIZE \<and>
     mset (pool_conns p) + mset (map snd (pool_running p)) = mset [0..<READ_POOL_SIZE] \<and>
     pool_exhausted p = []"

lemma pool_ok_open: "pool_ok pool_open"
  by (simp add: pool_ok_def pool_open_def)

lemma length_remove1_Suc: "x \<in> set xs \<Longrightarrow> length xs = Suc (length (remove1 x xs))"
  using length_pos_if_in_set [of x xs] by (simp add: length_remove1)

lemma pool_conns_length:
  "pool_ok p \<Longrightarrow> length (pool_conns p) = pool_permits p + length (pool_admitted p) + length (pool_returning p)"
proof -
  assume ok: "pool_ok p"
  then have "size (mset (pool_conns p) + mset (map snd (pool_running p))) = size (mset [0..<READ_POOL_SIZE])"
    unfolding pool_ok_def by (intro arg_cong [where f = size]) blast
  then have "length (pool_conns p) + length (pool_running p) = READ_POOL_SIZE"
    by (simp only: size_union size_mset length_map length_upt)
  with ok show ?thesis by (simp add: pool_ok_def)
qed

lemma pool_ok_step: "pool_ok p \<Longrightarrow> pool_step p p' \<Longrightarrow> pool_ok p'"
proof (erule pool_stepE)
  fix n r
  assume "pool_ok p" "p' = p\<lparr>pool_permits := n, pool_admitted := r # pool_admitted p\<rparr>" "pool_permits p = Suc n"
  then show "pool_ok p'" by (simp add: pool_ok_def)
next
  fix r cs c
  assume "pool_ok p" "r \<in> set (pool_admitted p)" "pool_conns p = cs @ [c]"
    "p' = p\<lparr>pool_admitted := remove1 r (pool_admitted p), pool_conns := cs, pool_running := (r, c) # pool_running p\<rparr>"
  then show "pool_ok p'" using length_remove1_Suc [of r "pool_admitted p"] by (simp add: pool_ok_def)
next
  fix r
  assume ok: "pool_ok p" and r: "r \<in> set (pool_admitted p)" and e: "pool_conns p = []"
  have False using pool_conns_length [OF ok] r e by (cases "pool_admitted p") auto
  then show "pool_ok p'" ..
next
  fix r c
  assume ok: "pool_ok p" and r: "(r, c) \<in> set (pool_running p)"
    and p': "p' = p\<lparr>pool_running := remove1 (r, c) (pool_running p), pool_conns := pool_conns p @ [c],
                   pool_returning := r # pool_returning p\<rparr>"
  have "mset (pool_running p) = add_mset (r, c) (mset (remove1 (r, c) (pool_running p)))"
    using r by simp
  then have "mset (map snd (pool_running p)) = add_mset c (mset (map snd (remove1 (r, c) (pool_running p))))"
    by (metis image_mset_add_mset mset_map snd_conv)
  with ok p' length_remove1_Suc [OF r] show "pool_ok p'" by (simp add: pool_ok_def)
next
  fix r
  assume "pool_ok p" "r \<in> set (pool_returning p)"
    "p' = p\<lparr>pool_returning := remove1 r (pool_returning p), pool_permits := Suc (pool_permits p)\<rparr>"
  then show "pool_ok p'" using length_remove1_Suc [of r "pool_returning p"] by (simp add: pool_ok_def)
qed

lemma pool_ok_reachable: "pool_reachable p \<Longrightarrow> pool_ok p"
  by (induction rule: pool_reachable.induct) (auto intro: pool_ok_open pool_ok_step)

end
