(* ===== verification/Storage_Properties.thy ===== *)
theory Storage_Properties
  imports Storage_Schema Storage_Reads_Correct
begin

text \<open>
  The properties of the derived database: atomic block writes, exact indexes over every history
  of writes, schema recovery, exact pages and counts, and a read pool that is never exhausted.
\<close>

section \<open>A database to evaluate on\<close>

definition sample_db :: db where
  "sample_db = empty_db\<lparr>db_tables := SCHEMA_TABLES,
     db_meta := [''schema_version'' \<mapsto> ''3'', ''chain_id'' \<mapsto> ''2017'']\<rparr>"

definition sample_conn :: conn where
  "sample_conn = \<lparr>cn_committed = sample_db, cn_tx = None, cn_binds = fits_i64, cn_budget = None\<rparr>"

definition sample_fns :: chain_fns where
  "sample_fns = \<lparr>create_address = (\<lambda>a n. a + ucast n), deconstruct_nonce = (\<lambda>n. (ucast (drop_bit 32 n), ucast n))\<rparr>"

definition sample_header :: "u64 \<Rightarrow> exec_header" where
  "sample_header n = \<lparr>eh_number = n, eh_parent_beacon_block_root = Some 7, eh_nonce = [0,0,0,1,0,0,0,2],
     eh_difficulty = 0x10003, eh_ommers_hash = 9, eh_mix_hash = 0, eh_extra_data = [], eh_timestamp = 5,
     eh_base_fee_per_gas = Some 7, eh_beneficiary = 1, eh_parent_hash = 0, eh_gas_used = 21000, eh_gas_limit = 30000000\<rparr>"

definition sample_tx :: transaction where
  "sample_tx = \<lparr>tx_hash = 1, tx_ty = 2, tx_to = Some 5, tx_nonce = 0, tx_value = 1, tx_input = [],
     tx_gas_limit = 21000, tx_effective_gas_price = (\<lambda>_. 1)\<rparr>"

definition sample_block :: "u64 \<Rightarrow> recovered_block" where
  "sample_block n = \<lparr>rb_header = sample_header n, rb_transactions_with_sender = [(4, sample_tx)]\<rparr>"

definition sample_receipts :: "receipt list" where
  "sample_receipts = [\<lparr>rc_success = True, rc_cumulative_gas_used = 21000, rc_logs = []\<rparr>]"

definition sample_extracted :: "u64 \<Rightarrow> extracted_block" where
  "sample_extracted n = \<lparr>ex_number = n,
     ex_address_rows = [\<lparr>ar_address = 4, ar_block_number = n, ar_tx_index = 0, ar_tx_type = 2\<rparr>,
                        \<lparr>ar_address = 5, ar_block_number = n, ar_tx_index = 0, ar_tx_type = 2\<rparr>],
     ex_tx_types = [\<lparr>tr_tx_type = 2, tr_block_number = n, tr_tx_index = 0\<rparr>],
     ex_transfers = [], ex_token_candidates = [],
     ex_consensus = Some \<lparr>cr_digest = 7, cr_epoch = 1, cr_round = 2, cr_block_number = n\<rparr>\<rparr>"

lemma sample_ready: "ready sample_conn"
  by (simp add: ready_def sample_conn_def healthy_def view_def sample_db_def)

lemma sample_empty: "db_address_txs sample_db = []" "db_tx_types sample_db = []" "db_token_transfers sample_db = []"
  "db_tx_type_counts sample_db = Map.empty" "db_consensus_blocks sample_db = Map.empty" "db_tokens sample_db = Map.empty"
  "cursor_of sample_db = None" "cn_committed sample_conn = sample_db" "cn_tx sample_conn = None"
  by (simp_all add: sample_db_def empty_db_def cursor_of_def sample_conn_def)

lemma ex_number_sample [simp]: "ex_number (sample_extracted n) = n"
  by (simp add: sample_extracted_def)

lemma sample_extract: "extract_block sample_fns (sample_block 1) sample_receipts = sample_extracted 1"
  by (simp add: extract_block_def extract_tx_def Let_def sample_fns_def sample_block_def sample_header_def sample_tx_def
      sample_receipts_def sample_extracted_def slice_get_def decode_consensus_fields_def from_be_bytes_def be_nat_def
      u64_try_from_def unsigned_numeral)

section \<open>Block writes\<close>

text \<open>C3: \<open>Writer::index_block\<close> is atomic, whatever statement fails. A call leaves no open
  transaction; it commits the whole effect of the block exactly when it returns \<open>true\<close>, which
  needs the block to be above the stored cursor; when it returns \<open>false\<close> the block is at or
  below the cursor, and then, as after any error, the committed database is unchanged.\<close>

theorem index_block_atomic:
  assumes "cn_tx c = None" and "index_block e ts c = (r, c')"
  shows "cn_tx c' = None \<and>
    (r = Inr True \<and> \<not> at_or_below_cursor (cn_committed c) (ex_number e) \<and>
       cn_committed c' = block_effect e ts (cn_committed c) \<or>
     r = Inr False \<and> at_or_below_cursor (cn_committed c) (ex_number e) \<and> cn_committed c' = cn_committed c \<or>
     (\<exists>err. r = Inl err) \<and> cn_committed c' = cn_committed c)"
  using index_block_outcome [OF assms] .

lemma index_block_atomic_witness:
  "let (r, c') = index_block (sample_extracted 1) [] (sample_conn\<lparr>cn_budget := Some 5\<rparr>)
   in cn_tx c' = None \<and>
    (r = Inr True \<and> \<not> at_or_below_cursor sample_db 1 \<and> cn_committed c' = block_effect (sample_extracted 1) [] sample_db \<or>
     r = Inr False \<and> at_or_below_cursor sample_db 1 \<and> cn_committed c' = sample_db \<or>
     (\<exists>err. r = Inl err) \<and> cn_committed c' = sample_db)"
proof -
  obtain r c' where r: "index_block (sample_extracted 1) [] (sample_conn\<lparr>cn_budget := Some 5\<rparr>) = (r, c')"
    by (cases "index_block (sample_extracted 1) [] (sample_conn\<lparr>cn_budget := Some 5\<rparr>)")
  have "cn_tx (sample_conn\<lparr>cn_budget := Some 5\<rparr>) = None" by (simp add: sample_conn_def)
  from index_block_atomic [OF this r] show ?thesis
    unfolding r by (simp add: sample_empty)
qed

text \<open>A write without faults, from the statements it is made of.\<close>

lemma index_block_succeeds:
  assumes "ready c" and "cn_tx c = None" and "cursor_readable (cn_committed c)" and "block_fits e ts"
    and "\<not> at_or_below_cursor (cn_committed c) (ex_number e)"
  shows "\<exists>c'. index_block e ts c = (Inr True, c') \<and> ready c' \<and> cn_tx c' = None \<and>
    cn_committed c' = block_effect e ts (cn_committed c) \<and> cursor_of (cn_committed c') = Some (ex_number e)"
proof -
  let ?c0 = "c\<lparr>cn_tx := Some (cn_committed c)\<rparr>"
  have b: "begin_immediate c = (Inr (), ?c0)"
    using assms(1,2) by (simp add: begin_immediate_def andthen_def charge_healthy ready_def view_def)
  have "ready ?c0" "cursor_readable (view ?c0)"
    using assms(1-3) by (simp_all add: ready_def healthy_def view_def)
  from completes_apply_block [OF this assms(4)]
  obtain r c1 where a: "apply_block e ts ?c0 = (Inr r, c1)" "ready c1" by (auto simp: completes_def)
  from updatesD [OF updates_apply_block a(1)] assms(5) have r: "r" "view c1 = block_effect e ts (cn_committed c)"
    by (auto simp: view_def split: if_splits)
  have "commit c1 = (Inr (), c1\<lparr>cn_committed := view c1, cn_tx := None\<rparr>)"
    using a(2) by (simp add: commit_def andthen_def charge_healthy ready_def)
  with b a r show ?thesis
    by (auto simp: index_block_def ready_def healthy_def view_def)
qed

text \<open>Without faults a block above the cursor is indexed: on a connection with the schema
  tables, an idle transaction and a readable cursor, with all row positions within SQLite's
  integers, \<open>index_block\<close> returns \<open>true\<close> and has committed the effect of the block, whose number
  is the new cursor.\<close>

theorem index_block_commits:
  assumes "ready c" and "cn_tx c = None" and "cursor_readable (cn_committed c)" and "block_fits e ts"
    and "\<not> at_or_below_cursor (cn_committed c) (ex_number e)"
  shows "\<exists>c'. index_block e ts c = (Inr True, c') \<and> ready c' \<and> cn_tx c' = None \<and>
    cn_committed c' = block_effect e ts (cn_committed c) \<and> cursor_of (cn_committed c') = Some (ex_number e)"
  using index_block_succeeds [OF assms] .

lemma index_block_commits_witness:
  "\<exists>c'. index_block (sample_extracted 1) [] sample_conn = (Inr True, c') \<and> ready c' \<and> cn_tx c' = None \<and>
    cn_committed c' = block_effect (sample_extracted 1) [] sample_db \<and> cursor_of (cn_committed c') = Some 1"
  using index_block_commits [OF sample_ready, of "sample_extracted 1" "[]"]
  by (simp add: sample_conn_def sample_db_def empty_db_def cursor_readable_def block_fits_def sample_extracted_def
      fits_i64_def at_or_below_cursor_def cursor_of_def)

text \<open>C8: any sequence of \<open>index_block\<close> calls, each failing at an arbitrary statement or not at
  all, leaves exactly the effects of the calls that returned \<open>true\<close>, in order. Their block
  numbers strictly ascend above the first cursor, and the cursor is the last of them. So a
  crash, a retry or an overlapping replay neither loses nor repeats a block.\<close>

theorem writer_run_history:
  assumes "cn_tx c = None" and "writer_run attempts c = (acc, c')"
  shows "cn_committed c' = replay_db acc (cn_committed c) \<and>
    sorted_wrt (\<lambda>x y. ex_number (fst x) < ex_number (fst y)) acc \<and>
    list_all (\<lambda>w. \<not> at_or_below_cursor (cn_committed c) (ex_number (fst w))) acc \<and>
    cursor_of (cn_committed c') = (if acc = [] then cursor_of (cn_committed c) else Some (ex_number (fst (last acc))))"
  using writer_run_replay [OF assms] accepted_ascending [of acc "cn_committed c"]
  by (simp add: list_all_iff cursor_of_replay)

lemma writer_run_history_witness:
  "let (acc, c') = writer_run [(None, sample_extracted 1, []), (Some 9, sample_extracted 2, []), (None, sample_extracted 1, [])] sample_conn
   in cn_committed c' = replay_db acc sample_db \<and>
      cursor_of (cn_committed c') = (if acc = [] then None else Some (ex_number (fst (last acc))))"
proof -
  let ?as = "[(None, sample_extracted 1, []), (Some 9, sample_extracted 2, []), (None, sample_extracted 1, [])]"
  obtain acc c' where w: "writer_run ?as sample_conn = (acc, c')" by (cases "writer_run ?as sample_conn")
  from writer_run_history [OF sample_empty(9) w] show ?thesis unfolding w by (auto simp: sample_empty)
qed

text \<open>The per-type totals are exact: after any run of the writer, with any failures, the count
  that \<open>count_tx_type\<close> reads is the number of rows \<open>tx_types\<close> holds for that type, if it was so
  before the run.\<close>

theorem tx_type_counts_exact:
  assumes "cn_tx c = None" and "writer_run attempts c = (acc, c1)" and "counts_exact (cn_committed c)"
    and "count_tx_type t c1 = (Inr n, c2)"
  shows "n = count_rows (filter (\<lambda>r. tt_tx_type r = t) (db_tx_types (cn_committed c1)))"
proof -
  have "counts_exact (cn_committed c1)"
    using counts.run_keeps [OF assms(3,1,2)] by (simp add: list_all_iff)
  moreover have "cn_tx c1 = None" using writer_run_replay [OF assms(1,2)] by simp
  moreover have "updates (count_tx_type t) (\<lambda>d. (d, case db_tx_type_counts d t of Some n \<Rightarrow> n | None \<Rightarrow> 0))"
    unfolding count_tx_type_def
    by (rule updates_cong [OF updates_andthen [OF updates_prepare reads_query [unfolded reads_def]]]) simp
  from updatesD [OF this assms(4)] have "n = (case db_tx_type_counts (view c1) t of Some n \<Rightarrow> n | None \<Rightarrow> 0)"
    by simp
  ultimately show ?thesis by (simp add: counts_exact_def type_total_def count_rows_def view_def)
qed

lemma sample_count: "count_tx_type 2 (sample_conn\<lparr>cn_committed := block_effect (sample_extracted 1) [] sample_db\<rparr>)
  = (Inr 1, sample_conn\<lparr>cn_committed := block_effect (sample_extracted 1) [] sample_db\<rparr>)"
  unfolding count_tx_type_def
  by (subst query_prepared)
    (auto simp: ready_def sample_conn_def healthy_def view_def sample_db_def SCHEMA_TABLES_def block_effect_def empty_db_def
      sample_extracted_def add_counts_def type_total_def type_entry_def insert_or_ignore_def)

lemma tx_type_counts_exact_witness:
  "(1 :: u64) = count_rows (filter (\<lambda>r. tt_tx_type r = 2) (db_tx_types (block_effect (sample_extracted 1) [] sample_db)))"
proof -
  let ?c = "sample_conn\<lparr>cn_committed := block_effect (sample_extracted 1) [] sample_db\<rparr>"
  have "counts_exact sample_db" by (simp add: counts_exact_def sample_empty type_total_def)
  then have "counts_exact (cn_committed ?c)" by (simp add: counts_exact_step)
  from tx_type_counts_exact [of ?c "[]" "[]" ?c, OF _ _ this sample_count] show ?thesis
    by (simp add: sample_conn_def)
qed

section \<open>The indexes\<close>

lemma blank_invariants: "blank d \<Longrightarrow> rows_below_cursor d \<and> keys_unique d \<and> counts_exact d"
  by (auto simp: blank_def rows_below_cursor_def keys_unique_def counts_exact_def type_total_def)

lemma accepted_well_extracted:
  assumes "map fst acc = map (\<lambda>(b, rs). extract_block fns b rs) blocks" "list_all (\<lambda>(b, rs). block_sizes_ok b rs) blocks"
  shows "list_all (\<lambda>w. well_extracted (fst w)) acc"
proof -
  have "list_all well_extracted (map fst acc)"
    unfolding assms(1) using assms(2)
    by (auto simp: list_all_iff intro: well_extracted_extract_block)
  then show ?thesis by (simp add: list_all_iff)
qed

text \<open>A run of the writer from an empty database over blocks of the chain.\<close>

definition indexed_chain :: "chain_fns \<Rightarrow> (recovered_block \<times> receipt list) list \<Rightarrow> conn \<Rightarrow> bool" where
  "indexed_chain fns blocks c' \<longleftrightarrow>
     (\<exists>c attempts acc. cn_tx c = None \<and> blank (cn_committed c) \<and> writer_run attempts c = (acc, c') \<and>
        map fst acc = map (\<lambda>(b, rs). extract_block fns b rs) blocks \<and> list_all (\<lambda>(b, rs). block_sizes_ok b rs) blocks)"

lemma indexed_chain_tables:
  assumes "indexed_chain fns blocks c'"
  shows "set (db_address_txs (cn_committed c')) =
           address_entry ` (\<Union>(b, rs) \<in> set blocks. set (ex_address_rows (extract_block fns b rs)))"
    and "db_tx_types (cn_committed c') = map type_entry (concat (map (\<lambda>(b, rs). ex_tx_types (extract_block fns b rs)) blocks))"
    and "db_token_transfers (cn_committed c') =
           map transfer_entry (concat (map (\<lambda>(b, rs). ex_transfers (extract_block fns b rs)) blocks))"
    and "keys_unique (cn_committed c')" and "counts_exact (cn_committed c')" and "cn_tx c' = None"
    and "db_consensus_blocks (cn_committed c') (digest_hex x) = range_entry (filter (\<lambda>r. cr_digest r = x)
           (List.map_filter (\<lambda>(b, rs). ex_consensus (extract_block fns b rs)) blocks))"
proof -
  from assms obtain c attempts acc where c: "cn_tx c = None" "blank (cn_committed c)"
    and w: "writer_run attempts c = (acc, c')"
    and m: "map fst acc = map (\<lambda>(b, rs). extract_block fns b rs) blocks" and sz: "list_all (\<lambda>(b, rs). block_sizes_ok b rs) blocks"
    unfolding indexed_chain_def by blast
  note r = writer_run_replay [OF c(1) w]
  note inv = blank_invariants [OF c(2)]
  note wf = accepted_well_extracted [OF m sz]
  note t = replay_tables [OF conjunct1 [OF inv] _ wf]
  have over: "map (\<lambda>w. f (fst w)) acc = map (\<lambda>(b, rs). f (extract_block fns b rs)) blocks" for f :: "extracted_block \<Rightarrow> 'x"
  proof -
    have "map (\<lambda>w. f (fst w)) acc = map f (map fst acc)" by simp
    then show ?thesis unfolding m by (simp add: case_prod_beta')
  qed
  have "(\<Union>w \<in> set acc. set (ex_address_rows (fst w))) = \<Union> (set (map (\<lambda>w. set (ex_address_rows (fst w))) acc))" by simp
  also have "\<dots> = (\<Union>(b, rs) \<in> set blocks. set (ex_address_rows (extract_block fns b rs)))"
    unfolding over [of "\<lambda>e. set (ex_address_rows e)"] by (simp add: case_prod_beta')
  finally show "set (db_address_txs (cn_committed c')) =
      address_entry ` (\<Union>(b, rs) \<in> set blocks. set (ex_address_rows (extract_block fns b rs)))"
    using t(3) r c(2) by (simp add: blank_def)
  show "db_tx_types (cn_committed c') = map type_entry (concat (map (\<lambda>(b, rs). ex_tx_types (extract_block fns b rs)) blocks))"
    using t(1) r c(2) unfolding over by (simp add: blank_def)
  show "db_token_transfers (cn_committed c') =
      map transfer_entry (concat (map (\<lambda>(b, rs). ex_transfers (extract_block fns b rs)) blocks))"
    using t(2) r c(2) unfolding over by (simp add: blank_def)
  show "keys_unique (cn_committed c')" using keys.run_keeps [OF _ c(1) w] inv by (simp add: list_all_iff)
  show "counts_exact (cn_committed c')" using counts.run_keeps [OF _ c(1) w] inv by (simp add: list_all_iff)
  show "cn_tx c' = None" using r by simp
  have "List.map_filter (\<lambda>w. ex_consensus (fst w)) acc = List.map_filter (\<lambda>(b, rs). ex_consensus (extract_block fns b rs)) blocks"
  proof -
    have "map the (filter (\<lambda>x. x \<noteq> None) (map (\<lambda>w. ex_consensus (fst w)) acc)) =
      map the (filter (\<lambda>x. x \<noteq> None) (map (\<lambda>(b, rs). ex_consensus (extract_block fns b rs)) blocks))"
      unfolding over ..
    then show ?thesis by (simp add: List.map_filter_def filter_map comp_def case_prod_beta')
  qed
  with consensus_replay [of "cn_committed c" x acc] r c(2) wf
  show "db_consensus_blocks (cn_committed c') (digest_hex x) = range_entry (filter (\<lambda>r. cr_digest r = x)
      (List.map_filter (\<lambda>(b, rs). ex_consensus (extract_block fns b rs)) blocks))"
    by (simp add: consensus_rows_of_def blank_def)
qed

lemma at_address_entry: "at_address (address_entry r) = addr_hex (ar_address r)"
  by (simp add: address_entry_def)

lemma enumerate_upt: "enumerate 0 xs = map (\<lambda>i. (i, xs ! i)) [0..<length xs]"
  by (rule nth_equalityI) (simp_all add: nth_enumerate_eq)

lemma address_rows_member:
  "r \<in> set (ex_address_rows (extract_block fns b rs)) \<longleftrightarrow>
   (\<exists>i a. i < length (rb_transactions_with_sender b) \<and> a \<in> set (participants fns (rb_transactions_with_sender b ! i)) \<and>
      r = \<lparr>ar_address = a, ar_block_number = eh_number (rb_header b), ar_tx_index = of_nat i,
           ar_tx_type = tx_ty (snd (rb_transactions_with_sender b ! i))\<rparr>)"
proof -
  let ?txs = "rb_transactions_with_sender b"
  have "r \<in> set (ex_address_rows (extract_block fns b rs)) \<longleftrightarrow>
    (\<exists>i. i < length ?txs \<and> r \<in> set (address_rows_of fns (eh_number (rb_header b)) i (?txs ! i)))"
    unfolding ex_address_rows_extract_block enumerate_upt by auto
  then show ?thesis by (auto simp: address_rows_of_def)
qed

lemma address_feed_rows:
  assumes "set (db_address_txs d) = address_entry ` S"
  shows "set (address_feed (addr_hex a) d) =
    (\<lambda>r. \<lparr>tp_block_number = ar_block_number r, tp_tx_index = ar_tx_index r\<rparr>) ` {r \<in> S. ar_address r = a}"
proof -
  have "{x \<in> set (db_address_txs d). at_address x = addr_hex a} = address_entry ` {r \<in> S. ar_address r = a}"
    unfolding assms by (auto simp: at_address_entry intro!: imageI)
  then have "set (address_feed (addr_hex a) d) = address_pointer ` address_entry ` {r \<in> S. ar_address r = a}"
    by (simp add: address_feed_def)
  then show ?thesis by (simp add: image_image address_entry_def address_pointer_def)
qed

lemma address_feed_member:
  assumes "indexed_chain fns blocks c"
  shows "p \<in> set (address_feed (addr_hex a) (cn_committed c)) \<longleftrightarrow>
    (\<exists>b rs i. (b, rs) \<in> set blocks \<and> i < length (rb_transactions_with_sender b) \<and>
       a \<in> set (participants fns (rb_transactions_with_sender b ! i)) \<and>
       p = \<lparr>tp_block_number = eh_number (rb_header b), tp_tx_index = of_nat i\<rparr>)"
proof -
  have "p \<in> set (address_feed (addr_hex a) (cn_committed c)) \<longleftrightarrow>
    (\<exists>b rs r. (b, rs) \<in> set blocks \<and> r \<in> set (ex_address_rows (extract_block fns b rs)) \<and> ar_address r = a \<and>
       p = \<lparr>tp_block_number = ar_block_number r, tp_tx_index = ar_tx_index r\<rparr>)"
    unfolding address_feed_rows [OF indexed_chain_tables(1) [OF assms]] by auto
  then show ?thesis
    unfolding address_rows_member by (auto 4 4)
qed

text \<open>C11: the address index is exact and ordered: after any run of the writer from an empty database
  over blocks of the chain, the feed of an address lists precisely the transactions in which it
  is the sender, the recipient or the created contract, each once, newest first.\<close>

theorem address_index_exact:
  assumes "indexed_chain fns blocks c"
  shows "(\<forall>p. p \<in> set (address_feed (addr_hex a) (cn_committed c)) \<longleftrightarrow>
            (\<exists>b rs i. (b, rs) \<in> set blocks \<and> i < length (rb_transactions_with_sender b) \<and>
               a \<in> set (participants fns (rb_transactions_with_sender b ! i)) \<and>
               p = \<lparr>tp_block_number = eh_number (rb_header b), tp_tx_index = of_nat i\<rparr>)) \<and>
         newest_first (address_feed (addr_hex a) (cn_committed c))"
  by (intro conjI allI newest_first_address indexed_chain_tables(4) [OF assms] address_feed_member [OF assms])

lemma sample_fits: "block_fits (sample_extracted n) []" if "fits_i64 n"
  using that by (simp add: block_fits_def sample_extracted_def) (simp add: fits_i64_def)

lemma sample_indexed: "\<exists>c. indexed_chain sample_fns [(sample_block 1, sample_receipts)] c \<and>
    ready c \<and> cn_committed c = block_effect (sample_extracted 1) [] sample_db"
proof -
  have "cursor_readable sample_db" by (simp add: cursor_readable_def sample_db_def)
  then obtain c' where c': "index_block (sample_extracted 1) [] sample_conn = (Inr True, c')" "ready c'"
    "cn_committed c' = block_effect (sample_extracted 1) [] sample_db"
    using index_block_succeeds [OF sample_ready, of "sample_extracted 1" "[]"] sample_fits [of 1]
    by (auto simp: sample_empty at_or_below_cursor_def fits_i64_def)
  have b: "sample_conn\<lparr>cn_budget := None\<rparr> = sample_conn" by (simp add: sample_conn_def)
  have w: "writer_run [(None, sample_extracted 1, [])] sample_conn = ([(sample_extracted 1, [])], c')"
    by (simp add: b c')
  have "blank sample_db" by (simp add: blank_def sample_empty) (simp add: sample_db_def)
  moreover have "block_sizes_ok (sample_block 1) sample_receipts"
    by (simp add: block_sizes_ok_def sample_block_def sample_receipts_def)
  ultimately have "indexed_chain sample_fns [(sample_block 1, sample_receipts)] c'"
    unfolding indexed_chain_def
    by (intro exI conjI) (rule sample_empty(9), (simp add: sample_empty), rule w, simp_all add: sample_extract)
  with c' show ?thesis by blast
qed

lemma address_index_exact_witness:
  "\<exists>c. indexed_chain sample_fns [(sample_block 1, sample_receipts)] c \<and>
     \<lparr>tp_block_number = 1, tp_tx_index = 0\<rparr> \<in> set (address_feed (addr_hex 5) (cn_committed c))"
proof -
  from sample_indexed obtain c where c: "indexed_chain sample_fns [(sample_block 1, sample_receipts)] c" by blast
  have "\<exists>b rs i. (b, rs) \<in> set [(sample_block 1, sample_receipts)] \<and> i < length (rb_transactions_with_sender b) \<and>
     5 \<in> set (participants sample_fns (rb_transactions_with_sender b ! i)) \<and>
     \<lparr>tp_block_number = 1, tp_tx_index = 0\<rparr> = \<lparr>tp_block_number = eh_number (rb_header b), tp_tx_index = of_nat i\<rparr>"
    by (rule exI [of _ "sample_block 1"], rule exI [of _ sample_receipts], rule exI [of _ 0])
      (simp add: sample_block_def participants_def sample_tx_def sample_header_def)
  with address_index_exact [OF c, of 5] c show ?thesis by blast
qed

text \<open>C17: the type index and its total are exact: after such a run the feed of a type lists precisely the
  transactions of that type, newest first, and \<open>count_tx_type\<close> is the length of the feed.\<close>

theorem type_index_exact:
  assumes "indexed_chain fns blocks c" and "count_tx_type t c = (Inr n, c')"
  shows "(\<forall>p. p \<in> set (type_feed t (cn_committed c)) \<longleftrightarrow>
            (\<exists>b rs i. (b, rs) \<in> set blocks \<and> i < length (rb_transactions_with_sender b) \<and>
               tx_ty (snd (rb_transactions_with_sender b ! i)) = t \<and>
               p = \<lparr>tp_block_number = eh_number (rb_header b), tp_tx_index = of_nat i\<rparr>)) \<and>
         newest_first (type_feed t (cn_committed c)) \<and> n = of_nat (length (type_feed t (cn_committed c)))"
proof (intro conjI allI newest_first_type indexed_chain_tables(4) [OF assms(1)])
  fix p
  let ?T = "db_tx_types (cn_committed c)"
  have member: "r \<in> set (ex_tx_types (extract_block fns b rs)) \<longleftrightarrow>
      (\<exists>i. i < length (rb_transactions_with_sender b) \<and> r = tx_type_row_of (eh_number (rb_header b)) i (rb_transactions_with_sender b ! i))"
    for r b rs
    unfolding ex_tx_types_extract_block enumerate_upt by auto
  have ty: "tt_tx_type (type_entry r) = tr_tx_type r" for r by (simp add: type_entry_def)
  have "p \<in> set (type_feed t (cn_committed c)) \<longleftrightarrow> p \<in> type_pointer ` {x \<in> set ?T. tt_tx_type x = t}"
    by (simp add: type_feed_def)
  also have "{x \<in> set ?T. tt_tx_type x = t} =
      type_entry ` {r. (\<exists>b rs. (b, rs) \<in> set blocks \<and> r \<in> set (ex_tx_types (extract_block fns b rs))) \<and> tr_tx_type r = t}"
    unfolding indexed_chain_tables(2) [OF assms(1)] by (auto simp: ty intro!: imageI)
  finally have "p \<in> set (type_feed t (cn_committed c)) \<longleftrightarrow>
      (\<exists>b rs r. (b, rs) \<in> set blocks \<and> r \<in> set (ex_tx_types (extract_block fns b rs)) \<and> tr_tx_type r = t \<and>
         p = \<lparr>tp_block_number = tr_block_number r, tp_tx_index = tr_tx_index r\<rparr>)"
    by (auto simp: type_pointer_def type_entry_def image_iff)
  moreover have "(\<exists>r. r \<in> set (ex_tx_types (extract_block fns b rs)) \<and> tr_tx_type r = t \<and>
        p = \<lparr>tp_block_number = tr_block_number r, tp_tx_index = tr_tx_index r\<rparr>) \<longleftrightarrow>
      (\<exists>i. i < length (rb_transactions_with_sender b) \<and> tx_ty (snd (rb_transactions_with_sender b ! i)) = t \<and>
        p = \<lparr>tp_block_number = eh_number (rb_header b), tp_tx_index = of_nat i\<rparr>)" for b rs
    unfolding member by (auto simp: tx_type_row_of_def)
  ultimately show "p \<in> set (type_feed t (cn_committed c)) \<longleftrightarrow>
      (\<exists>b rs i. (b, rs) \<in> set blocks \<and> i < length (rb_transactions_with_sender b) \<and>
         tx_ty (snd (rb_transactions_with_sender b ! i)) = t \<and>
         p = \<lparr>tp_block_number = eh_number (rb_header b), tp_tx_index = of_nat i\<rparr>)"
    by blast
next
  have "updates (count_tx_type t) (\<lambda>d. (d, case db_tx_type_counts d t of Some n \<Rightarrow> n | None \<Rightarrow> 0))"
    unfolding count_tx_type_def
    by (rule updates_cong [OF updates_andthen [OF updates_prepare reads_query [unfolded reads_def]]]) simp
  from updatesD [OF this assms(2)] indexed_chain_tables(5,6) [OF assms(1)]
  show "n = of_nat (length (type_feed t (cn_committed c)))"
    by (simp add: counts_exact_def type_total_def view_def type_feed_def)
qed

lemma type_index_exact_witness:
  "\<exists>c. indexed_chain sample_fns [(sample_block 1, sample_receipts)] c \<and>
     1 = (of_nat (length (type_feed 2 (cn_committed c))) :: u64)"
proof -
  from sample_indexed obtain c where c: "indexed_chain sample_fns [(sample_block 1, sample_receipts)] c" "ready c"
    "cn_committed c = block_effect (sample_extracted 1) [] sample_db" by blast
  have v: "view c = cn_committed c" using indexed_chain_tables(6) [OF c(1)] by (simp add: view_def)
  have "count_tx_type 2 c = (Inr (case db_tx_type_counts (view c) 2 of Some n \<Rightarrow> n | None \<Rightarrow> 0), c)"
    unfolding count_tx_type_def by (rule query_prepared [OF c(2)]) (simp_all add: SCHEMA_TABLES_def)
  also have "(case db_tx_type_counts (view c) 2 of Some n \<Rightarrow> n | None \<Rightarrow> 0) = 1"
    unfolding v c(3) by (simp add: block_effect_def sample_extracted_def add_counts_def type_total_def type_entry_def
        insert_or_ignore_def sample_empty)
  finally show ?thesis using type_index_exact [OF c(1)] c(1) by blast
qed

lemma indexed_chain_ascending:
  assumes "indexed_chain fns blocks c"
  shows "sorted_wrt (\<lambda>x y. eh_number (rb_header (fst x)) < eh_number (rb_header (fst y))) blocks"
proof -
  from assms obtain c0 attempts acc where w: "cn_tx c0 = None" "writer_run attempts c0 = (acc, c)"
    and m: "map fst acc = map (\<lambda>(b, rs). extract_block fns b rs) blocks"
    unfolding indexed_chain_def by blast
  from writer_run_replay [OF w] accepted_ascending have "sorted_wrt (\<lambda>x y. ex_number x < ex_number y) (map fst acc)"
    by (fastforce simp: sorted_wrt_map)
  then show ?thesis unfolding m by (simp add: sorted_wrt_map case_prod_beta')
qed

lemma named_rows_ascending:
  assumes "sorted_wrt (\<lambda>x y. num x < num y) xs" "\<And>x r. f x = Some r \<Longrightarrow> key r = (num x :: u64)"
  shows "sorted_wrt (\<lambda>x y. key x < key y) (List.map_filter f xs)"
  using assms(1)
proof (induction xs)
  case Nil
  then show ?case by (simp add: List.map_filter_def)
next
  case (Cons x xs)
  have "\<exists>y \<in> set xs. f y = Some r" if "r \<in> set (List.map_filter f xs)" for r
    using that by (auto simp: List.map_filter_def)
  with Cons assms(2) show ?case by (fastforce simp: map_filter_simps split: option.splits)
qed

lemma Min_Max_strict:
  "sorted_wrt (\<lambda>x y. key x < (key y :: u64)) (r # rs) \<Longrightarrow>
   Min (key ` set (r # rs)) = key r \<and> Max (key ` set (r # rs)) = key (last (r # rs))"
proof -
  assume s: "sorted_wrt (\<lambda>x y. key x < key y) (r # rs)"
  have "key x \<le> key (last (r # rs))" if "x \<in> set (r # rs)" for x
    using s that by (induction rs arbitrary: r) (auto split: if_splits intro: less_imp_le)
  with s show ?thesis
    by (intro conjI Min_eqI Max_eqI) (auto intro: less_imp_le)
qed

text \<open>C16: the consensus index is exact: after such a run the range read for an output digest is the
  lowest and the highest number among the indexed blocks whose header names that digest, and it
  is absent when no indexed block does.\<close>

theorem consensus_range_exact:
  assumes "indexed_chain fns blocks c" and "consensus_range_by_digest x c = (Inr r, c')"
  shows "r = (let named = filter (\<lambda>b. map_option hc_digest (decode_consensus_fields fns (rb_header b)) = Some x) (map fst blocks);
                  numbers = set (map (\<lambda>b. eh_number (rb_header b)) named)
              in if named = [] then None
                 else Some \<lparr>rg_first_block = Min numbers, rg_last_block = Max numbers\<rparr>)"
proof -
  define named where "named = filter (\<lambda>b. map_option hc_digest (decode_consensus_fields fns (rb_header b)) = Some x) (map fst blocks)"
  define rows where "rows = filter (\<lambda>r. cr_digest r = x) (List.map_filter (\<lambda>(b, rs). ex_consensus (extract_block fns b rs)) blocks)"
  have num: "map cr_block_number rows = map (\<lambda>b. eh_number (rb_header b)) named"
    unfolding rows_def named_def
    by (induction blocks) (auto simp: map_filter_simps ex_consensus_extract_block split: option.splits)
  have sorted: "sorted_wrt (\<lambda>x y. cr_block_number x < cr_block_number y) rows"
    unfolding rows_def
    by (intro sorted_wrt_filter named_rows_ascending [where num = "\<lambda>x. eh_number (rb_header (fst x))"]
        indexed_chain_ascending [OF assms(1)]) (auto simp: ex_consensus_extract_block)
  have "updates (consensus_range_by_digest x) (\<lambda>d. (d, map_option range_of (db_consensus_blocks d (digest_hex x))))"
    unfolding consensus_range_by_digest_def
    by (rule updates_cong [OF updates_andthen [OF updates_prepare reads_query [unfolded reads_def]]]) simp
  from updatesD [OF this assms(2)] indexed_chain_tables(6,7) [OF assms(1)]
  have r: "r = map_option range_of (range_entry rows)" by (simp add: view_def rows_def)
  have "set (map (\<lambda>b. eh_number (rb_header b)) named) = cr_block_number ` set rows"
    unfolding num [symmetric] by simp
  moreover have "named = [] \<longleftrightarrow> rows = []" using num by (metis map_is_Nil_conv)
  moreover have "map_option range_of (range_entry rows) =
      (if rows = [] then None
       else Some \<lparr>rg_first_block = Min (cr_block_number ` set rows), rg_last_block = Max (cr_block_number ` set rows)\<rparr>)"
  proof (cases rows)
    case Nil
    then show ?thesis by (simp add: range_entry_def)
  next
    case (Cons a rest)
    from Min_Max_strict [OF sorted [unfolded Cons]] show ?thesis
      unfolding Cons by (simp add: range_entry_def) (simp add: range_of_def)
  qed
  ultimately show ?thesis
    unfolding r named_def [symmetric] Let_def by simp
qed

lemma consensus_range_exact_witness:
  "\<exists>c c'. indexed_chain sample_fns [(sample_block 1, sample_receipts)] c \<and>
     consensus_range_by_digest 7 c = (Inr (Some \<lparr>rg_first_block = 1, rg_last_block = 1\<rparr>), c')"
proof -
  from sample_indexed obtain c where c: "indexed_chain sample_fns [(sample_block 1, sample_receipts)] c" "ready c" by blast
  have "\<exists>r. consensus_range_by_digest 7 c = (Inr r, c)"
    unfolding consensus_range_by_digest_def
    by (rule exI, rule query_prepared [OF c(2)]) (simp_all add: SCHEMA_TABLES_def)
  then obtain r where r: "consensus_range_by_digest 7 c = (Inr r, c)" ..
  have "filter (\<lambda>b. map_option hc_digest (decode_consensus_fields sample_fns (rb_header b)) = Some 7)
      (map fst [(sample_block 1, sample_receipts)]) = [sample_block 1]"
    by (simp add: sample_block_def sample_header_def sample_fns_def decode_consensus_fields_def from_be_bytes_def be_nat_def
        u64_try_from_def)
  from consensus_range_exact [OF c(1) r, unfolded this] c(1) r show ?thesis
    by (auto simp: sample_block_def sample_header_def)
qed

section \<open>Token metadata\<close>

text \<open>Only tokens the database has never seen, or has seen fail once, are fetched: what
  \<open>token_fetch_states\<close> returns is the candidates without a row or with status 1, in their order,
  and it changes nothing.\<close>

theorem token_fetch_states_pending:
  assumes "token_fetch_states candidates c = (Inr out, c')"
  shows "view c' = view c \<and>
    out = filter (\<lambda>a. case db_tokens (view c) (addr_hex a) of None \<Rightarrow> True | Some t \<Rightarrow> tk_status t = 1) candidates"
  using updatesD [OF updates_token_fetch_states assms] by (simp add: token_pending_def [abs_def])

lemma token_fetch_states_pending_witness:
  "\<exists>c'. token_fetch_states [3, 4] sample_conn = (Inr [3, 4], c')"
proof -
  have "\<exists>out c'. token_fetch_states [3, 4] sample_conn = (Inr out, c')"
    by (simp add: token_fetch_states_def andthen_def prepare_def token_status_def query_def charge_def sample_conn_def
        sample_db_def SCHEMA_TABLES_def view_def ret_def)
  then obtain out c' where o: "token_fetch_states [3, 4] sample_conn = (Inr out, c')" by blast
  from token_fetch_states_pending [OF o] show ?thesis
    using o by (auto simp: view_def sample_empty)
qed

section \<open>Opening the database\<close>

text \<open>C19: a rebuild of an outdated file survives crashes: whatever statements earlier process starts
  stopped at, a start without faults opens the file, of the current schema, for this chain, with
  every table empty and no cursor, so indexing replays from the start. The file may hold an older
  schema version, leftover v1 tables, or be new.\<close>

theorem stale_file_is_rebuilt:
  assumes "cn_tx c = None" and "file_ok (cn_committed c)" and "stale (cn_committed c) \<or> cn_committed c = empty_db"
  shows "\<exists>c'. writer_open chain_id ((open_run budgets chain_id c)\<lparr>cn_budget := None\<rparr>) = (Inr (), c') \<and>
    opened chain_id (cn_committed c') \<and> blank (cn_committed c')"
proof -
  have "rebuildable chain_id (cn_committed c)"
    using assms(2,3) by (auto simp: rebuildable_def blank_def chain_ok_def empty_db_def)
  from open_run_rebuildable [OF assms(1) this, of budgets]
  have o: "cn_tx ((open_run budgets chain_id c)\<lparr>cn_budget := None\<rparr>) = None"
    "True \<longrightarrow> healthy ((open_run budgets chain_id c)\<lparr>cn_budget := None\<rparr>)"
    "rebuildable chain_id (cn_committed ((open_run budgets chain_id c)\<lparr>cn_budget := None\<rparr>))"
    by (simp_all add: healthy_def)
  obtain r c' where w: "writer_open chain_id ((open_run budgets chain_id c)\<lparr>cn_budget := None\<rparr>) = (r, c')"
    by (cases "writer_open chain_id ((open_run budgets chain_id c)\<lparr>cn_budget := None\<rparr>)")
  from tripleD [OF triple_open_rebuild o w] show ?thesis
    unfolding w by (auto simp: rebuilt_def split: sum.splits)
qed

lemma stale_file_is_rebuilt_witness:
  "\<exists>c'. writer_open 2017 ((open_run [Some 9, Some 0, Some 14] 2017
       (sample_conn\<lparr>cn_committed := sample_db\<lparr>db_meta := [''schema_version'' \<mapsto> ''2'', ''last_indexed'' \<mapsto> ''8'']\<rparr>\<rparr>))\<lparr>cn_budget := None\<rparr>) = (Inr (), c')
    \<and> opened 2017 (cn_committed c') \<and> blank (cn_committed c')"
  by (rule stale_file_is_rebuilt)
    (simp_all add: sample_conn_def sample_db_def file_ok_def stale_def SCHEMA_TABLES_def SCHEMA_VERSION_def)

text \<open>C23: opening never loses indexed data: a file of the current schema keeps every row and its cursor
  through any sequence of process starts, with any failures; a start that succeeds leaves the file open for the node's chain, and
  no start opens the file of another chain; a start without faults succeeds exactly when the file has no chain id or that of the node.\<close>

theorem current_file_is_kept:
  assumes "cn_tx c = None" and "current (cn_committed c)"
    and "writer_open chain_id ((open_run budgets chain_id c)\<lparr>cn_budget := budget\<rparr>) = (r, c')"
  shows "same_rows (cn_committed c) (cn_committed c') \<and> current (cn_committed c') \<and>
    (r = Inr () \<longrightarrow> opened chain_id (cn_committed c')) \<and>
    (\<forall>s. db_meta (cn_committed c) ''chain_id'' = Some s \<longrightarrow> parse_u64 s \<noteq> Some chain_id \<longrightarrow> r \<noteq> Inr ()) \<and>
    (budget = None \<longrightarrow>
       (r = Inr () \<longleftrightarrow> (\<forall>s. db_meta (cn_committed c) ''chain_id'' = Some s \<longrightarrow> parse_u64 s = Some chain_id)))"
proof -
  let ?d0 = "cn_committed c"
  let ?c1 = "(open_run budgets chain_id c)\<lparr>cn_budget := budget\<rparr>"
  have u: "unchanged ?d0 ?d0" "\<not> has_v1 ?d0" using assms(2) by (auto simp: unchanged_def current_def)
  from open_run_unchanged [OF assms(1) u, of budgets chain_id]
  have o: "cn_tx ?c1 = None" "False \<longrightarrow> P" "unchanged ?d0 (cn_committed ?c1) \<and> \<not> has_v1 (cn_committed ?c1)" for P
    by simp_all
  from tripleD [OF triple_open_unchanged o assms(3)]
  have kept: "same_rows ?d0 (cn_committed c') \<and> current (cn_committed c') \<and> (r = Inr () \<longrightarrow> opened chain_id (cn_committed c')) \<and>
    (\<forall>s. db_meta ?d0 ''chain_id'' = Some s \<longrightarrow> parse_u64 s \<noteq> Some chain_id \<longrightarrow> r \<noteq> Inr ())"
    by (cases r) (auto simp: unchanged_def current_def opened_def)
  have "r = Inr ()" if own: "chain_ok chain_id ?d0" and "budget = None"
  proof (cases r)
    case (Inl e)
    from open_run_owned [OF assms(1) conjI [OF u(1) own] u(2), of budgets] \<open>budget = None\<close>
    have o': "cn_tx ?c1 = None" "True \<longrightarrow> healthy ?c1"
      "(unchanged ?d0 (cn_committed ?c1) \<and> chain_ok chain_id (cn_committed ?c1)) \<and> \<not> has_v1 (cn_committed ?c1)"
      by (simp_all add: healthy_def)
    from tripleD [OF triple_open_owned o' assms(3)] Inl show ?thesis by (auto simp: chain_ok_def)
  qed simp
  then have "budget = None \<longrightarrow> chain_ok chain_id ?d0 \<longrightarrow> r = Inr ()" by blast
  with kept show ?thesis by (auto simp: chain_ok_def split: option.splits)
qed

lemma current_file_is_kept_witness:
  "let c = sample_conn\<lparr>cn_committed := block_effect (sample_extracted 1) [] sample_db\<rparr>;
       (r, c') = writer_open 1 ((open_run [Some 3] 1 c)\<lparr>cn_budget := None\<rparr>)
   in same_rows (cn_committed c) (cn_committed c') \<and> r \<noteq> Inr ()"
proof -
  let ?c = "sample_conn\<lparr>cn_committed := block_effect (sample_extracted 1) [] sample_db\<rparr>"
  obtain r c' where w: "writer_open 1 ((open_run [Some 3] 1 ?c)\<lparr>cn_budget := None\<rparr>) = (r, c')"
    by (cases "writer_open 1 ((open_run [Some 3] 1 ?c)\<lparr>cn_budget := None\<rparr>)")
  have "cn_tx ?c = None" "current (cn_committed ?c)"
    by (simp_all add: sample_empty current_def has_v1_def)
      (simp_all add: block_effect_def sample_db_def SCHEMA_TABLES_def SCHEMA_VERSION_def)
  from current_file_is_kept [OF this w]
  have k: "same_rows (cn_committed ?c) (cn_committed c')"
    "\<forall>s. db_meta (cn_committed ?c) ''chain_id'' = Some s \<longrightarrow> parse_u64 s \<noteq> Some 1 \<longrightarrow> r \<noteq> Inr ()" by blast+
  have "db_meta (cn_committed ?c) ''chain_id'' = Some ''2017''" by (simp add: block_effect_def sample_db_def)
  moreover have "parse_u64 ''2017'' \<noteq> Some 1"
    by (simp add: parse_u64_def parse_uint_def dec_value_def is_ascii_digit_def word_unat_eq_iff)
  ultimately have "r \<noteq> Inr ()" using k(2) by blast
  with k(1) show ?thesis unfolding Let_def w by simp
qed

section \<open>Pages\<close>

text \<open>Paging through an address loses and repeats nothing: the pages of any size, in order, are the
  whole feed, as long as the offsets stay within SQLite's integers; and each page is in the
  order of the feed.\<close>

theorem address_pages_cover:
  assumes "ready c" and "0 < n" and "n \<le> MAX_PER_PAGE" and "k < 2 ^ 56"
    and "length (address_feed a (view c)) \<le> k * unat n"
  shows "concat (map (\<lambda>p. rows_of (address_txs_page a n (saturating_mul (of_nat p) n)) c) [0..<k]) = address_feed a (view c)"
proof (rule address_pages.pages_cover [OF assms(2) _ _ assms(5)])
  have n: "unat n \<le> 100" using assms(3) by (simp add: MAX_PER_PAGE_def word_le_nat_alt)
  show "serves c p n" if "unat p < k" for p
  proof -
    have "unat p * unat n \<le> unat p * 100" using n by simp
    also have "\<dots> < 2 ^ 63" using that assms(4) by simp
    finally show ?thesis
      using assms(1) n by (simp add: serves_def fits_i64_def unat_saturating_mul min_def)
  qed
qed (use assms(4) in simp)

lemma address_pages_cover_witness:
  "concat (map (\<lambda>p. rows_of (address_txs_page (addr_hex 5) 25 (saturating_mul (of_nat p) 25)) sample_conn) [0..<2])
   = address_feed (addr_hex 5) sample_db"
  using address_pages_cover [OF sample_ready, of 25 2 "addr_hex 5"]
  by (simp add: MAX_PER_PAGE_def view_def sample_empty address_feed_def)

text \<open>C32: the total shown for an address's transfers is the length of the list it pages through, although
  one query collapses keys and the other rows: a transfer to oneself is counted and listed once.\<close>

theorem address_transfer_count:
  assumes "indexed_chain fns blocks c" and "ready c"
  shows "count_address_transfers a c = (Inr (of_nat (length (address_transfer_feed a (cn_committed c)))), c) \<and>
    sorted_wrt (\<lambda>x y. transfer_key y < transfer_key x) (address_transfer_feed a (cn_committed c))"
proof -
  note ku = indexed_chain_tables(4) [OF assms(1)]
  have v: "view c = cn_committed c" using indexed_chain_tables(6) [OF assms(1)] by (simp add: view_def)
  have arms: "set (from_arm a (cn_committed c)) \<subseteq> set (db_token_transfers (cn_committed c))"
    "set (to_arm a (cn_committed c)) \<subseteq> set (db_token_transfers (cn_committed c))"
    by (auto simp: from_arm_def to_arm_def)
  have "count_address_transfers a c =
      (Inr (count_rows (union_rows (map transfer_key (from_arm a (view c))) (map transfer_key (to_arm a (view c))))), c)"
    unfolding count_address_transfers_def by (rule query_prepared [OF assms(2)]) (simp_all add: SCHEMA_TABLES_def)
  moreover have "sorted_wrt (\<lambda>x y. transfer_key y < transfer_key x) (address_transfer_feed a (cn_committed c))"
    unfolding address_transfer_feed_def
    by (rule transfers_newest_first [OF ku]) (use arms in \<open>auto simp: union_rows_def\<close>)
  ultimately show ?thesis
    by (simp add: v count_rows_def union_count [OF ku arms] address_transfer_feed_def)
qed

lemma address_transfer_count_witness:
  "\<exists>c. indexed_chain sample_fns [(sample_block 1, sample_receipts)] c \<and> ready c \<and>
     fst (count_address_transfers (addr_hex 5) c) = Inr (of_nat (length (address_transfer_feed (addr_hex 5) (cn_committed c))))"
proof -
  from sample_indexed obtain c where c: "indexed_chain sample_fns [(sample_block 1, sample_receipts)] c" "ready c" by blast
  with address_transfer_count [OF c, of "addr_hex 5"] show ?thesis by auto
qed

text \<open>C40: a page beyond the signed 64-bit range is an error: the offset a page number gives is bound to
  SQLite as a \<open>u64\<close>, and when it exceeds the largest \<open>i64\<close> the type listing fails with the
  driver's conversion error, where a page past the end would be empty.\<close>

theorem deep_page_fails:
  assumes "ready c" and "fits_i64 n" and "2 ^ 63 \<le> unat p * unat n"
  shows "tx_type_page t n (saturating_mul p n) c = (Inl (ToSqlConversionFailure (saturating_mul p n)), c)"
proof -
  have "\<not> fits_i64 (saturating_mul p n)" using assms(3) by (simp add: fits_i64_def unat_saturating_mul)
  with assms(1,2) show ?thesis by (simp add: page_queries page_statement_unbound SCHEMA_TABLES_def)
qed

lemma deep_page_fails_witness:
  "fst (tx_type_page 2 25 (saturating_mul (- 1) 25) sample_conn) = Inl (ToSqlConversionFailure (- 1))"
proof -
  have "saturating_mul (- 1) (25 :: u64) = - 1" by (simp add: word_unat_eq_iff unat_saturating_mul unat_max_word)
  then show ?thesis
    using deep_page_fails [OF sample_ready, of 25 "- 1" 2] by (simp add: fits_i64_def unat_max_word)
qed

text \<open>C24: the read pool never runs out: in every reachable state of the pool a request that holds a
  permit finds a connection, so no request ever got the \<open>read pool exhausted\<close> error, at most
  four requests run at a time, each on a connection of its own.\<close>

theorem read_pool_never_exhausted:
  assumes "pool_reachable p"
  shows "pool_exhausted p = [] \<and> (pool_admitted p \<noteq> [] \<longrightarrow> pool_conns p \<noteq> []) \<and>
    length (pool_running p) \<le> READ_POOL_SIZE \<and> distinct (pool_conns p @ map snd (pool_running p))"
proof -
  note ok = pool_ok_reachable [OF assms]
  have "mset (pool_conns p @ map snd (pool_running p)) = mset [0..<READ_POOL_SIZE]"
    using ok by (simp add: pool_ok_def)
  then have "distinct (pool_conns p @ map snd (pool_running p))"
    by (metis distinct_upt mset_eq_imp_distinct_iff)
  moreover have "pool_conns p \<noteq> []" if "pool_admitted p \<noteq> []"
    using pool_conns_length [OF ok] that by auto
  ultimately show ?thesis using ok by (simp add: pool_ok_def)
qed

lemma read_pool_never_exhausted_witness:
  "\<exists>p. pool_reachable p \<and> pool_admitted p = [1] \<and> pool_conns p \<noteq> []"
proof -
  have "pool_step pool_open (pool_open\<lparr>pool_permits := 3, pool_admitted := 1 # pool_admitted pool_open\<rparr>)"
    by (rule pool_step.acquire) (simp add: pool_open_def READ_POOL_SIZE_def)
  then have r: "pool_reachable (pool_open\<lparr>pool_permits := 3, pool_admitted := [1]\<rparr>)"
    using pool_reachable.step [OF pool_reachable.init] by (simp add: pool_open_def)
  from read_pool_never_exhausted [OF r] r show ?thesis by (intro exI conjI) (auto)
qed

end
