(* ===== verification/Storage_Spec.thy ===== *)
theory Storage_Spec
  imports Storage_Properties
begin

text \<open>
  The abstract specification of the derived database, a list of indexed blocks, and the refinement:
  the tables are functions of that list, and each \<open>index_block\<close>, whatever statement fails in it, is a
  step of the specification or no step.
\<close>

section \<open>The specification\<close>

type_synonym abstract_index = "(recovered_block \<times> receipt list) list"

definition number_of :: "recovered_block \<times> receipt list \<Rightarrow> u64" where
  "number_of p = eh_number (rb_header (fst p))"

definition spec_cursor :: "abstract_index \<Rightarrow> u64 option" where
  "spec_cursor blocks = (if blocks = [] then None else Some (number_of (last blocks)))"

definition spec_index_block :: "recovered_block \<times> receipt list \<Rightarrow> abstract_index \<Rightarrow> bool \<times> abstract_index" where
  "spec_index_block p blocks =
     (case spec_cursor blocks of
        Some c \<Rightarrow> if number_of p \<le> c then (False, blocks) else (True, blocks @ [p])
      | None \<Rightarrow> (True, blocks @ [p]))"

definition extracted :: "chain_fns \<Rightarrow> recovered_block \<times> receipt list \<Rightarrow> extracted_block" where
  "extracted fns p = extract_block fns (fst p) (snd p)"

definition spec_consensus :: "chain_fns \<Rightarrow> b256 \<Rightarrow> abstract_index \<Rightarrow> consensus_row list" where
  "spec_consensus fns x blocks = filter (\<lambda>r. cr_digest r = x) (List.map_filter (\<lambda>p. ex_consensus (extracted fns p)) blocks)"

section \<open>The abstraction relation\<close>

definition represents :: "chain_fns \<Rightarrow> abstract_index \<Rightarrow> db \<Rightarrow> bool" where
  "represents fns blocks d \<longleftrightarrow>
     sorted_wrt (\<lambda>x y. number_of x < number_of y) blocks \<and>
     list_all (\<lambda>p. block_sizes_ok (fst p) (snd p)) blocks \<and>
     cursor_of d = spec_cursor blocks \<and>
     set (db_address_txs d) = address_entry ` (\<Union>p \<in> set blocks. set (ex_address_rows (extracted fns p))) \<and>
     db_tx_types d = map type_entry (concat (map (\<lambda>p. ex_tx_types (extracted fns p)) blocks)) \<and>
     db_token_transfers d = map transfer_entry (concat (map (\<lambda>p. ex_transfers (extracted fns p)) blocks)) \<and>
     (\<forall>x. db_consensus_blocks d (digest_hex x) = range_entry (spec_consensus fns x blocks)) \<and>
     rows_below_cursor d \<and> keys_unique d \<and> counts_exact d"

lemma represents_blank: "blank d \<Longrightarrow> represents fns [] d"
  using blank_invariants [of d]
  by (simp add: represents_def blank_def spec_cursor_def spec_consensus_def range_entry_def List.map_filter_def cursor_of_def)

lemma at_or_below_spec:
  "cursor_of d = spec_cursor blocks \<Longrightarrow>
   at_or_below_cursor d (number_of p) \<longleftrightarrow> \<not> fst (spec_index_block p blocks)"
  by (auto simp: at_or_below_cursor_def spec_index_block_def split: option.splits)

lemma number_extracted: "ex_number (extracted fns p) = number_of p"
  by (simp add: extracted_def number_of_def)

lemma spec_consensus_number: "r \<in> set (spec_consensus fns x blocks) \<Longrightarrow> \<exists>p \<in> set blocks. cr_block_number r = number_of p"
  by (force simp: spec_consensus_def List.map_filter_def extracted_def ex_consensus_extract_block number_of_def)

lemma spec_consensus_snoc:
  "spec_consensus fns x (blocks @ [p]) = spec_consensus fns x blocks @
     (case ex_consensus (extracted fns p) of Some r \<Rightarrow> if cr_digest r = x then [r] else [] | None \<Rightarrow> [])"
  by (auto simp: spec_consensus_def List.map_filter_def split: option.splits)

lemma represents_step:
  assumes rep: "represents fns blocks d" and p: "block_sizes_ok (fst p) (snd p)" and new: "fst (spec_index_block p blocks)"
  shows "represents fns (blocks @ [p]) (block_effect (extracted fns p) ts d)"
proof -
  let ?e = "extracted fns p"
  have wf: "well_extracted ?e" using well_extracted_extract_block [OF p] by (simp add: extracted_def)
  have above: "\<not> at_or_below_cursor d (ex_number ?e)"
    using new rep at_or_below_spec [of d blocks p] by (simp add: represents_def number_extracted)
  have inv: "rows_below_cursor d" "keys_unique d" "counts_exact d" using rep by (simp_all add: represents_def)
  have later: "number_of q < number_of p" if "q \<in> set blocks" for q
  proof -
    from that rep have "q = last blocks \<or> number_of q < number_of (last blocks)"
      by (cases blocks rule: rev_cases) (auto simp: represents_def sorted_wrt_append)
    moreover have "number_of (last blocks) < number_of p"
      using new that by (auto simp: spec_index_block_def spec_cursor_def split: if_splits)
    ultimately show ?thesis by auto
  qed
  have "db_consensus_blocks (block_effect ?e ts d) (digest_hex x) = range_entry (spec_consensus fns x (blocks @ [p]))" for x
    unfolding spec_consensus_snoc
  proof (rule consensus_step [OF _ wf])
    show "db_consensus_blocks d (digest_hex x) = range_entry (spec_consensus fns x blocks)"
      using rep by (simp add: represents_def)
    show "\<And>r. r \<in> set (spec_consensus fns x blocks) \<Longrightarrow> cr_block_number r < ex_number ?e"
      using spec_consensus_number later by (fastforce simp: number_extracted)
  qed
  moreover have "rows_below_cursor (block_effect ?e ts d)" by (rule rows_below_cursor_step [OF inv(1) wf above])
  moreover have "keys_unique (block_effect ?e ts d)" "counts_exact (block_effect ?e ts d)"
    using keys.keeps inv above counts.keeps by auto
  ultimately show ?thesis
    using rep p later tx_types_step [OF inv(1) wf above] transfers_step [OF inv(1) wf above] address_txs_step [OF inv(1) wf above]
    by (auto simp: represents_def sorted_wrt_append number_extracted spec_cursor_def)
qed

section \<open>The refinement\<close>

lemma represents_new: "represents fns blocks d \<Longrightarrow> fst (spec_index_block p blocks) \<longleftrightarrow> \<not> at_or_below_cursor d (number_of p)"
  by (auto simp: represents_def at_or_below_spec)

lemma spec_index_block_False: "spec_index_block p blocks = (False, blocks)" if "\<not> fst (spec_index_block p blocks)"
  using that by (auto simp: spec_index_block_def split: option.splits)

lemma spec_index_block_True: "spec_index_block p blocks = (True, blocks @ [p])" if "fst (spec_index_block p blocks)"
  using that by (auto simp: spec_index_block_def split: option.splits)

lemma represents_index_block:
  assumes "represents fns blocks (cn_committed c)" and "cn_tx c = None" and "block_sizes_ok (fst p) (snd p)"
    and "index_block (extracted fns p) ts c = (r, c')"
  shows "cn_tx c' = None \<and>
    (case r of
       Inl _ \<Rightarrow> represents fns blocks (cn_committed c')
     | Inr b \<Rightarrow> b = fst (spec_index_block p blocks) \<and>
         represents fns (snd (spec_index_block p blocks)) (cn_committed c'))"
proof -
  note new = represents_new [OF assms(1), of p]
  from index_block_outcome [OF assms(2,4)] show ?thesis
  proof (elim conjE disjE exE)
    assume r: "r = Inr True" "\<not> at_or_below_cursor (cn_committed c) (ex_number (extracted fns p))" "cn_tx c' = None"
      "cn_committed c' = block_effect (extracted fns p) ts (cn_committed c)"
    with new have n: "fst (spec_index_block p blocks)" by (simp add: number_extracted)
    from represents_step [OF assms(1,3) n] r show ?thesis by (simp add: spec_index_block_True [OF n])
  next
    assume r: "r = Inr False" "at_or_below_cursor (cn_committed c) (ex_number (extracted fns p))"
      "cn_tx c' = None" "cn_committed c' = cn_committed c"
    with new have n: "\<not> fst (spec_index_block p blocks)" by (simp add: number_extracted)
    with r assms(1) show ?thesis by (simp add: spec_index_block_False [OF n])
  next
    fix err assume "r = Inl err" "cn_tx c' = None" "cn_committed c' = cn_committed c"
    with assms(1) show ?thesis by simp
  qed
qed

text \<open>C1: the writer refines the list of indexed blocks. When the committed database represents a
  list of blocks, one \<open>index_block\<close> of an extracted block, from any idle connection and whatever
  statement fails in it, either returns an error and the database represents the same list, or
  returns the boolean the specification returns and represents the specification's next list:
  the block appended when its number is above the last one's, the same list otherwise.\<close>

theorem index_block_refines:
  assumes "represents fns blocks (cn_committed c)" and "cn_tx c = None" and "block_sizes_ok (fst p) (snd p)"
    and "index_block (extracted fns p) ts c = (r, c')"
  shows "cn_tx c' = None \<and>
    (case r of
       Inl _ \<Rightarrow> represents fns blocks (cn_committed c')
     | Inr b \<Rightarrow> b = fst (spec_index_block p blocks) \<and>
         represents fns (snd (spec_index_block p blocks)) (cn_committed c'))"
  by (rule represents_index_block [OF assms])

lemma index_block_refines_witness:
  "\<exists>c'. index_block (extracted sample_fns (sample_block 1, sample_receipts)) [] sample_conn = (Inr True, c') \<and>
     represents sample_fns [(sample_block 1, sample_receipts)] (cn_committed c')"
proof -
  have p: "extracted sample_fns (sample_block 1, sample_receipts) = sample_extracted 1"
    by (simp add: extracted_def sample_extract)
  obtain c' where i: "index_block (sample_extracted 1) [] sample_conn = (Inr True, c')"
    using index_block_succeeds [OF sample_ready, of "sample_extracted 1" "[]"] sample_fits [of 1]
    by (auto simp: sample_conn_def sample_db_def empty_db_def cursor_readable_def fits_i64_def at_or_below_cursor_def cursor_of_def)
  have "represents sample_fns [] (cn_committed sample_conn)"
    by (rule represents_blank) (simp add: sample_conn_def sample_db_def blank_def empty_db_def)
  from index_block_refines [OF this _ _ i [folded p]] show ?thesis
    using i p by (simp add: sample_conn_def block_sizes_ok_def sample_block_def sample_receipts_def spec_index_block_def spec_cursor_def)
qed

end
