(* ===== verification/Status.thy ===== *)
theory Status
  imports Prelude
begin

text \<open>
  \<open>src/status.rs\<close>: the health record the indexing loop writes and the API reads. Each operation
  is one atomic access; \<open>fetch_max\<close> keeps the larger value.
\<close>

record indexer_status =
  is_last_indexed_plus_one :: u64
  is_node_tip :: u64
  is_live :: bool

definition default_status :: indexer_status where
  "default_status = \<lparr>is_last_indexed_plus_one = 0, is_node_tip = 0, is_live = False\<rparr>"

definition set_last_indexed :: "u64 \<Rightarrow> indexer_status \<Rightarrow> indexer_status" where
  "set_last_indexed block s =
     s\<lparr>is_last_indexed_plus_one := max (is_last_indexed_plus_one s) (saturating_add block 1)\<rparr>"

definition status_last_indexed :: "indexer_status \<Rightarrow> u64 option" where
  "status_last_indexed s =
     (if is_last_indexed_plus_one s = 0 then None else Some (is_last_indexed_plus_one s - 1))"

definition set_node_tip :: "u64 \<Rightarrow> indexer_status \<Rightarrow> indexer_status" where
  "set_node_tip tip s = s\<lparr>is_node_tip := max (is_node_tip s) tip\<rparr>"

definition node_tip :: "indexer_status \<Rightarrow> u64" where
  "node_tip s = is_node_tip s"

definition live :: "indexer_status \<Rightarrow> bool" where
  "live s = is_live s"

definition lag :: "indexer_status \<Rightarrow> u64" where
  "lag s = saturating_sub (node_tip s) (case status_last_indexed s of Some n \<Rightarrow> n | None \<Rightarrow> 0)"

definition set_live :: "bool \<Rightarrow> indexer_status \<Rightarrow> indexer_status" where
  "set_live b s = s\<lparr>is_live := b\<rparr>"

text \<open>
  \<open>LiveGuard\<close>: the guarded computation runs with \<open>live\<close> set, and whatever way it ends the guard's
  drop clears it.
\<close>

definition live_guarded ::
  "(('w \<Rightarrow> 'w)) \<Rightarrow> ('w \<Rightarrow> 'w) \<Rightarrow> ('w, 'a) act \<Rightarrow> ('w, 'a) act" where
  "live_guarded acquire release m w = (case m (acquire w) of (r, w') \<Rightarrow> (r, release w'))"

text \<open>\<open>set_last_indexed\<close> records a maximum, and reads back what was recorded.\<close>

lemma plus_one_unat: "unat n < 2 ^ 64 - 1 \<Longrightarrow> saturating_add n 1 = n + 1 \<and> unat (n + 1 :: u64) = unat n + 1"
  by (simp add: word_unat_eq_iff unat_saturating_add unat_word_ariths)

lemma status_last_indexed_set:
  assumes "unat n < 2 ^ 64 - 1"
  shows "status_last_indexed (set_last_indexed n s) =
    (case status_last_indexed s of None \<Rightarrow> Some n | Some m \<Rightarrow> Some (max m n))"
proof -
  note p = plus_one_unat [OF assms]
  have pos: "n + 1 \<noteq> 0" using p by (auto simp: word_unat_eq_iff)
  show ?thesis
  proof (cases "is_last_indexed_plus_one s = 0")
    case True
    with p pos show ?thesis by (simp add: status_last_indexed_def set_last_indexed_def max_def)
  next
    case False
    then have q: "unat (is_last_indexed_plus_one s - 1) + 1 = unat (is_last_indexed_plus_one s)"
      using unat_pred [of "is_last_indexed_plus_one s"] by (simp add: unat_gt_0)
    have "(is_last_indexed_plus_one s \<le> n + 1) = (is_last_indexed_plus_one s - 1 \<le> n)"
      unfolding word_le_nat_alt using p q by linarith
    with False pos p show ?thesis
      by (auto simp: status_last_indexed_def set_last_indexed_def max_def)
  qed
qed

end
