(* ===== verification/Node_Env.thy ===== *)
theory Node_Env
  imports Extract
begin

text \<open>
  The node's interfaces that \<open>src/node_reads.rs\<close> reads: the execution side \<open>RethEnv\<close> and the
  consensus side \<open>ConsensusChain\<close>. Neither is code of the repository, so each is a record of
  functions, a parameter of every reader, answering for the state in which a request is served.
  The types of the node are records of what the code reads of them.
\<close>

section \<open>Execution side\<close>

datatype evm_read_error = Revert bytes "string option" | Internal string

record tx_entry =
  te_block_number :: u64
  te_index :: u64
  te_timestamp :: u64
  te_transaction :: transaction
  te_sender :: address

record tx_meta =
  tm_block_number :: u64
  tm_index :: u64
  tm_base_fee :: "u64 option"
  tm_timestamp :: u64

record account =
  ac_balance :: u256
  ac_nonce :: u64

record sealed_block =
  sb_hash :: b256
  sb_header :: exec_header
  sb_transactions :: "transaction list"
  sb_rlp_length :: u64

record validator_info =
  vi_address :: address
  vi_activation_epoch :: u32
  vi_exit_epoch :: u32
  vi_current_status :: u8
  vi_is_retired :: bool
  vi_stake_version :: u8
  vi_region :: u8

record epoch_state =
  es_epoch :: u32
  es_epoch_duration :: u32
  es_block_height :: u64
  es_validators :: "validator_info list"

record reth_env =
  re_total_transactions :: "report + u64"
  re_transactions_by_tx_range_with_meta :: "u64 \<Rightarrow> u64 \<Rightarrow> report + tx_entry list"
  re_receipts_by_block :: "u64 \<Rightarrow> report + receipt list option"
  re_sealed_header_by_number :: "u64 \<Rightarrow> report + exec_header option"
  re_sealed_header_by_hash :: "b256 \<Rightarrow> report + exec_header option"
  re_header_by_number :: "u64 \<Rightarrow> report + exec_header option"
  re_sealed_block_by_number :: "u64 \<Rightarrow> report + sealed_block option"
  re_replay_block_as_chain :: "u64 \<Rightarrow> report + (recovered_block \<times> receipt list) list option"
  re_transaction_by_hash_with_meta :: "b256 \<Rightarrow> report + ((transaction \<times> address) \<times> tx_meta) option"
  re_receipt_by_hash_with_gas_used :: "b256 \<Rightarrow> report + (receipt \<times> u64) option"
  re_retrieve_account :: "address \<Rightarrow> report + account option"
  re_account_code :: "address \<Rightarrow> report + bytes option"
  re_read_contract :: "address \<Rightarrow> bytes \<Rightarrow> evm_read_error + bytes"
  re_last_block_number :: "report + u64"
  re_blocks_for_range :: "u64 \<Rightarrow> u64 \<Rightarrow> report + exec_header list"
  re_epoch_state_from_canonical_tip :: "report + epoch_state"
  re_epoch_state_at_header :: "exec_header \<Rightarrow> report + epoch_state"
  re_get_gas_price :: "report + u128"
  re_chain_id :: u64
  re_canonical_tip :: exec_header

text \<open>The ABI decoders of the \<open>alloy\<close> crate; an error is \<open>None\<close>.\<close>

record abi_fns =
  abi_decode_string :: "bytes \<Rightarrow> string option"
  abi_decode_u16 :: "bytes \<Rightarrow> u16 option"
  abi_decode_u256 :: "bytes \<Rightarrow> u256 option"

section \<open>Consensus side\<close>

type_synonym authority = b256
type_synonym bls_key = bytes

record num_hash =
  nh_number :: u64
  nh_hash :: b256

record primary_header =
  ph_digest :: b256
  ph_author :: authority
  ph_round :: u32
  ph_epoch :: u32
  ph_created_at :: u64
  ph_parents :: "b256 list"
  ph_payload :: "(b256 \<times> u16) list"
  ph_latest_execution_block :: num_hash

record reputation_scores =
  rs_authorities_by_score_desc :: "(authority \<times> u64) list"
  rs_final_of_schedule :: bool

record committed_sub_dag =
  sd_headers :: "primary_header list"
  sd_leader :: primary_header
  sd_leader_epoch :: u32
  sd_leader_round :: u32
  sd_commit_timestamp :: u64
  sd_num_primary_batches :: u64
  sd_randomness :: b256
  sd_reputation_scores :: reputation_scores

record consensus_header =
  ch_number :: u64
  ch_digest :: b256
  ch_parent_hash :: b256
  ch_sub_dag :: committed_sub_dag
  ch_extra :: b256

record batch =
  ba_transactions :: "bytes list"
  ba_digest :: b256
  ba_worker_id :: u16
  ba_beneficiary :: address
  ba_base_fee_per_gas :: u64
  ba_size :: u64

record certified_batch =
  ce_address :: address
  ce_batches :: "batch list"

record consensus_output =
  co_consensus_header :: consensus_header
  co_consensus_header_hash :: b256
  co_number :: u64
  co_sub_dag :: committed_sub_dag
  co_batches :: "certified_batch list"
  co_flatten_batches :: "(nat \<times> nat) list"
  co_get_batch_digest :: "nat \<Rightarrow> b256 option"

record epoch_record =
  er_epoch :: u32
  er_digest :: b256
  er_parent_hash :: b256
  er_committee :: "bls_key list"
  er_next_committee :: "bls_key list"
  er_final_state :: num_hash
  er_final_consensus :: num_hash
  er_super_quorum :: u64

record epoch_certificate =
  ec_epoch_hash :: b256
  ec_signature :: bytes
  ec_signed_authorities :: "u32 list"

record consensus_chain =
  cc_latest_consensus_number :: u64
  cc_latest_consensus_epoch :: u32
  cc_consensus_output_by_number :: "u64 \<Rightarrow> report + consensus_output option"
  cc_consensus_header_by_number :: "u64 \<Rightarrow> report + consensus_header option"
  cc_consensus_header_by_digest :: "u32 \<Rightarrow> b256 \<Rightarrow> report + consensus_header option"
  cc_get_epoch_by_number :: "u32 \<Rightarrow> (epoch_record \<times> epoch_certificate option) option"
  cc_record_by_epoch :: "u32 \<Rightarrow> epoch_record option"
  cc_get_committee_keys :: "u32 \<Rightarrow> bls_key list option"
  cc_is_epoch_complete :: "epoch_record \<Rightarrow> bool"
  cc_read_last_committed :: "u32 \<Rightarrow> report + (authority \<times> u32) list"
  cc_read_latest_commit_with_final_reputation_scores :: "u32 \<Rightarrow> report + committed_sub_dag option"
  cc_verify_with_cert :: "epoch_record \<Rightarrow> epoch_certificate \<Rightarrow> bool"

text \<open>
  \<open>NodeReader\<close>: both handles. Its semaphore delays a read until one of
  \<open>MAX_CONCURRENT_NODE_READS\<close> permits is free and never rejects one (theory \<open>Read_Seam\<close>), so \<open>NodeReader::read\<close> is
  the closure it runs, applied to the execution handle.
\<close>

record node_reader =
  nr_reth :: reth_env
  nr_consensus :: consensus_chain
  nr_abi :: abi_fns

definition MAX_CONCURRENT_NODE_READS :: nat where
  "MAX_CONCURRENT_NODE_READS = 64"

definition node_read :: "(reth_env \<Rightarrow> report + 'a) \<Rightarrow> node_reader \<Rightarrow> report + 'a" where
  "node_read f reader = f (nr_reth reader)"

end
