(* ===== verification/Node_Reads.thy ===== *)
theory Node_Reads
  imports Node_Env Storage_Reads
begin

text \<open>
  \<open>src/node_reads.rs\<close>: the read-only view of the node. Every reader is a chain of fallible reads
  over the node's interfaces, with the code's error at each \<open>?\<close>.
\<close>

section \<open>Transactions\<close>

record tx_data =
  td_sender :: address
  td_tx :: transaction
  td_success :: bool
  td_gas_used :: u64
  td_block_number :: u64
  td_tx_index :: u64
  td_base_fee :: "u64 option"
  td_timestamp :: u64

definition own_gas_used :: "receipt list \<Rightarrow> nat \<Rightarrow> u64" where
  "own_gas_used receipts index =
     (let cumulative = (case slice_get receipts index of Some r \<Rightarrow> rc_cumulative_gas_used r | None \<Rightarrow> 0)
      in case (if index = 0 then None else slice_get receipts (index - 1)) of
           Some prev \<Rightarrow> saturating_sub cumulative (rc_cumulative_gas_used prev)
         | None \<Rightarrow> cumulative)"

definition distinct_blocks :: "tx_pointer list \<Rightarrow> u64 list" where
  "distinct_blocks pointers = fold (\<lambda>p out. push_new (tp_block_number p) out) pointers []"

text \<open>The receipts and base fee of each distinct block of the feed page, fetched once.\<close>

fun page_blocks ::
  "reth_env \<Rightarrow> tx_entry list \<Rightarrow> (u64, receipt list \<times> u64 option) btree_map \<Rightarrow>
   report + (u64, receipt list \<times> u64 option) btree_map" where
  "page_blocks env [] blocks = Inr blocks"
| "page_blocks env (e # es) blocks =
     (let n = te_block_number e
      in case bt_get n blocks of
           Some _ \<Rightarrow> page_blocks env es blocks
         | None \<Rightarrow>
             try_bind (try_bind (re_receipts_by_block env n) (ok_or (ReceiptsMissing n))) (\<lambda>receipts.
             try_bind (try_bind (re_sealed_header_by_number env n) (ok_or (HeaderMissing n))) (\<lambda>header.
               page_blocks env es (bt_insert n (receipts, eh_base_fee_per_gas header) blocks))))"

definition page_row :: "(u64, receipt list \<times> u64 option) btree_map \<Rightarrow> tx_entry \<Rightarrow> report + tx_data" where
  "page_row blocks e =
     try_bind (ok_or (BlockContextMissing (te_block_number e)) (bt_get (te_block_number e) blocks)) (\<lambda>(receipts, base_fee).
     try_bind (ok_or (ReceiptMissing (te_index e) (te_block_number e)) (slice_get receipts (unat (te_index e)))) (\<lambda>receipt.
       Inr \<lparr>td_sender = te_sender e, td_tx = te_transaction e, td_success = rc_success receipt,
            td_gas_used = own_gas_used receipts (unat (te_index e)), td_block_number = te_block_number e,
            td_tx_index = te_index e, td_base_fee = base_fee, td_timestamp = te_timestamp e\<rparr>))"

definition latest_txs_page :: "u64 \<Rightarrow> u64 \<Rightarrow> node_reader \<Rightarrow> report + (tx_data list \<times> u64)" where
  "latest_txs_page page per_page = node_read (\<lambda>env.
     try_bind (re_total_transactions env) (\<lambda>tot.
       case desc_page_bounds tot page per_page of
         None \<Rightarrow> Inr ([], tot)
       | Some (low, high) \<Rightarrow>
           try_bind (re_transactions_by_tx_range_with_meta env low high) (\<lambda>entries.
           try_bind (page_blocks env entries bt_empty) (\<lambda>blocks.
           try_bind (try_map (page_row blocks) (rev entries)) (\<lambda>out. Inr (out, tot))))))"

text \<open>Each distinct block of the pointers, replayed once.\<close>

fun replay_blocks ::
  "reth_env \<Rightarrow> u64 list \<Rightarrow> (u64, recovered_block \<times> receipt list) btree_map \<Rightarrow>
   report + (u64, recovered_block \<times> receipt list) btree_map" where
  "replay_blocks env [] blocks = Inr blocks"
| "replay_blocks env (n # ns) blocks =
     try_bind (try_bind (re_replay_block_as_chain env n) (ok_or (DanglingBlock n))) (\<lambda>chain.
     try_bind (ok_or (EmptyReplay n) (slice_get chain 0)) (\<lambda>first.
       replay_blocks env ns (bt_insert n first blocks)))"

definition hydrate_row :: "(u64, recovered_block \<times> receipt list) btree_map \<Rightarrow> tx_pointer \<Rightarrow> report + tx_data" where
  "hydrate_row blocks p =
     try_bind (ok_or (BlockContextMissing (tp_block_number p)) (bt_get (tp_block_number p) blocks)) (\<lambda>(block, receipts).
       let index = unat (tp_tx_index p)
       in try_bind (ok_or (DanglingTx (tp_tx_index p) (tp_block_number p))
            (slice_get (rb_transactions_with_sender block) index)) (\<lambda>(sender, tx).
          try_bind (ok_or (DanglingReceipt (tp_tx_index p) (tp_block_number p)) (slice_get receipts index)) (\<lambda>receipt.
            Inr \<lparr>td_sender = sender, td_tx = tx, td_success = rc_success receipt,
                 td_gas_used = own_gas_used receipts index, td_block_number = tp_block_number p,
                 td_tx_index = tp_tx_index p, td_base_fee = eh_base_fee_per_gas (rb_header block),
                 td_timestamp = eh_timestamp (rb_header block)\<rparr>)))"

definition hydrate_pointers :: "tx_pointer list \<Rightarrow> node_reader \<Rightarrow> report + tx_data list" where
  "hydrate_pointers pointers reader =
     (if pointers = [] then Inr []
      else node_read (\<lambda>env.
        try_bind (replay_blocks env (distinct_blocks pointers) bt_empty) (\<lambda>blocks.
          try_map (hydrate_row blocks) pointers)) reader)"

definition tx_by_hash :: "b256 \<Rightarrow> node_reader \<Rightarrow> report + tx_data option" where
  "tx_by_hash hash = node_read (\<lambda>env.
     try_bind (re_transaction_by_hash_with_meta env hash) (\<lambda>found.
       case found of
         None \<Rightarrow> Inr None
       | Some ((tx, sender), meta) \<Rightarrow>
           try_bind (re_receipt_by_hash_with_gas_used env hash) (\<lambda>r.
             case r of
               None \<Rightarrow> Inr None
             | Some (receipt, gas_used) \<Rightarrow>
                 Inr (Some \<lparr>td_sender = sender, td_tx = tx, td_success = rc_success receipt, td_gas_used = gas_used,
                            td_block_number = tm_block_number meta, td_tx_index = tm_index meta,
                            td_base_fee = tm_base_fee meta, td_timestamp = tm_timestamp meta\<rparr>))))"

section \<open>Accounts and contracts\<close>

definition account_summary :: "address \<Rightarrow> node_reader \<Rightarrow> report + (account option \<times> bytes option)" where
  "account_summary address = node_read (\<lambda>env.
     try_bind (re_retrieve_account env address) (\<lambda>account.
     try_bind (re_account_code env address) (\<lambda>code. Inr (account, code))))"

record token_metadata =
  md_name :: "string option"
  md_symbol :: "string option"
  md_decimals :: "u8 option"

definition any_decoded :: "token_metadata \<Rightarrow> bool" where
  "any_decoded m = (md_name m \<noteq> None \<or> md_symbol m \<noteq> None \<or> md_decimals m \<noteq> None)"

text \<open>\<open>String::from_utf8\<close>: the byte sequences the standard accepts; a string is its bytes.\<close>

definition cont :: "u8 \<Rightarrow> bool" where
  "cont b = (0x80 \<le> b \<and> b \<le> 0xBF)"

fun utf8_valid :: "bytes \<Rightarrow> bool" where
  "utf8_valid [] = True"
| "utf8_valid (a # bs) =
     (if a \<le> 0x7F then utf8_valid bs
      else case bs of
        [] \<Rightarrow> False
      | b # cs \<Rightarrow>
          if 0xC2 \<le> a \<and> a \<le> 0xDF then cont b \<and> utf8_valid cs
          else case cs of
            [] \<Rightarrow> False
          | c # ds \<Rightarrow>
              if a = 0xE0 then 0xA0 \<le> b \<and> b \<le> 0xBF \<and> cont c \<and> utf8_valid ds
              else if (0xE1 \<le> a \<and> a \<le> 0xEC) \<or> a = 0xEE \<or> a = 0xEF then cont b \<and> cont c \<and> utf8_valid ds
              else if a = 0xED then 0x80 \<le> b \<and> b \<le> 0x9F \<and> cont c \<and> utf8_valid ds
              else case ds of
                [] \<Rightarrow> False
              | d # es \<Rightarrow>
                  if a = 0xF0 then 0x90 \<le> b \<and> b \<le> 0xBF \<and> cont c \<and> cont d \<and> utf8_valid es
                  else if 0xF1 \<le> a \<and> a \<le> 0xF3 then cont b \<and> cont c \<and> cont d \<and> utf8_valid es
                  else if a = 0xF4 then 0x80 \<le> b \<and> b \<le> 0x8F \<and> cont c \<and> cont d \<and> utf8_valid es
                  else False)"

definition from_utf8 :: "bytes \<Rightarrow> string option" where
  "from_utf8 bs = (if utf8_valid bs then Some (map (\<lambda>b. char_of (unat b)) bs) else None)"

definition decode_string_return :: "abi_fns \<Rightarrow> bytes \<Rightarrow> string option" where
  "decode_string_return abi bs =
     (case abi_decode_string abi bs of
        Some decoded \<Rightarrow> (if decoded \<noteq> [] then Some decoded else None)
      | None \<Rightarrow>
          if length bs = 32 then
            (case from_utf8 (takeWhile (\<lambda>b. b \<noteq> 0) bs) of
               Some s \<Rightarrow> (if s \<noteq> [] then Some s else None)
             | None \<Rightarrow> None)
          else None)"

definition decode_decimals_return :: "abi_fns \<Rightarrow> bytes \<Rightarrow> u8 option" where
  "decode_decimals_return abi bs =
     (case abi_decode_u16 abi bs of
        None \<Rightarrow> None
      | Some wide \<Rightarrow> if wide \<le> 255 then Some (ucast wide) else None)"

definition HALT_MESSAGE_PREFIX :: string where
  "HALT_MESSAGE_PREFIX = ''contract call halted''"

definition read_metadata_bytes :: "reth_env \<Rightarrow> address \<Rightarrow> bytes \<Rightarrow> report + bytes option" where
  "read_metadata_bytes env token selector =
     (case re_read_contract env token selector of
        Inr bs \<Rightarrow> Inr (Some bs)
      | Inl (Revert _ _) \<Rightarrow> Inr None
      | Inl (Internal message) \<Rightarrow>
          if strip_prefix HALT_MESSAGE_PREFIX message \<noteq> None then Inr None
          else Inl (TokenMetadataReadFailed message))"

definition fetch_token_metadata :: "abi_fns \<Rightarrow> reth_env \<Rightarrow> address \<Rightarrow> report + token_metadata" where
  "fetch_token_metadata abi env token =
     try_bind (read_metadata_bytes env token SEL_NAME) (\<lambda>name.
     try_bind (read_metadata_bytes env token SEL_SYMBOL) (\<lambda>symbol.
     try_bind (read_metadata_bytes env token SEL_DECIMALS) (\<lambda>decimals.
       Inr \<lparr>md_name = Option.bind name (decode_string_return abi),
            md_symbol = Option.bind symbol (decode_string_return abi),
            md_decimals = Option.bind decimals (decode_decimals_return abi)\<rparr>)))"

definition fetch_total_supply :: "abi_fns \<Rightarrow> reth_env \<Rightarrow> address \<Rightarrow> report + string option" where
  "fetch_total_supply abi env token =
     try_bind (read_metadata_bytes env token SEL_TOTAL_SUPPLY) (\<lambda>b.
       Inr (map_option to_dec (Option.bind b (abi_decode_u256 abi))))"

definition token_metadata_of :: "address \<Rightarrow> node_reader \<Rightarrow> report + token_metadata" where
  "token_metadata_of token reader = node_read (\<lambda>env. fetch_token_metadata (nr_abi reader) env token) reader"

definition token_metadata_and_supply :: "address \<Rightarrow> node_reader \<Rightarrow> report + (token_metadata \<times> string option)" where
  "token_metadata_and_supply token reader = node_read (\<lambda>env.
     try_bind (fetch_token_metadata (nr_abi reader) env token) (\<lambda>metadata.
     try_bind (fetch_total_supply (nr_abi reader) env token) (\<lambda>supply. Inr (metadata, supply)))) reader"

definition token_supply :: "address \<Rightarrow> node_reader \<Rightarrow> report + string option" where
  "token_supply token reader = node_read (\<lambda>env. fetch_total_supply (nr_abi reader) env token) reader"

datatype call_outcome = Call_Success bytes | Call_Revert "string option" bytes

definition read_call :: "address \<Rightarrow> bytes \<Rightarrow> node_reader \<Rightarrow> report + call_outcome" where
  "read_call to data = node_read (\<lambda>env.
     case re_read_contract env to data of
       Inr result \<Rightarrow> Inr (Call_Success result)
     | Inl (Revert output reason) \<Rightarrow> Inr (Call_Revert reason output)
     | Inl (Internal message) \<Rightarrow> Inl (ContractReadFailed message))"

end
