(* ===== verification/Exex.thy ===== *)
theory Exex
  imports Storage_History Status Node_Reads
begin

text \<open>
  \<open>src/exex.rs\<close>: the indexing loop over the writer's connection and the shared status. What the
  node does meanwhile is the parameter \<open>node_view\<close>: one view per notification, with the tip it
  reports, the replay it streams and the token metadata it answers.
\<close>

section \<open>The loop's state and its node\<close>

record world =
  wo_conn :: conn
  wo_status :: indexer_status
  wo_reported :: "u64 list"

type_synonym chain = "(recovered_block \<times> receipt list) list"

datatype notification =
    ChainExecuted chain
  | Lagged u64
  | CertificateAccepted
  | ConsensusOutputSeen

record node_view =
  nv_chain_fns :: chain_fns
  nv_last_block_number :: "report + u64"
  nv_replay_from :: "u64 \<Rightarrow> report + (report + notification) list"
  nv_token_metadata :: "u64 \<Rightarrow> address \<Rightarrow> report + token_metadata"
  nv_unix_now :: "u64 \<Rightarrow> u64"

type_synonym 'a step = "(world, 'a) act"

definition on_writer :: "'a sql \<Rightarrow> 'a step" where
  "on_writer m w = (case m (wo_conn w) of (r, c) \<Rightarrow> (r, w\<lparr>wo_conn := c\<rparr>))"

definition on_status :: "(indexer_status \<Rightarrow> indexer_status) \<Rightarrow> unit step" where
  "on_status f w = (Inr (), w\<lparr>wo_status := f (wo_status w)\<rparr>)"

definition report_progress :: "unit step" where
  "report_progress w =
     (Inr (), case status_last_indexed (wo_status w) of
                Some height \<Rightarrow> w\<lparr>wo_reported := wo_reported w @ [height]\<rparr>
              | None \<Rightarrow> w)"

section \<open>Indexing a chain segment\<close>

text \<open>The row for one fetched token: status 0 when a field decoded, else 1.\<close>

definition token_row_for :: "node_view \<Rightarrow> u64 \<Rightarrow> address \<Rightarrow> token_metadata \<Rightarrow> token_row" where
  "token_row_for nv number token metadata =
     \<lparr>tw_address = token, tw_name = md_name metadata, tw_symbol = md_symbol metadata,
      tw_decimals = md_decimals metadata, tw_status = (if any_decoded metadata then 0 else 1),
      tw_fetched_at = nv_unix_now nv number\<rparr>"

fun fetch_rows :: "node_view \<Rightarrow> u64 \<Rightarrow> address list \<Rightarrow> token_row list \<Rightarrow> report + token_row list" where
  "fetch_rows nv number [] rows = Inr rows"
| "fetch_rows nv number (token # tokens) rows =
     try_bind (nv_token_metadata nv number token) (\<lambda>metadata.
       fetch_rows nv number tokens (rows @ [token_row_for nv number token metadata]))"

definition index_pair :: "node_view \<Rightarrow> recovered_block \<times> receipt list \<Rightarrow> unit step" where
  "index_pair nv pair =
     (let (block, receipts) = pair;
          extracted = extract_block (nv_chain_fns nv) block receipts;
          number = ex_number extracted
      in andthen (on_writer (token_fetch_states (ex_token_candidates extracted))) (\<lambda>need_fetch.
         andthen (from_result (fetch_rows nv number need_fetch [])) (\<lambda>token_rows.
         andthen (on_writer (index_block extracted token_rows)) (\<lambda>indexed.
         andthen (if indexed then on_status (set_last_indexed number) else ret ()) (\<lambda>_.
           on_status (set_node_tip number))))))"

definition index_chain :: "node_view \<Rightarrow> chain \<Rightarrow> unit step" where
  "index_chain nv chain = for_each (index_pair nv) chain"

section \<open>Catching up\<close>

definition replay_item :: "node_view \<Rightarrow> report + notification \<Rightarrow> unit step" where
  "replay_item nv result =
     andthen (from_result result) (\<lambda>n. case n of ChainExecuted new \<Rightarrow> index_chain nv new | _ \<Rightarrow> ret ())"

definition catch_up :: "node_view \<Rightarrow> unit step" where
  "catch_up nv =
     andthen (on_writer last_indexed) (\<lambda>cursor.
       let start = (case cursor of None \<Rightarrow> 0 | Some c \<Rightarrow> c + 1)
       in andthen (from_result (nv_last_block_number nv)) (\<lambda>tip.
          andthen (on_status (set_node_tip tip)) (\<lambda>_.
          andthen (from_result (nv_replay_from nv start)) (\<lambda>replay.
          andthen (for_each (replay_item nv) replay) (\<lambda>_. report_progress)))))"

section \<open>The loop\<close>

definition on_notification :: "node_view \<times> notification \<Rightarrow> unit step" where
  "on_notification event =
     (let (nv, notification) = event
      in case notification of
           ChainExecuted new \<Rightarrow> andthen (index_chain nv new) (\<lambda>_. report_progress)
         | Lagged missed \<Rightarrow> catch_up nv
         | CertificateAccepted \<Rightarrow> ret ()
         | ConsensusOutputSeen \<Rightarrow> ret ())"

text \<open>
  \<open>indexer_exex\<close>: open the writer and the read pool, load the cursor, and under the liveness
  guard catch up and follow the notifications until the channel closes.
\<close>

definition with_live_guard :: "'a step \<Rightarrow> 'a step" where
  "with_live_guard =
     live_guarded (\<lambda>w. w\<lparr>wo_status := set_live True (wo_status w)\<rparr>) (\<lambda>w. w\<lparr>wo_status := set_live False (wo_status w)\<rparr>)"

definition indexer_exex ::
  "u64 \<Rightarrow> report + unit \<Rightarrow> node_view \<Rightarrow> (node_view \<times> notification) list \<Rightarrow> unit step" where
  "indexer_exex chain_id read_pool nv events =
     andthen (on_writer (writer_open chain_id)) (\<lambda>_.
     andthen (from_result read_pool) (\<lambda>_.
     andthen (\<lambda>w. (Inr (), w\<lparr>wo_status := default_status\<rparr>)) (\<lambda>_.
     andthen (on_writer last_indexed) (\<lambda>cursor.
     andthen (case cursor of Some c \<Rightarrow> on_status (set_last_indexed c) | None \<Rightarrow> ret ()) (\<lambda>_.
       with_live_guard (andthen (catch_up nv) (\<lambda>_. for_each on_notification events)))))))"

end
