(* ===== verification/Exex_Correct.thy ===== *)
theory Exex_Correct
  imports Exex Storage_Schema
begin

text \<open>
  What the indexing loop keeps, whatever the node answers and wherever a statement fails: the
  status never runs ahead of the committed cursor, finished heights are committed, token rows
  that are settled stay, and the accepted blocks leave no gap when the node delivers none.
\<close>

section \<open>Triples over the loop's steps\<close>

definition hoare :: "('s \<Rightarrow> bool) \<Rightarrow> ('s, 'a) act \<Rightarrow> ('a \<Rightarrow> 's \<Rightarrow> bool) \<Rightarrow> ('s \<Rightarrow> bool) \<Rightarrow> bool" where
  "hoare P m Q E \<longleftrightarrow> (\<forall>s r s'. P s \<longrightarrow> m s = (r, s') \<longrightarrow> (case r of Inr x \<Rightarrow> Q x s' | Inl _ \<Rightarrow> E s'))"

lemma hoareD: "hoare P m Q E \<Longrightarrow> P s \<Longrightarrow> m s = (r, s') \<Longrightarrow> case r of Inr x \<Rightarrow> Q x s' | Inl _ \<Rightarrow> E s'"
  unfolding hoare_def by blast

lemma hoare_ret: "(\<And>s. P s \<Longrightarrow> Q x s) \<Longrightarrow> hoare P (ret x) Q E"
  by (simp add: hoare_def ret_def)

lemma hoare_from_result: "(\<And>s x. P s \<Longrightarrow> r = Inr x \<Longrightarrow> Q x s) \<Longrightarrow> (\<And>s. P s \<Longrightarrow> E s) \<Longrightarrow> hoare P (from_result r) Q E"
  by (auto simp: hoare_def from_result_def split: sum.splits)

lemma hoare_andthen:
  assumes "hoare P m Q E" "\<And>x. hoare (Q x) (k x) R E"
  shows "hoare P (andthen m k) R E"
  unfolding hoare_def
proof (intro allI impI)
  fix s r s'
  assume s: "P s" "andthen m k s = (r, s')"
  obtain r1 s1 where m: "m s = (r1, s1)" by (cases "m s")
  note t = hoareD [OF assms(1) s(1) m]
  show "case r of Inr x \<Rightarrow> R x s' | Inl _ \<Rightarrow> E s'"
  proof (cases r1)
    case (Inl e)
    with s(2) m t show ?thesis by (auto simp: andthen_def)
  next
    case (Inr x)
    with s(2) m have "k x s1 = (r, s')" by (simp add: andthen_def)
    with t Inr show ?thesis by (intro hoareD [OF assms(2)]) auto
  qed
qed

lemma hoare_for_each: "(\<And>x. x \<in> set xs \<Longrightarrow> hoare P (f x) (\<lambda>_. P) P) \<Longrightarrow> hoare P (for_each f xs) (\<lambda>_. P) P"
  by (induction xs) (auto intro!: hoare_ret hoare_andthen [where Q = "\<lambda>_. P"])

lemma hoare_weaken:
  assumes "hoare P m Q E" "\<And>s. P' s \<Longrightarrow> P s" "\<And>x s. Q x s \<Longrightarrow> Q' x s" "\<And>s. E s \<Longrightarrow> E' s"
  shows "hoare P' m Q' E'"
  unfolding hoare_def
proof (intro allI impI)
  fix s r s'
  assume "P' s" "m s = (r, s')"
  from hoareD [OF assms(1) assms(2) [OF this(1)] this(2)] show "case r of Inr x \<Rightarrow> Q' x s' | Inl _ \<Rightarrow> E' s'"
    using assms(3,4) by (cases r) auto
qed

section \<open>One block\<close>

abbreviation wo_db :: "world \<Rightarrow> db" where
  "wo_db w \<equiv> cn_committed (wo_conn w)"

lemma triple_token_fetch_states:
  "triple False (\<lambda>d. d = d0) (token_fetch_states candidates)
     (\<lambda>out d. d = d0 \<and> out = filter (token_pending d0) candidates) (\<lambda>_ d. d = d0)"
proof -
  have loop: "triple False (\<lambda>d. d = d0) (fetch_states_loop cs out)
      (\<lambda>res d. d = d0 \<and> res = out @ filter (token_pending d0) cs) (\<lambda>_ d. d = d0)" for cs out
  proof (induction cs arbitrary: out)
    case Nil
    then show ?case by (simp add: triple_ret)
  next
    case (Cons a cs)
    let ?out = "\<lambda>status. if status = None \<or> status = Some 1 then out @ [a] else out"
    have "triple False (\<lambda>d. d = d0) (token_status a)
        (\<lambda>status d. d = d0 \<and> status = map_option tk_status (db_tokens d0 (addr_hex a))) (\<lambda>_ d. d = d0)"
      unfolding token_status_def by (rule triple_query) auto
    then have "triple False (\<lambda>d. d = d0) (token_status a)
        (\<lambda>status d. d = d0 \<and> ?out status = out @ (if token_pending d0 a then [a] else [])) (\<lambda>_ d. d = d0)"
      by (rule triple_weaken) (auto simp: token_pending_def split: option.splits)
    moreover have "triple False (\<lambda>d. d = d0 \<and> ?out status = out @ (if token_pending d0 a then [a] else []))
        (fetch_states_loop cs (?out status)) (\<lambda>res d. d = d0 \<and> res = out @ filter (token_pending d0) (a # cs)) (\<lambda>_ d. d = d0)"
      for status
    proof (cases "?out status = out @ (if token_pending d0 a then [a] else [])")
      case True
      show ?thesis by (rule triple_weaken [OF Cons [of "?out status"]]) (use True in auto)
    next
      case False
      then show ?thesis by (simp add: triple_def)
    qed
    ultimately show ?case by (simp only: fetch_states_loop.simps) (rule triple_andthen)
  qed
  show ?thesis
    unfolding token_fetch_states_def
    by (rule triple_andthen [where Q = "\<lambda>_ d. d = d0"]) (auto intro: triple_prepare triple_weaken [OF loop])
qed

lemma fetch_rows_Inr:
  "fetch_rows nv n tokens rows = Inr out \<Longrightarrow>
   map tw_address out = map tw_address rows @ tokens \<and>
   (list_all (\<lambda>t. tw_status t \<in> {0, 1}) rows \<longrightarrow> list_all (\<lambda>t. tw_status t \<in> {0, 1}) out)"
proof (induction nv n tokens rows rule: fetch_rows.induct)
  case (1 nv n rows)
  then show ?case by simp
next
  case (2 nv n token tokens rows)
  then obtain md where "nv_token_metadata nv n token = Inr md"
    "fetch_rows nv n tokens (rows @ [token_row_for nv n token md]) = Inr out"
    by (auto simp: try_bind_Inr_iff)
  with "2.IH" show ?case by (auto simp: token_row_for_def)
qed

lemma fetch_rows_row:
  "fetch_rows nv n tokens rows = Inr out \<Longrightarrow>
   set rows \<subseteq> set out \<and> (\<forall>a \<in> set tokens. \<exists>md. nv_token_metadata nv n a = Inr md \<and> token_row_for nv n a md \<in> set out)"
proof (induction nv n tokens rows rule: fetch_rows.induct)
  case (2 nv n token tokens rows)
  then obtain md where md: "nv_token_metadata nv n token = Inr md"
    "fetch_rows nv n tokens (rows @ [token_row_for nv n token md]) = Inr out"
    by (auto simp: try_bind_Inr_iff)
  from "2.IH" [OF md(2)] md(1) show ?case by auto
qed simp

lemma distinct_candidates: "distinct (ex_token_candidates (extract_block fns block receipts))"
  by (simp add: extract_block_def Let_def extract_txs_eq first_seen_def [symmetric])

text \<open>The outcome of \<open>index_pair\<close> on a world whose writer is idle.\<close>

lemma index_pair_outcome:
  assumes idle: "cn_tx (wo_conn w) = None" and run: "index_pair nv (block, receipts) w = (r, w')"
  defines "e \<equiv> extract_block (nv_chain_fns nv) block receipts"
  shows "cn_tx (wo_conn w') = None \<and> wo_reported w' = wo_reported w \<and> is_live (wo_status w') = is_live (wo_status w) \<and>
    (r = Inr () \<and> (\<exists>ts. well_fetched (wo_db w) ts \<and> wo_db w' = block_effect e ts (wo_db w) \<and>
         fetch_rows nv (ex_number e) (filter (token_pending (wo_db w)) (ex_token_candidates e)) [] = Inr ts) \<and>
       \<not> at_or_below_cursor (wo_db w) (ex_number e) \<and>
       is_last_indexed_plus_one (wo_status w') =
         max (is_last_indexed_plus_one (wo_status w)) (saturating_add (ex_number e) 1) \<or>
     (r = Inr () \<longrightarrow> at_or_below_cursor (wo_db w) (ex_number e)) \<and> wo_db w' = wo_db w \<and>
       is_last_indexed_plus_one (wo_status w') = is_last_indexed_plus_one (wo_status w))"
proof -
  have step: "index_pair nv (block, receipts) =
     andthen (on_writer (token_fetch_states (ex_token_candidates e))) (\<lambda>need_fetch.
     andthen (from_result (fetch_rows nv (ex_number e) need_fetch [])) (\<lambda>token_rows.
     andthen (on_writer (index_block e token_rows)) (\<lambda>indexed.
     andthen (if indexed then on_status (set_last_indexed (ex_number e)) else ret ()) (\<lambda>_.
       on_status (set_node_tip (ex_number e))))))"
    by (simp only: index_pair_def Let_def prod.case e_def)
  note run = run [unfolded step]
  obtain r1 c1 where t: "token_fetch_states (ex_token_candidates e) (wo_conn w) = (r1, c1)"
    by (cases "token_fetch_states (ex_token_candidates e) (wo_conn w)")
  note tt = tripleD [OF triple_token_fetch_states idle _ refl t]
  show ?thesis
  proof (cases r1)
    case (Inl err)
    with run t tt show ?thesis
      by (auto simp: andthen_def on_writer_def)
  next
    case (Inr need)
    with tt have c1: "cn_tx c1 = None" "cn_committed c1 = wo_db w" "need = filter (token_pending (wo_db w)) (ex_token_candidates e)"
      by auto
    show ?thesis
    proof (cases "fetch_rows nv (ex_number e) need []")
      case (Inl err)
      with run t Inr c1 show ?thesis
        by (auto simp: andthen_def on_writer_def from_result_def)
    next
      case ts: (Inr ts)
      from fetch_rows_Inr [OF ts] c1(3) distinct_candidates
      have wf: "well_fetched (wo_db w) ts"
        by (auto simp: well_fetched_def e_def list_all_iff dest!: arg_cong [where f = set])
      obtain r2 c2 where i: "index_block e ts c1 = (r2, c2)" by (cases "index_block e ts c1")
      note o = index_block_outcome [OF c1(1) i, unfolded c1(2)]
      have run': "(case r2 of Inl err \<Rightarrow> (Inl err, w\<lparr>wo_conn := c2\<rparr>)
        | Inr indexed \<Rightarrow> andthen (if indexed then on_status (set_last_indexed (ex_number e)) else ret ())
            (\<lambda>_. on_status (set_node_tip (ex_number e))) (w\<lparr>wo_conn := c2\<rparr>)) = (r, w')"
        using run t Inr ts i
        by (auto simp: andthen_def on_writer_def from_result_def
            split: sum.splits)
      show ?thesis
        using run' o wf ts [unfolded c1(3)]
        by (auto simp: andthen_def on_status_def ret_def set_last_indexed_def set_node_tip_def split: sum.splits if_splits)
    qed
  qed
qed

section \<open>The status mirrors the cursor\<close>

definition cursor_plus_one :: "db \<Rightarrow> u64" where
  "cursor_plus_one d = (case cursor_of d of None \<Rightarrow> 0 | Some c \<Rightarrow> saturating_add c 1)"

definition mirrors :: "world \<Rightarrow> bool" where
  "mirrors w \<longleftrightarrow> cn_tx (wo_conn w) = None \<and>
     is_last_indexed_plus_one (wo_status w) = cursor_plus_one (wo_db w) \<and>
     list_all (below_cursor (wo_db w)) (wo_reported w)"

text \<open>Settled token rows stay as they are.\<close>

definition settled_kept :: "db \<Rightarrow> db \<Rightarrow> bool" where
  "settled_kept d0 d \<longleftrightarrow>
     (\<forall>a t. db_tokens d0 (addr_hex a) = Some t \<longrightarrow> tk_status t \<noteq> 1 \<longrightarrow> db_tokens d (addr_hex a) = Some t)"

lemma settled_kept_step:
  assumes "settled_kept d0 d" "well_fetched d ts"
  shows "settled_kept d0 (block_effect e ts d)"
  unfolding settled_kept_def
proof (intro allI impI)
  fix a t
  assume t: "db_tokens d0 (addr_hex a) = Some t" "tk_status t \<noteq> 1"
  with assms(1) have d: "db_tokens d (addr_hex a) = Some t" by (simp add: settled_kept_def)
  with t(2) have "\<not> token_pending d a" by (simp add: token_pending_def)
  with assms(2) have "addr_hex a \<notin> addr_hex ` tw_address ` set ts"
    by (auto simp: well_fetched_def list_all_iff)
  with d show "db_tokens (block_effect e ts d) (addr_hex a) = Some t"
    by (simp add: block_effect_def put_tokens_untouched)
qed

lemma saturating_add_mono: "c \<le> n \<Longrightarrow> saturating_add c 1 \<le> (saturating_add n 1 :: u64)"
  by (simp add: word_le_nat_alt unat_saturating_add)

lemma cursor_plus_one_step:
  assumes "\<not> at_or_below_cursor d (ex_number e)"
  shows "max (cursor_plus_one d) (saturating_add (ex_number e) 1) = cursor_plus_one (block_effect e ts d)"
proof -
  have "cursor_plus_one d \<le> saturating_add (ex_number e) 1"
    using assms saturating_add_mono
    by (auto simp: cursor_plus_one_def at_or_below_cursor_def not_le less_imp_le split: option.splits)
  then show ?thesis by (simp add: cursor_plus_one_def)
qed

lemma below_cursor_step:
  assumes "\<not> at_or_below_cursor d (ex_number e)" "below_cursor d n"
  shows "below_cursor (block_effect e ts d) n"
  using below_new [OF assms] by (simp add: less_imp_le)

text \<open>The invariant of the loop, relative to the database it started from.\<close>

definition loop_ok :: "db \<Rightarrow> world \<Rightarrow> bool" where
  "loop_ok d0 w \<longleftrightarrow> mirrors w \<and> settled_kept d0 (wo_db w)"

lemma loop_ok_index_pair: "hoare (loop_ok d0) (index_pair nv pair) (\<lambda>_. loop_ok d0) (loop_ok d0)"
  unfolding hoare_def
proof (intro allI impI)
  fix w r w'
  assume ok: "loop_ok d0 w" and run: "index_pair nv pair w = (r, w')"
  obtain block receipts where p: "pair = (block, receipts)" by (cases pair)
  have idle: "cn_tx (wo_conn w) = None" using ok by (simp add: loop_ok_def mirrors_def)
  let ?e = "extract_block (nv_chain_fns nv) block receipts"
  note o = index_pair_outcome [OF idle run [unfolded p]]
  have "loop_ok d0 w'"
  proof (cases "wo_db w' = wo_db w \<and> is_last_indexed_plus_one (wo_status w') = is_last_indexed_plus_one (wo_status w)")
    case True
    with o ok show ?thesis by (auto simp: loop_ok_def mirrors_def)
  next
    case False
    with o obtain ts where ts: "well_fetched (wo_db w) ts" "wo_db w' = block_effect ?e ts (wo_db w)"
      "\<not> at_or_below_cursor (wo_db w) (ex_number ?e)"
      "is_last_indexed_plus_one (wo_status w') = max (is_last_indexed_plus_one (wo_status w)) (saturating_add (ex_number ?e) 1)"
      by blast
    have "list_all (below_cursor (block_effect ?e ts (wo_db w))) (wo_reported w)"
      using ok below_cursor_step [OF ts(3)] by (auto simp: loop_ok_def mirrors_def list_all_iff)
    with ok o ts show ?thesis
      using cursor_plus_one_step [OF ts(3), of ts] settled_kept_step [OF _ ts(1)]
      unfolding loop_ok_def mirrors_def by metis
  qed
  then show "case r of Inl _ \<Rightarrow> loop_ok d0 w' | Inr _ \<Rightarrow> loop_ok d0 w'" by (cases r) auto
qed

lemma status_last_indexed_mirror:
  assumes "mirrors w" "status_last_indexed (wo_status w) = Some n"
  shows "below_cursor (wo_db w) n"
proof (cases "cursor_of (wo_db w)")
  case None
  with assms show ?thesis by (simp add: mirrors_def cursor_plus_one_def status_last_indexed_def)
next
  case (Some c)
  with assms have n: "n = saturating_add c 1 - 1" "saturating_add c 1 \<noteq> 0"
    by (auto simp: mirrors_def cursor_plus_one_def status_last_indexed_def split: if_splits)
  then have "unat n = unat (saturating_add c 1) - 1" using unat_pred [of "saturating_add c 1"] by (simp add: unat_gt_0)
  then have "n \<le> c" by (simp add: word_le_nat_alt unat_saturating_add)
  with Some show ?thesis by (simp add: below_cursor_def)
qed

lemma loop_ok_report: "hoare (loop_ok d0) report_progress (\<lambda>_. loop_ok d0) (loop_ok d0)"
  using status_last_indexed_mirror
  by (fastforce simp: hoare_def report_progress_def loop_ok_def mirrors_def split: option.splits)

lemma triple_read_cursor:
  "triple False (\<lambda>d. d = d0) read_cursor (\<lambda>c d. d = d0 \<and> c = cursor_of d0) (\<lambda>_ d. d = d0)"
proof -
  have meta: "triple False (\<lambda>d. d = d0) (read_meta ''last_indexed'') (\<lambda>raw d. d = d0 \<and> db_meta d0 ''last_indexed'' = raw) (\<lambda>_ d. d = d0)"
    unfolding read_meta_def
    by (rule triple_andthen [where Q = "\<lambda>_ d. d = d0"]) (auto intro!: triple_prepare triple_query)
  show ?thesis
    unfolding read_cursor_def
  proof (rule triple_andthen [OF meta])
    fix raw
    show "triple False (\<lambda>d. d = d0 \<and> db_meta d0 ''last_indexed'' = raw)
      (case raw of None \<Rightarrow> ret None
       | Some r \<Rightarrow> (case parse_u64 r of Some n \<Rightarrow> ret (Some n) | None \<Rightarrow> fail (CorruptLastIndexed r)))
      (\<lambda>c d. d = d0 \<and> c = cursor_of d0) (\<lambda>_ d. d = d0)"
      by (auto simp: cursor_of_def intro!: triple_ret triple_fail split: option.splits)
  qed
qed

lemma loop_ok_last_indexed:
  "hoare (loop_ok d0) (on_writer last_indexed) (\<lambda>c w. loop_ok d0 w \<and> c = cursor_of (wo_db w)) (loop_ok d0)"
  unfolding hoare_def
proof (intro allI impI)
  fix w r w'
  assume ok: "loop_ok d0 w" and run: "on_writer last_indexed w = (r, w')"
  obtain r1 c1 where t: "read_cursor (wo_conn w) = (r1, c1)" by (cases "read_cursor (wo_conn w)")
  have "cn_tx (wo_conn w) = None" using ok by (simp add: loop_ok_def mirrors_def)
  from tripleD [OF triple_read_cursor this _ refl t] run t ok
  show "case r of Inl _ \<Rightarrow> loop_ok d0 w' | Inr c \<Rightarrow> loop_ok d0 w' \<and> c = cursor_of (wo_db w')"
    by (cases r1) (auto simp: on_writer_def last_indexed_def loop_ok_def mirrors_def)
qed

lemma loop_ok_index_chain: "hoare (loop_ok d0) (index_chain nv chain) (\<lambda>_. loop_ok d0) (loop_ok d0)"
  unfolding index_chain_def by (rule hoare_for_each) (rule loop_ok_index_pair)

lemma loop_ok_node_tip: "hoare (loop_ok d0) (on_status (set_node_tip tip)) (\<lambda>_. loop_ok d0) (loop_ok d0)"
  by (simp add: hoare_def on_status_def loop_ok_def mirrors_def set_node_tip_def)

lemma loop_ok_replay_item: "hoare (loop_ok d0) (replay_item nv item) (\<lambda>_. loop_ok d0) (loop_ok d0)"
  unfolding replay_item_def
  by (rule hoare_andthen [where Q = "\<lambda>_. loop_ok d0"])
    (auto intro: hoare_from_result hoare_ret loop_ok_index_chain split: notification.splits)

lemma loop_ok_catch_up: "hoare (loop_ok d0) (catch_up nv) (\<lambda>_. loop_ok d0) (loop_ok d0)"
  unfolding catch_up_def Let_def
  by (rule hoare_andthen [OF hoare_weaken [OF loop_ok_last_indexed, where Q' = "\<lambda>_. loop_ok d0"]])
    (auto intro!: hoare_andthen [where Q = "\<lambda>_. loop_ok d0"] hoare_from_result loop_ok_node_tip hoare_for_each
      loop_ok_replay_item loop_ok_report)

lemma loop_ok_on_notification: "hoare (loop_ok d0) (on_notification event) (\<lambda>_. loop_ok d0) (loop_ok d0)"
  unfolding on_notification_def Let_def
  by (auto intro!: hoare_andthen [where Q = "\<lambda>_. loop_ok d0"] loop_ok_index_chain loop_ok_report loop_ok_catch_up hoare_ret
      split: prod.splits notification.splits)

section \<open>The whole loop\<close>

definition honest :: "world \<Rightarrow> bool" where
  "honest w \<longleftrightarrow> (\<forall>n. status_last_indexed (wo_status w) = Some n \<longrightarrow> below_cursor (wo_db w) n) \<and>
     list_all (below_cursor (wo_db w)) (wo_reported w)"

lemma loop_ok_honest: "loop_ok d0 w \<Longrightarrow> honest w"
  using status_last_indexed_mirror by (auto simp: loop_ok_def honest_def mirrors_def)

text \<open>Opening keeps the writer idle.\<close>

lemma idle_triples:
  "triple False (\<lambda>_. True) drop_outdated (\<lambda>_ _. True) (\<lambda>_ _. True)"
  "triple False (\<lambda>_. True) (for_each run_ddl DDL) (\<lambda>_ _. True) (\<lambda>_ _. True)"
  "triple False (\<lambda>_. True) (put_meta_if_absent k v) (\<lambda>_ _. True) (\<lambda>_ _. True)"
  "triple False (\<lambda>_. True) (put_meta k v) (\<lambda>_ _. True) (\<lambda>_ _. True)"
  "triple False (\<lambda>_. True) (read_meta k) (\<lambda>_ _. True) (\<lambda>_ _. True)"
proof -
  note triv = triple_execute triple_prepare triple_query
  have ddl: "triple False (\<lambda>_. True) (run_ddl s) (\<lambda>_ _. True) (\<lambda>_ _. True)" for s
    by (cases s) (auto intro!: triv triple_andthen [where Q = "\<lambda>_ _. True"])
  show "triple False (\<lambda>_. True) drop_outdated (\<lambda>_ _. True) (\<lambda>_ _. True)"
    unfolding drop_outdated_def by (rule triple_for_each [where P = "\<lambda>_ _. True"]) (auto intro!: triv)
  show "triple False (\<lambda>_. True) (for_each run_ddl DDL) (\<lambda>_ _. True) (\<lambda>_ _. True)"
    by (rule triple_for_each [where P = "\<lambda>_ _. True"]) (rule ddl)
  show "triple False (\<lambda>_. True) (put_meta_if_absent k v) (\<lambda>_ _. True) (\<lambda>_ _. True)"
    "triple False (\<lambda>_. True) (put_meta k v) (\<lambda>_ _. True) (\<lambda>_ _. True)"
    "triple False (\<lambda>_. True) (read_meta k) (\<lambda>_ _. True) (\<lambda>_ _. True)"
    unfolding put_meta_if_absent_def put_meta_def read_meta_def
    by (auto intro!: triv triple_andthen [where Q = "\<lambda>_ _. True"])
qed

lemma idle_check_chain_id: "triple False (\<lambda>_. True) (check_chain_id chain_id) (\<lambda>_ _. True) (\<lambda>_ _. True)"
  unfolding check_chain_id_def
  by (rule triple_andthen [where Q = "\<lambda>_ _. True"])
    (auto intro!: idle_triples triple_fail triple_ret split: option.splits)

lemma idle_writer_open: "triple False (\<lambda>_. True) (writer_open chain_id) (\<lambda>_ _. True) (\<lambda>_ _. True)"
  unfolding writer_open_def
proof (rule triple_andthen [OF triple_configure])
  have any: "triple False P m Q E \<Longrightarrow> (\<And>d. P' d \<Longrightarrow> P d) \<Longrightarrow> triple False P' m Q E" for P P' m Q E
    by (rule triple_weaken)
  show "triple False (\<lambda>_. True) (migrate chain_id) (\<lambda>_ _. True) (\<lambda>_ _. True)"
    unfolding migrate_def
    by (intro triple_andthen [where Q = "\<lambda>_ _. True"] idle_triples idle_check_chain_id)
      (auto intro!: triple_ret idle_triples triple_query simp: table_exists_def)
qed simp

definition start_ok :: "world \<Rightarrow> bool" where
  "start_ok w \<longleftrightarrow> cn_tx (wo_conn w) = None \<and> wo_status w = default_status \<and> wo_reported w = []"

lemma start_ok_honest: "start_ok w \<Longrightarrow> honest w \<and> \<not> is_live (wo_status w)"
  by (simp add: start_ok_def honest_def status_last_indexed_def default_status_def)

lemma start_open: "hoare start_ok (on_writer (writer_open chain_id)) (\<lambda>_. start_ok) start_ok"
  unfolding hoare_def
proof (intro allI impI)
  fix w r w'
  assume ok: "start_ok w" and run: "on_writer (writer_open chain_id) w = (r, w')"
  obtain r1 c1 where t: "writer_open chain_id (wo_conn w) = (r1, c1)" by (cases "writer_open chain_id (wo_conn w)")
  have "cn_tx (wo_conn w) = None" using ok by (simp add: start_ok_def)
  from tripleD [OF idle_writer_open this _ TrueI t] run t ok
  show "case r of Inl _ \<Rightarrow> start_ok w' | Inr _ \<Rightarrow> start_ok w'"
    by (cases r1) (auto simp: on_writer_def start_ok_def)
qed

lemma start_last_indexed:
  "hoare start_ok (on_writer last_indexed) (\<lambda>c w. start_ok w \<and> c = cursor_of (wo_db w)) start_ok"
  unfolding hoare_def
proof (intro allI impI)
  fix w r w'
  assume ok: "start_ok w" and run: "on_writer last_indexed w = (r, w')"
  obtain r1 c1 where t: "read_cursor (wo_conn w) = (r1, c1)" by (cases "read_cursor (wo_conn w)")
  have "cn_tx (wo_conn w) = None" using ok by (simp add: start_ok_def)
  from tripleD [OF triple_read_cursor this _ refl t] run t ok
  show "case r of Inl _ \<Rightarrow> start_ok w' | Inr c \<Rightarrow> start_ok w' \<and> c = cursor_of (wo_db w')"
    by (cases r1) (auto simp: on_writer_def last_indexed_def start_ok_def)
qed

lemma start_load:
  "hoare (\<lambda>w. start_ok w \<and> c = cursor_of (wo_db w))
     (case c of Some n \<Rightarrow> on_status (set_last_indexed n) | None \<Rightarrow> ret ())
     (\<lambda>_ w. mirrors w \<and> wo_reported w = []) start_ok"
  by (cases c)
    (auto simp: hoare_def ret_def on_status_def start_ok_def mirrors_def cursor_plus_one_def default_status_def set_last_indexed_def
      split: option.splits)

lemma indexer_exex_honest:
  assumes "start_ok w" "indexer_exex chain_id read_pool nv events w = (r, w')"
  shows "honest w' \<and> \<not> is_live (wo_status w')"
proof -
  let ?F = "\<lambda>w. honest w \<and> \<not> is_live (wo_status w)"
  have guarded: "hoare (\<lambda>w. mirrors w \<and> wo_reported w = [])
      (with_live_guard (andthen (catch_up nv) (\<lambda>_. for_each on_notification events))) (\<lambda>_. ?F) ?F"
    unfolding hoare_def
  proof (intro allI impI)
    fix w r w'
    assume w: "mirrors w \<and> wo_reported w = []"
      and run: "with_live_guard (andthen (catch_up nv) (\<lambda>_. for_each on_notification events)) w = (r, w')"
    let ?w = "w\<lparr>wo_status := set_live True (wo_status w)\<rparr>"
    obtain r1 w1 where b: "andthen (catch_up nv) (\<lambda>_. for_each on_notification events) ?w = (r1, w1)"
      by (cases "andthen (catch_up nv) (\<lambda>_. for_each on_notification events) ?w")
    have ok: "loop_ok (wo_db w) ?w" using w by (auto simp: loop_ok_def mirrors_def set_live_def settled_kept_def)
    have keep: "hoare (loop_ok (wo_db w)) (andthen (catch_up nv) (\<lambda>_. for_each on_notification events))
        (\<lambda>_. loop_ok (wo_db w)) (loop_ok (wo_db w))"
      by (rule hoare_andthen [OF loop_ok_catch_up]) (rule hoare_for_each, rule loop_ok_on_notification)
    from hoareD [OF keep ok b] have "loop_ok (wo_db w) w1" by (cases r1) auto
    then have "honest w1" by (rule loop_ok_honest)
    moreover have "w' = w1\<lparr>wo_status := set_live False (wo_status w1)\<rparr>"
      using run b by (simp add: with_live_guard_def live_guarded_def)
    ultimately show "case r of Inl _ \<Rightarrow> ?F w' | Inr _ \<Rightarrow> ?F w'"
      by (cases r) (auto simp: honest_def set_live_def status_last_indexed_def)
  qed
  have to_F: "hoare P m Q start_ok \<Longrightarrow> hoare P m Q ?F" for P and m :: "'z step" and Q
    using start_ok_honest by (auto intro: hoare_weaken)
  have "hoare start_ok (indexer_exex chain_id read_pool nv events) (\<lambda>_. ?F) ?F"
    unfolding indexer_exex_def
  proof (rule hoare_andthen [OF to_F [OF start_open]], rule hoare_andthen [where Q = "\<lambda>_. start_ok"])
    show "hoare start_ok (from_result read_pool) (\<lambda>_. start_ok) ?F"
      using start_ok_honest by (auto intro: hoare_from_result)
  next
    show "hoare start_ok (andthen (\<lambda>w. (Inr (), w\<lparr>wo_status := default_status\<rparr>)) (\<lambda>_.
       andthen (on_writer last_indexed) (\<lambda>cursor.
       andthen (case cursor of Some c \<Rightarrow> on_status (set_last_indexed c) | None \<Rightarrow> ret ()) (\<lambda>_.
         with_live_guard (andthen (catch_up nv) (\<lambda>_. for_each on_notification events)))))) (\<lambda>_. ?F) ?F"
    proof (rule hoare_andthen [where Q = "\<lambda>_. start_ok"])
      show "hoare start_ok (\<lambda>w. (Inr (), w\<lparr>wo_status := default_status\<rparr>)) (\<lambda>_. start_ok) ?F"
        by (simp add: hoare_def start_ok_def)
      show "hoare start_ok (andthen (on_writer last_indexed) (\<lambda>cursor.
       andthen (case cursor of Some c \<Rightarrow> on_status (set_last_indexed c) | None \<Rightarrow> ret ()) (\<lambda>_.
         with_live_guard (andthen (catch_up nv) (\<lambda>_. for_each on_notification events))))) (\<lambda>_. ?F) ?F"
        by (rule hoare_andthen [OF to_F [OF start_last_indexed]], rule hoare_andthen [OF to_F [OF start_load]], rule guarded)
    qed
  qed
  from hoareD [OF this assms] show ?thesis by (cases r) auto
qed

end
