(* ===== verification/Exex_Progress.thy ===== *)
theory Exex_Progress
  imports Exex_Correct
begin

text \<open>
  Progress of the indexing loop. The locale \<open>guarded_log\<close> is the contract the loop relies on:
  a write that is skipped at or below the cursor and otherwise moves the cursor to its number.
  Offering blocks twice, or in overlapping windows, is then harmless; and the loop leaves no gap
  when the node's segments leave none.
\<close>

section \<open>The contract of a cursor-guarded log\<close>

locale guarded_log =
  fixes cursor :: "'d \<Rightarrow> u64 option"
    and num :: "'e \<Rightarrow> u64"
    and put :: "'e \<Rightarrow> 'd \<Rightarrow> 'd"
  assumes cursor_put: "cursor (put e d) = Some (num e)"
begin

abbreviation (input) skipped :: "'d \<Rightarrow> 'e \<Rightarrow> bool" where
  "skipped d e \<equiv> (case cursor d of Some c \<Rightarrow> num e \<le> c | None \<Rightarrow> False)"

abbreviation (input) offer :: "'e \<Rightarrow> 'd \<Rightarrow> 'd" where
  "offer e d \<equiv> (if skipped d e then d else put e d)"

lemma offer_skips: "list_all (skipped d) es \<Longrightarrow> fold offer es d = d"
  by (induction es) auto

lemma skipped_offer: "skipped (offer e d) e' \<longleftrightarrow> skipped d e' \<or> num e' \<le> num e \<and> \<not> skipped d e \<or> skipped d e \<and> skipped d e'"
  by (auto simp: cursor_put split: option.splits)

lemma skipped_after: "e \<in> set es \<Longrightarrow> skipped (fold offer es d) e"
proof (induction es arbitrary: d rule: rev_induct)
  case Nil
  then show ?case by simp
next
  case (snoc x es)
  let ?d = "fold offer es d"
  show ?case
  proof (cases "e = x")
    case True
    then show ?thesis by (auto simp: cursor_put split: option.splits)
  next
    case False
    with snoc have s: "skipped ?d e" by auto
    then show ?thesis by (auto simp: cursor_put split: option.splits)
  qed
qed

text \<open>Offering the same blocks again changes nothing.\<close>

lemma offer_idempotent: "fold offer es (fold offer es d) = fold offer es d"
  by (rule offer_skips) (simp add: list_all_iff skipped_after)

text \<open>A window that overlaps the blocks already written adds its new part only.\<close>

lemma offer_overlap:
  assumes "set xs \<subseteq> set es"
  shows "fold offer (xs @ ys) (fold offer es d) = fold offer ys (fold offer es d)"
proof -
  have "fold offer xs (fold offer es d) = fold offer es d"
    by (rule offer_skips) (use assms skipped_after in \<open>auto simp: list_all_iff\<close>)
  then show ?thesis by simp
qed

text \<open>Ascending blocks above the cursor are all written, in order.\<close>

lemma offer_all:
  "sorted_wrt (\<lambda>x y. num x < num y) es \<Longrightarrow> list_all (\<lambda>e. \<not> skipped d e) es \<Longrightarrow> fold offer es d = fold put es d"
proof (induction es arbitrary: d)
  case Nil
  then show ?case by simp
next
  case (Cons e es)
  then have "list_all (\<lambda>x. \<not> skipped (put e d) x) es" by (auto simp: list_all_iff cursor_put)
  with Cons show ?case by simp
qed

end

text \<open>The database is such a log, whatever token rows go with each block.\<close>

interpretation db_log: guarded_log cursor_of "\<lambda>w. ex_number (fst w)" "\<lambda>(e, ts). block_effect e ts"
  by unfold_locales (auto split: prod.splits)

section \<open>No gaps\<close>

definition next_block :: "db \<Rightarrow> nat" where
  "next_block d = (case cursor_of d of None \<Rightarrow> 0 | Some c \<Rightarrow> unat c + 1)"

text \<open>The blocks written since \<open>d0\<close>: each from \<open>S\<close>, consecutive, in order.\<close>

definition contiguous :: "extracted_block set \<Rightarrow> db \<Rightarrow> world \<Rightarrow> bool" where
  "contiguous S d0 w \<longleftrightarrow> cn_tx (wo_conn w) = None \<and>
     (\<exists>acc. wo_db w = replay_db acc d0 \<and> accepted acc d0 \<and> fst ` set acc \<subseteq> S \<and>
        map (\<lambda>x. unat (ex_number (fst x))) acc = [next_block d0..<next_block (wo_db w)])"

definition pair_number :: "recovered_block \<times> receipt list \<Rightarrow> nat" where
  "pair_number p = unat (eh_number (rb_header (fst p)))"

text \<open>What the node's blocks extract to.\<close>

definition chain_blocks :: "node_view \<Rightarrow> chain \<Rightarrow> extracted_block set" where
  "chain_blocks nv ch = (\<lambda>(block, receipts). extract_block (nv_chain_fns nv) block receipts) ` set ch"

text \<open>A segment of consecutive blocks, and where it ends.\<close>

definition segment :: "chain \<Rightarrow> bool" where
  "segment ch \<longleftrightarrow> (\<exists>n. map pair_number ch = [n..<n + length ch])"

definition joins :: "nat \<Rightarrow> chain \<Rightarrow> bool" where
  "joins n ch \<longleftrightarrow> (case ch of [] \<Rightarrow> True | p # _ \<Rightarrow> segment ch \<and> pair_number p \<le> n)"

definition after :: "nat \<Rightarrow> chain \<Rightarrow> nat" where
  "after n ch = (case ch of [] \<Rightarrow> n | p # _ \<Rightarrow> max n (pair_number p + length ch))"

lemma next_block_effect [simp]: "next_block (block_effect e ts d) = unat (ex_number e) + 1"
  by (simp add: next_block_def)

lemma above_next: "\<not> at_or_below_cursor d n \<Longrightarrow> next_block d \<le> unat n"
  by (auto simp: at_or_below_cursor_def next_block_def word_le_nat_alt split: option.splits)

lemma below_next: "at_or_below_cursor d n \<Longrightarrow> unat n < next_block d"
  by (auto simp: at_or_below_cursor_def next_block_def word_le_nat_alt split: option.splits)

lemma contiguous_index_pair:
  assumes "chain_blocks nv [p] \<subseteq> S"
  shows "hoare (\<lambda>w. contiguous S d0 w \<and> m \<le> next_block (wo_db w) \<and> pair_number p \<le> next_block (wo_db w)) (index_pair nv p)
     (\<lambda>_ w. contiguous S d0 w \<and> m \<le> next_block (wo_db w) \<and> Suc (pair_number p) \<le> next_block (wo_db w)) (contiguous S d0)"
  unfolding hoare_def
proof (intro allI impI)
  fix w r w'
  assume w: "contiguous S d0 w \<and> m \<le> next_block (wo_db w) \<and> pair_number p \<le> next_block (wo_db w)"
    and run: "index_pair nv p w = (r, w')"
  obtain block receipts where p: "p = (block, receipts)" by (cases p)
  let ?e = "extract_block (nv_chain_fns nv) block receipts"
  have num: "unat (ex_number ?e) = pair_number p" by (simp add: p pair_number_def)
  have idle: "cn_tx (wo_conn w) = None" using w by (simp add: contiguous_def)
  note o = index_pair_outcome [OF idle run [unfolded p]]
  show "case r of Inl _ \<Rightarrow> contiguous S d0 w'
    | Inr _ \<Rightarrow> contiguous S d0 w' \<and> m \<le> next_block (wo_db w') \<and> Suc (pair_number p) \<le> next_block (wo_db w')"
  proof (cases "r = Inr () \<and> (\<exists>ts. wo_db w' = block_effect ?e ts (wo_db w)) \<and> \<not> at_or_below_cursor (wo_db w) (ex_number ?e)")
    case True
    then obtain ts where ts: "wo_db w' = block_effect ?e ts (wo_db w)" and new: "\<not> at_or_below_cursor (wo_db w) (ex_number ?e)"
      by blast
    from w obtain acc where acc: "wo_db w = replay_db acc d0" "accepted acc d0"
      "map (\<lambda>x. unat (ex_number (fst x))) acc = [next_block d0..<next_block (wo_db w)]" "fst ` set acc \<subseteq> S"
      unfolding contiguous_def by blast
    have "fst ` set (acc @ [(?e, ts)]) \<subseteq> S" using acc(4) assms by (simp add: chain_blocks_def p)
    moreover have n: "pair_number p = next_block (wo_db w)" using above_next [OF new] w num by simp
    have "next_block d0 \<le> next_block (wo_db w)"
      using acc(2,3) accepted_ascending [OF acc(2)]
      by (cases acc rule: rev_cases) (auto simp: acc(1) replay_db_snoc dest!: above_next split: prod.splits)
    then have "map (\<lambda>x. unat (ex_number (fst x))) (acc @ [(?e, ts)]) = [next_block d0..<next_block (wo_db w')]"
      using acc(3) ts n num by (simp del: ex_number_extract_block)
    moreover have "wo_db w' = replay_db (acc @ [(?e, ts)]) d0" using ts acc(1) by (simp add: replay_db_snoc)
    moreover have "accepted (acc @ [(?e, ts)]) d0" using acc new by (simp add: accepted_append)
    ultimately have "contiguous S d0 w'" using o unfolding contiguous_def by blast
    with True ts n num w show ?thesis by (auto simp del: ex_number_extract_block)
  next
    case False
    with o have same: "wo_db w' = wo_db w" "cn_tx (wo_conn w') = None"
      "r = Inr () \<longrightarrow> at_or_below_cursor (wo_db w) (ex_number ?e)" by blast+
    with w have "contiguous S d0 w'" by (simp add: contiguous_def)
    with same w num below_next [of "wo_db w" "ex_number ?e"] show ?thesis
      by (cases r) (auto simp del: ex_number_extract_block)
  qed
qed

lemma segment_Cons: "segment (p # ch) \<Longrightarrow> ch = [] \<or> segment ch \<and> pair_number (hd ch) = Suc (pair_number p)"
  by (cases ch) (auto simp: segment_def upt_rec)

lemma contiguous_index_chain:
  assumes "chain_blocks nv ch \<subseteq> S"
  shows "hoare (\<lambda>w. contiguous S d0 w \<and> n \<le> next_block (wo_db w) \<and> joins n ch) (index_chain nv ch)
     (\<lambda>_ w. contiguous S d0 w \<and> after n ch \<le> next_block (wo_db w)) (contiguous S d0)"
proof (cases ch)
  case Nil
  show ?thesis
    unfolding Nil index_chain_def for_each.simps after_def list.case by (rule hoare_ret) simp
next
  case (Cons p rest)
  have seg: "hoare (\<lambda>w. contiguous S d0 w \<and> n \<le> next_block (wo_db w) \<and> pair_number q \<le> next_block (wo_db w)) (index_chain nv (q # qs))
     (\<lambda>_ w. contiguous S d0 w \<and> max n (pair_number q + length (q # qs)) \<le> next_block (wo_db w)) (contiguous S d0)"
    if "segment (q # qs)" "chain_blocks nv (q # qs) \<subseteq> S" for q qs
    using that
  proof (induction qs arbitrary: q)
    case Nil
    show ?case
      unfolding index_chain_def for_each.simps
      by (rule hoare_andthen [OF contiguous_index_pair [OF Nil.prems(2)]], rule hoare_ret) simp
  next
    case (Cons q' qs)
    from Cons.prems(2) have S: "chain_blocks nv [q] \<subseteq> S" "chain_blocks nv (q' # qs) \<subseteq> S" by (simp_all add: chain_blocks_def)
    from segment_Cons [OF Cons.prems(1)] have s: "segment (q' # qs)" "pair_number q' = Suc (pair_number q)" by auto
    from hoare_andthen [OF contiguous_index_pair [OF S(1), of d0 n] hoare_weaken [OF Cons.IH [OF s(1) S(2)]]] s(2)
    show ?case by (simp add: index_chain_def)
  qed
  show ?thesis
  proof (cases "joins n ch")
    case True
    then have s: "segment (p # rest)" "pair_number p \<le> n" by (simp_all add: Cons joins_def)
    show ?thesis
      unfolding Cons by (rule hoare_weaken [OF seg [OF s(1) assms [unfolded Cons]]]) (use s(2) in \<open>auto simp: after_def\<close>)
  next
    case False
    then show ?thesis by (simp add: hoare_def)
  qed
qed

definition replay_segments :: "(report + notification) list \<Rightarrow> chain list" where
  "replay_segments items =
     List.map_filter (\<lambda>r. case r of Inr (ChainExecuted ch) \<Rightarrow> Some ch | _ \<Rightarrow> None) items"

fun all_join :: "nat \<Rightarrow> chain list \<Rightarrow> bool" where
  "all_join n [] \<longleftrightarrow> True"
| "all_join n (ch # chs) \<longleftrightarrow> joins n ch \<and> all_join (after n ch) chs"

definition reach :: "nat \<Rightarrow> chain list \<Rightarrow> nat" where
  "reach n chs = fold (\<lambda>ch m. after m ch) chs n"

text \<open>
  A node whose replay from any start joins there and reaches \<open>t\<close>, and notifications that join
  where the previous ones ended; after a lag the replay closes the hole.
\<close>

definition replays_to :: "node_view \<Rightarrow> nat \<Rightarrow> bool" where
  "replays_to nv t \<longleftrightarrow> (\<forall>start items. nv_replay_from nv start = Inr items \<longrightarrow>
     all_join (unat start) (replay_segments items) \<and> t \<le> reach (unat start) (replay_segments items))"

inductive seamless :: "nat \<Rightarrow> (node_view \<times> notification) list \<Rightarrow> bool" where
  seamless_end: "seamless n []"
| seamless_executed: "joins n ch \<Longrightarrow> seamless (after n ch) es \<Longrightarrow> seamless n ((nv, ChainExecuted ch) # es)"
| seamless_lagged: "replays_to nv t \<Longrightarrow> seamless t es \<Longrightarrow> seamless n ((nv, Lagged missed) # es)"
| seamless_certificate: "seamless n es \<Longrightarrow> seamless n ((nv, CertificateAccepted) # es)"
| seamless_output: "seamless n es \<Longrightarrow> seamless n ((nv, ConsensusOutputSeen) # es)"

definition replayed :: "node_view \<Rightarrow> extracted_block set" where
  "replayed nv = \<Union> {chain_blocks nv ch | ch start items. nv_replay_from nv start = Inr items \<and> ch \<in> set (replay_segments items)}"

text \<open>Everything the node delivers to a run of the loop, as it extracts.\<close>

definition delivered :: "node_view \<Rightarrow> (node_view \<times> notification) list \<Rightarrow> extracted_block set" where
  "delivered nv events = replayed nv \<union>
     (\<Union>(nv', n) \<in> set events. case n of ChainExecuted ch \<Rightarrow> chain_blocks nv' ch | Lagged _ \<Rightarrow> replayed nv' | _ \<Rightarrow> {})"

inductive_cases seamless_ConsE: "seamless n (e # es)"

lemma hoare_keep: "hoare P m Q E \<Longrightarrow> hoare (\<lambda>w. P w \<and> K) m (\<lambda>x w. Q x w \<and> K) E"
  by (auto simp: hoare_def split: sum.splits) fastforce+

lemma contiguous_replay:
  assumes "\<Union> (chain_blocks nv ` set (replay_segments items)) \<subseteq> S"
  shows "hoare (\<lambda>w. (contiguous S d0 w \<and> n \<le> next_block (wo_db w)) \<and> all_join n (replay_segments items)) (for_each (replay_item nv) items)
     (\<lambda>_ w. contiguous S d0 w \<and> reach n (replay_segments items) \<le> next_block (wo_db w)) (contiguous S d0)"
  using assms
proof (induction items arbitrary: n)
  case Nil
  show ?case unfolding for_each.simps by (rule hoare_ret) (simp add: replay_segments_def reach_def map_filter_simps)
next
  case (Cons item items)
  note segs = replay_segments_def map_filter_simps
  show ?case
  proof (cases "\<exists>ch. item = Inr (ChainExecuted ch)")
    case True
    then obtain ch where item: "item = Inr (ChainExecuted ch)" by blast
    have step: "replay_item nv item = index_chain nv ch"
      by (rule ext) (simp add: replay_item_def item andthen_def from_result_def)
    have c: "replay_segments (item # items) = ch # replay_segments items" by (simp add: item segs)
    with Cons.prems have S: "chain_blocks nv ch \<subseteq> S" "\<Union> (chain_blocks nv ` set (replay_segments items)) \<subseteq> S" by simp_all
    show ?thesis
    proof (cases "joins n ch \<and> all_join (after n ch) (replay_segments items)")
      case True
      show ?thesis
        unfolding for_each.simps step
        by (rule hoare_andthen [OF hoare_weaken [OF contiguous_index_chain [OF S(1), of d0 n]] hoare_weaken [OF Cons.IH [OF S(2), of "after n ch"]]])
          (use True in \<open>auto simp: c reach_def\<close>)
    next
      case False
      then show ?thesis by (auto simp: c hoare_def)
    qed
  next
    case False
    then have c: "replay_segments (item # items) = replay_segments items"
      by (auto simp: segs split: sum.splits notification.splits)
    have skip: "hoare (\<lambda>w. contiguous S d0 w \<and> n \<le> next_block (wo_db w)) (replay_item nv item)
        (\<lambda>_ w. contiguous S d0 w \<and> n \<le> next_block (wo_db w)) (contiguous S d0)"
      unfolding replay_item_def using False
      by (cases item) (auto intro!: hoare_andthen [where Q = "\<lambda>_ w. contiguous S d0 w \<and> n \<le> next_block (wo_db w)"]
          hoare_ret simp: hoare_def andthen_def from_result_def ret_def split: notification.splits)
    show ?thesis
      unfolding for_each.simps c
      by (rule hoare_andthen [OF hoare_keep [OF skip] Cons.IH [of n]]) (use Cons.prems c in simp)
  qed
qed

lemma contiguous_report: "hoare (\<lambda>w. contiguous S d0 w \<and> n \<le> next_block (wo_db w)) report_progress
    (\<lambda>_ w. contiguous S d0 w \<and> n \<le> next_block (wo_db w)) (contiguous S d0)"
  by (auto simp: hoare_def report_progress_def contiguous_def split: option.splits)

lemma contiguous_tip: "hoare (\<lambda>w. contiguous S d0 w \<and> n \<le> next_block (wo_db w)) (on_status f)
    (\<lambda>_ w. contiguous S d0 w \<and> n \<le> next_block (wo_db w)) (contiguous S d0)"
  by (simp add: hoare_def on_status_def contiguous_def)

lemma start_of_cursor: "unat (case cursor_of d of None \<Rightarrow> 0 | Some c \<Rightarrow> c + 1) \<le> next_block d"
proof (cases "cursor_of d")
  case None
  then show ?thesis by (simp add: next_block_def)
next
  case (Some c)
  have "unat (c + 1) \<le> unat c + 1" by (simp add: unat_word_ariths)
  with Some show ?thesis by (simp add: next_block_def)
qed

lemma contiguous_last_indexed:
  "hoare (contiguous S d0) (on_writer last_indexed) (\<lambda>c w. contiguous S d0 w \<and> c = cursor_of (wo_db w)) (contiguous S d0)"
  unfolding hoare_def
proof (intro allI impI)
  fix w r w'
  assume ok: "contiguous S d0 w" and run: "on_writer last_indexed w = (r, w')"
  obtain r1 c1 where t: "read_cursor (wo_conn w) = (r1, c1)" by (cases "read_cursor (wo_conn w)")
  have "cn_tx (wo_conn w) = None" using ok by (simp add: contiguous_def)
  from tripleD [OF triple_read_cursor this _ refl t] run t ok
  show "case r of Inl _ \<Rightarrow> contiguous S d0 w' | Inr c \<Rightarrow> contiguous S d0 w' \<and> c = cursor_of (wo_db w')"
    by (cases r1) (auto simp: on_writer_def last_indexed_def contiguous_def)
qed

lemma contiguous_catch_up:
  assumes "replays_to nv t" and "replayed nv \<subseteq> S"
  shows "hoare (contiguous S d0) (catch_up nv) (\<lambda>_ w. contiguous S d0 w \<and> t \<le> next_block (wo_db w)) (contiguous S d0)"
  unfolding catch_up_def Let_def
proof (rule hoare_andthen [OF contiguous_last_indexed])
  fix cursor
  let ?start = "case (cursor :: u64 option) of None \<Rightarrow> 0 | Some c \<Rightarrow> c + 1"
  let ?P = "\<lambda>w. contiguous S d0 w \<and> unat ?start \<le> next_block (wo_db w)"
  have weak: "hoare ?P m Q E \<Longrightarrow> hoare (\<lambda>w. contiguous S d0 w \<and> cursor = cursor_of (wo_db w)) m Q E" for m :: "unit step" and Q E
    using start_of_cursor by (auto intro: hoare_weaken)
  have tip: "hoare ?P (from_result (nv_last_block_number nv)) (\<lambda>_. ?P) (contiguous S d0)"
    by (rule hoare_from_result) auto
  have items: "hoare ?P (andthen (from_result (nv_replay_from nv ?start)) (\<lambda>items. andthen (for_each (replay_item nv) items) (\<lambda>_. report_progress)))
      (\<lambda>_ w. contiguous S d0 w \<and> t \<le> next_block (wo_db w)) (contiguous S d0)"
  proof (rule hoare_andthen [where Q = "\<lambda>items w. ?P w \<and> nv_replay_from nv ?start = Inr items"])
    show "hoare ?P (from_result (nv_replay_from nv ?start)) (\<lambda>items w. ?P w \<and> nv_replay_from nv ?start = Inr items) (contiguous S d0)"
      by (rule hoare_from_result) auto
    fix items
    show "hoare (\<lambda>w. ?P w \<and> nv_replay_from nv ?start = Inr items) (andthen (for_each (replay_item nv) items) (\<lambda>_. report_progress))
        (\<lambda>_ w. contiguous S d0 w \<and> t \<le> next_block (wo_db w)) (contiguous S d0)"
    proof (cases "nv_replay_from nv ?start = Inr items")
      case True
      with assms(1) have r: "all_join (unat ?start) (replay_segments items)" "t \<le> reach (unat ?start) (replay_segments items)"
        unfolding replays_to_def by blast+
      from True assms(2) have S: "\<Union> (chain_blocks nv ` set (replay_segments items)) \<subseteq> S"
        unfolding replayed_def by blast
      show ?thesis
        by (rule hoare_andthen [OF hoare_weaken [OF contiguous_replay [OF S, of d0 "unat ?start"]] contiguous_report])
          (use r in auto)
    next
      case False
      then show ?thesis by (simp add: hoare_def)
    qed
  qed
  show "hoare (\<lambda>w. contiguous S d0 w \<and> cursor = cursor_of (wo_db w))
     (andthen (from_result (nv_last_block_number nv)) (\<lambda>tip. andthen (on_status (set_node_tip tip)) (\<lambda>_.
        andthen (from_result (nv_replay_from nv ?start)) (\<lambda>replay. andthen (for_each (replay_item nv) replay) (\<lambda>_. report_progress)))))
     (\<lambda>_ w. contiguous S d0 w \<and> t \<le> next_block (wo_db w)) (contiguous S d0)"
    by (rule weak, rule hoare_andthen [OF tip], rule hoare_andthen [OF contiguous_tip], rule items)
qed

lemma on_notification_ignored:
  "on_notification (nv, CertificateAccepted) = ret ()"
  "on_notification (nv, ConsensusOutputSeen) = ret ()"
  by (simp_all add: on_notification_def)

lemma contiguous_events:
  assumes "seamless n events" and "delivered nv0 events \<subseteq> S"
  shows "hoare (\<lambda>w. contiguous S d0 w \<and> n \<le> next_block (wo_db w)) (for_each on_notification events)
     (\<lambda>_. contiguous S d0) (contiguous S d0)"
  using assms
proof (induction rule: seamless.induct)
  case (seamless_end n)
  show ?case unfolding for_each.simps by (rule hoare_ret) simp
next
  case (seamless_executed n ch es nv)
  have head: "hoare (\<lambda>w. contiguous S d0 w \<and> n \<le> next_block (wo_db w)) (on_notification (nv, ChainExecuted ch))
      (\<lambda>_ w. contiguous S d0 w \<and> after n ch \<le> next_block (wo_db w)) (contiguous S d0)"
    unfolding on_notification_def Let_def prod.case notification.case
    by (rule hoare_andthen [OF hoare_weaken [OF contiguous_index_chain [of nv ch S d0 n]] contiguous_report])
      (use seamless_executed.hyps(1) seamless_executed.prems in \<open>auto simp: delivered_def\<close>)
  show ?case unfolding for_each.simps by (rule hoare_andthen [OF head seamless_executed.IH]) (use seamless_executed.prems in \<open>auto simp: delivered_def\<close>)
next
  case (seamless_lagged nv t es n missed)
  have head: "hoare (\<lambda>w. contiguous S d0 w \<and> n \<le> next_block (wo_db w)) (on_notification (nv, Lagged missed))
      (\<lambda>_ w. contiguous S d0 w \<and> t \<le> next_block (wo_db w)) (contiguous S d0)"
    unfolding on_notification_def Let_def prod.case notification.case
    by (rule hoare_weaken [OF contiguous_catch_up [OF seamless_lagged.hyps(1)]])
      (use seamless_lagged.prems in \<open>auto simp: delivered_def\<close>)
  show ?case unfolding for_each.simps
    by (rule hoare_andthen [OF head seamless_lagged.IH]) (use seamless_lagged.prems in \<open>auto simp: delivered_def\<close>)
next
  case (seamless_certificate n es nv)
  show ?case unfolding for_each.simps on_notification_ignored
    by (rule hoare_andthen [OF hoare_ret seamless_certificate.IH]) (use seamless_certificate.prems in \<open>auto simp: delivered_def\<close>)
next
  case (seamless_output n es nv)
  show ?case unfolding for_each.simps on_notification_ignored
    by (rule hoare_andthen [OF hoare_ret seamless_output.IH]) (use seamless_output.prems in \<open>auto simp: delivered_def\<close>)
qed

lemma contiguous_loop:
  assumes "replays_to nv t" "seamless t events"
  shows "hoare (contiguous (delivered nv events) d0) (andthen (catch_up nv) (\<lambda>_. for_each on_notification events))
     (\<lambda>_. contiguous (delivered nv events) d0) (contiguous (delivered nv events) d0)"
proof -
  have "replayed nv \<subseteq> delivered nv events" by (simp add: delivered_def)
  from hoare_andthen [OF contiguous_catch_up [OF assms(1) this] contiguous_events [OF assms(2) subset_refl]] show ?thesis .
qed

lemma contiguous_start: "cn_tx (wo_conn w) = None \<Longrightarrow> contiguous S (wo_db w) w"
  by (auto simp: contiguous_def intro!: exI [where x = "[]"])

end
