(* ===== verification/Exex_Convergence.thy ===== *)
theory Exex_Convergence
  imports Exex_Progress Storage_Properties
begin

text \<open>
  Convergence of \<open>catch_up\<close>: against a node that replays its whole chain, and on a writer whose
  statements do not fail, it returns and leaves the database at the tip.
\<close>

section \<open>Statements that complete\<close>

definition small_block :: "recovered_block \<times> receipt list \<Rightarrow> bool" where
  "small_block p \<longleftrightarrow> fits_i64 (eh_number (rb_header (fst p))) \<and>
     length (rb_transactions_with_sender (fst p)) < 2 ^ 63 \<and> list_all (\<lambda>r. length (rc_logs r) < 2 ^ 63) (snd p)"

lemma fits_of_nat: "n < 2 ^ 63 \<Longrightarrow> fits_i64 (of_nat n)"
  by (simp add: fits_i64_def unat_of_nat take_bit_eq_mod)

lemma block_fits_extract:
  assumes "small_block (block, receipts)" "list_all (\<lambda>r. fits_i64 (tw_fetched_at r)) ts"
  shows "block_fits (extract_block fns block receipts) ts"
proof -
  let ?e = "extract_block fns block receipts"
  let ?txs = "rb_transactions_with_sender block"
  let ?n = "eh_number (rb_header block)"
  have n: "fits_i64 ?n" and len: "length ?txs < 2 ^ 63" and logs: "\<And>r. r \<in> set receipts \<Longrightarrow> length (rc_logs r) < 2 ^ 63"
    using assms(1) by (auto simp: small_block_def list_all_iff)
  have ix: "fits_i64 (of_nat i)" if "i < length ?txs" for i using that len by (intro fits_of_nat) simp
  have tr: "fits_i64 (tr_block_number r) \<and> fits_i64 (tr_tx_index r)" if "r \<in> set (ex_tx_types ?e)" for r
    using that n ix unfolding ex_tx_types_extract_block by (auto simp: tx_type_row_of_def in_set_enumerate_eq)
  have ar: "fits_i64 (ar_block_number r) \<and> fits_i64 (ar_tx_index r)" if "r \<in> set (ex_address_rows ?e)" for r
    using that n ix unfolding ex_address_rows_extract_block by (auto simp: address_rows_of_def in_set_enumerate_eq)
  have tf: "fits_i64 (tf_block_number r) \<and> fits_i64 (tf_tx_index r) \<and> fits_i64 (tf_log_index r)"
    if "r \<in> set (ex_transfers ?e)" for r
  proof -
    from that obtain i where i: "i < length ?txs" and r: "r \<in> set (tx_transfers ?n receipts i)"
      unfolding ex_transfers_extract_block by auto
    then obtain rc where rc: "slice_get receipts (unat (of_nat i :: u64)) = Some rc"
      "r \<in> set (log_transfers ?n (of_nat i) 0 (rc_logs rc))"
      by (cases "slice_get receipts (unat (of_nat i :: u64))") (auto simp: tx_transfers_def)
    then have "length (rc_logs rc) < 2 ^ 63" using logs by (auto simp: slice_get_def split: if_splits)
    with log_transfers_positions [OF rc(2)] n ix [OF i] show ?thesis
      by (auto intro!: fits_of_nat)
  qed
  have "length (ex_tx_types ?e) < 2 ^ 63" using len by (simp add: ex_tx_types_extract_block)
  moreover have "case ex_consensus ?e of None \<Rightarrow> True | Some r \<Rightarrow> fits_i64 (cr_block_number r)"
    using n by (auto simp: ex_consensus_extract_block split: option.splits)
  ultimately show ?thesis
    using ar tr tf assms(2) unfolding block_fits_def list_all_iff by blast
qed

lemma completes_token_fetch_states: "ready c \<Longrightarrow> completes (token_fetch_states candidates) c"
proof -
  have loop: "completes (fetch_states_loop cs out) c" if "ready c" for cs out c
    using that
  proof (induction cs arbitrary: out c)
    case Nil
    then show ?case by (simp add: completes_ret)
  next
    case (Cons a cs)
    then show ?case by (auto intro!: completes_andthen completes_query simp: token_status_def)
  qed
  show "ready c \<Longrightarrow> ?thesis"
    unfolding token_fetch_states_def
    by (rule completes_andthen [OF completes_prepare]) (auto simp: SCHEMA_TABLES_def intro: loop)
qed

definition answers_metadata :: "node_view \<Rightarrow> bool" where
  "answers_metadata nv \<longleftrightarrow> (\<forall>n token. (\<exists>md. nv_token_metadata nv n token = Inr md) \<and> fits_i64 (nv_unix_now nv n))"

lemma fetch_rows_answers:
  assumes "answers_metadata nv" "list_all (\<lambda>r. fits_i64 (tw_fetched_at r)) rows"
  shows "\<exists>out. fetch_rows nv n tokens rows = Inr out \<and> list_all (\<lambda>r. fits_i64 (tw_fetched_at r)) out"
  using assms(2)
proof (induction tokens arbitrary: rows)
  case Nil
  then show ?case by simp
next
  case (Cons a tokens)
  from assms(1) obtain md where "nv_token_metadata nv n a = Inr md" "fits_i64 (nv_unix_now nv n)"
    unfolding answers_metadata_def by blast
  with Cons show ?case by (simp add: token_row_for_def)
qed

text \<open>A writer between two blocks, its status in step with its cursor.\<close>

definition poised :: "u64 \<Rightarrow> world \<Rightarrow> bool" where
  "poised tip w \<longleftrightarrow> ready (wo_conn w) \<and> cursor_readable (wo_db w) \<and> mirrors w \<and> node_tip (wo_status w) = tip"

lemma readable_effect: "cursor_readable (block_effect e ts d)"
  by (simp add: cursor_readable_def block_effect_def)

lemma index_pair_advances:
  assumes nv: "answers_metadata nv" and w: "poised tip w" and p: "small_block p" "pair_number p = next_block (wo_db w)"
    and tip: "eh_number (rb_header (fst p)) \<le> tip"
  shows "\<exists>w'. index_pair nv p w = (Inr (), w') \<and> poised tip w' \<and> next_block (wo_db w') = Suc (next_block (wo_db w)) \<and>
    wo_reported w' = wo_reported w"
proof -
  obtain block receipts where pp: "p = (block, receipts)" by (cases p)
  let ?e = "extract_block (nv_chain_fns nv) block receipts"
  have idle: "cn_tx (wo_conn w) = None" using w by (simp add: poised_def mirrors_def)
  have num: "unat (ex_number ?e) = next_block (wo_db w)" "ex_number ?e \<le> tip" using p tip by (simp_all add: pp pair_number_def)
  have new: "\<not> at_or_below_cursor (wo_db w) (ex_number ?e)" using below_next num(1) by fastforce
  from completes_token_fetch_states [of "wo_conn w" "ex_token_candidates ?e"] w
  obtain need c1 where t: "token_fetch_states (ex_token_candidates ?e) (wo_conn w) = (Inr need, c1)" "ready c1"
    by (auto simp: completes_def poised_def)
  from tripleD [OF triple_token_fetch_states idle _ refl t(1)] have c1: "cn_tx c1 = None" "cn_committed c1 = wo_db w"
    by auto
  from fetch_rows_answers [OF nv, of "[]"] obtain ts
    where ts: "fetch_rows nv (ex_number ?e) need [] = Inr ts" "list_all (\<lambda>r. fits_i64 (tw_fetched_at r)) ts" by force
  have "cursor_readable (cn_committed c1)" "\<not> at_or_below_cursor (cn_committed c1) (ex_number ?e)" "block_fits ?e ts"
    using w new c1 p(1) ts by (auto simp: poised_def pp intro!: block_fits_extract)
  from index_block_succeeds [OF t(2) c1(1) this(1) this(3) this(2)] c1
  obtain c2 where i: "index_block ?e ts c1 = (Inr True, c2)" "ready c2" "cn_tx c2 = None"
    "cn_committed c2 = block_effect ?e ts (wo_db w)" by auto
  define w' where "w' = w\<lparr>wo_conn := c2, wo_status := set_node_tip (ex_number ?e) (set_last_indexed (ex_number ?e) (wo_status w))\<rparr>"
  have run: "index_pair nv p w = (Inr (), w')"
    unfolding index_pair_def pp Let_def prod.case
    using t(1) ts(1) i(1) by (simp add: andthen_def on_writer_def from_result_def on_status_def w'_def)
  have "poised tip w'"
  proof -
    have "list_all (below_cursor (wo_db w')) (wo_reported w')"
      using w below_cursor_step [OF new] i(4) by (auto simp: poised_def mirrors_def w'_def list_all_iff)
    moreover have "is_last_indexed_plus_one (wo_status w') = cursor_plus_one (wo_db w')"
      using w cursor_plus_one_step [OF new] i(4)
      by (simp add: w'_def poised_def mirrors_def set_node_tip_def set_last_indexed_def)
    moreover have "node_tip (wo_status w') = tip"
      using w num(2) by (auto simp: w'_def poised_def node_tip_def set_node_tip_def set_last_indexed_def max_def)
    ultimately show ?thesis using i by (simp add: poised_def mirrors_def w'_def readable_effect)
  qed
  moreover have "next_block (wo_db w') = Suc (next_block (wo_db w))" "wo_reported w' = wo_reported w"
    using i num by (simp_all add: w'_def del: ex_number_extract_block)
  ultimately show ?thesis using run by blast
qed

section \<open>Catching up\<close>

lemma replay_advances:
  assumes "answers_metadata nv" "list_all small_block blocks" "poised tip w"
    and "map pair_number blocks = [next_block (wo_db w)..<Suc (unat tip)]"
  shows "\<exists>w'. for_each (replay_item nv) (map (\<lambda>p. Inr (ChainExecuted [p])) blocks) w = (Inr (), w') \<and> poised tip w' \<and>
    next_block (wo_db w') = max (next_block (wo_db w)) (Suc (unat tip)) \<and> wo_reported w' = wo_reported w"
  using assms(2-4)
proof (induction blocks arbitrary: w)
  case Nil
  then have "[next_block (wo_db w)..<Suc (unat tip)] = []" by simp
  then have "Suc (unat tip) \<le> next_block (wo_db w)" unfolding upt_eq_Nil_conv by linarith
  with Nil show ?case by (simp add: ret_def max_def)
next
  case (Cons p blocks)
  from Cons.prems(3) have lt: "next_block (wo_db w) < Suc (unat tip)" by (cases "next_block (wo_db w) < Suc (unat tip)") auto
  with Cons.prems(3) have p: "pair_number p = next_block (wo_db w)"
    and rest: "map pair_number blocks = [Suc (next_block (wo_db w))..<Suc (unat tip)]"
    by (auto simp: upt_rec simp del: upt_Suc)
  have "eh_number (rb_header (fst p)) \<le> tip" using p lt by (simp add: pair_number_def word_le_nat_alt)
  with index_pair_advances [OF assms(1) Cons.prems(2) _ p] Cons.prems(1)
  obtain w1 where w1: "index_pair nv p w = (Inr (), w1)" "poised tip w1"
    "next_block (wo_db w1) = Suc (next_block (wo_db w))" "wo_reported w1 = wo_reported w" by auto
  with Cons.IH [of w1] rest Cons.prems(1)
  obtain w2 where "for_each (replay_item nv) (map (\<lambda>p. Inr (ChainExecuted [p])) blocks) w1 = (Inr (), w2)" "poised tip w2"
    "next_block (wo_db w2) = max (next_block (wo_db w1)) (Suc (unat tip))" "wo_reported w2 = wo_reported w1" by auto
  moreover have "replay_item nv (Inr (ChainExecuted [p])) w = (Inr (), w1)"
    using w1(1) by (simp add: replay_item_def index_chain_def andthen_def from_result_def ret_def)
  ultimately show ?case using w1 lt by (auto simp: andthen_def)
qed

text \<open>A node that holds the chain from genesis to its tip and replays any part of it.\<close>

definition full_node :: "node_view \<Rightarrow> (recovered_block \<times> receipt list) list \<Rightarrow> u64 \<Rightarrow> bool" where
  "full_node nv blocks tip \<longleftrightarrow>
     nv_last_block_number nv = Inr tip \<and>
     (\<forall>start. nv_replay_from nv start = Inr (map (\<lambda>p. Inr (ChainExecuted [p])) (drop (unat start) blocks))) \<and>
     map pair_number blocks = [0..<Suc (unat tip)] \<and> list_all small_block blocks \<and> answers_metadata nv"

lemma last_indexed_ready:
  assumes "poised tip w"
  shows "\<exists>w'. on_writer last_indexed w = (Inr (cursor_of (wo_db w)), w') \<and> poised tip w' \<and> wo_db w' = wo_db w \<and>
    wo_reported w' = wo_reported w"
proof -
  have idle: "cn_tx (wo_conn w) = None" using assms by (simp add: poised_def mirrors_def)
  have "cursor_readable (view (wo_conn w))" using assms idle by (simp add: poised_def view_def)
  from completes_read_cursor [OF _ this] assms
  obtain c c1 where t: "read_cursor (wo_conn w) = (Inr c, c1)" "ready c1" by (auto simp: completes_def poised_def)
  from tripleD [OF triple_read_cursor idle _ refl t(1)] have "cn_tx c1 = None" "cn_committed c1 = wo_db w" "c = cursor_of (wo_db w)"
    by auto
  with t assms show ?thesis by (auto simp: on_writer_def last_indexed_def poised_def mirrors_def)
qed

lemma next_block_tip: "next_block d = Suc (unat tip) \<longleftrightarrow> cursor_of d = Some tip"
  by (auto simp: next_block_def word_unat_eq_iff split: option.splits)

lemma catch_up_reaches_tip:
  assumes node: "full_node nv blocks tip" and w: "poised t0 w" and behind: "next_block (wo_db w) \<le> Suc (unat tip)" "t0 \<le> tip"
    and range: "unat tip < 2 ^ 64 - 1"
  shows "\<exists>w'. catch_up nv w = (Inr (), w') \<and> poised tip w' \<and> cursor_of (wo_db w') = Some tip \<and>
    lag (wo_status w') = 0 \<and> wo_reported w' = wo_reported w @ [tip]"
proof -
  let ?start = "case cursor_of (wo_db w) of None \<Rightarrow> 0 | Some c \<Rightarrow> c + 1"
  from last_indexed_ready [OF w] obtain w1 where w1: "on_writer last_indexed w = (Inr (cursor_of (wo_db w)), w1)" "poised t0 w1"
    "wo_db w1 = wo_db w" "wo_reported w1 = wo_reported w" by blast
  let ?w2 = "w1\<lparr>wo_status := set_node_tip tip (wo_status w1)\<rparr>"
  have w2: "poised tip ?w2"
    using w1(2) behind(2) by (simp add: poised_def mirrors_def node_tip_def set_node_tip_def max_def)
  have start: "unat ?start = next_block (wo_db w)"
  proof (cases "cursor_of (wo_db w)")
    case None
    then show ?thesis by (simp add: next_block_def)
  next
    case (Some c)
    with behind(1) range have "unat c < 2 ^ 64 - 1" by (simp add: next_block_def)
    with Some plus_one_unat [of c] show ?thesis by (simp add: next_block_def)
  qed
  let ?part = "drop (unat ?start) blocks"
  have replay: "nv_replay_from nv ?start = Inr (map (\<lambda>p. Inr (ChainExecuted [p])) ?part)" "nv_last_block_number nv = Inr tip"
    using node unfolding full_node_def by blast+
  have "map pair_number ?part = [next_block (wo_db w)..<Suc (unat tip)]"
    using node by (simp add: full_node_def drop_map [symmetric] start drop_upt del: upt_Suc)
  moreover have "list_all small_block ?part"
    using node by (auto simp: full_node_def list_all_iff dest: in_set_dropD)
  ultimately obtain w3 where w3: "for_each (replay_item nv) (map (\<lambda>p. Inr (ChainExecuted [p])) ?part) ?w2 = (Inr (), w3)"
    "poised tip w3" "next_block (wo_db w3) = max (next_block (wo_db w)) (Suc (unat tip))" "wo_reported w3 = wo_reported w"
    using replay_advances [of nv ?part tip ?w2] node w2 w1(3,4) by (auto simp: full_node_def)
  have cursor: "cursor_of (wo_db w3) = Some tip" using w3(3) behind(1) next_block_tip by (simp add: max_def)
  have last: "status_last_indexed (wo_status w3) = Some tip"
  proof -
    have "is_last_indexed_plus_one (wo_status w3) = tip + 1"
      using w3(2) cursor plus_one_unat [OF range] by (simp add: poised_def mirrors_def cursor_plus_one_def)
    moreover have "tip + 1 \<noteq> 0" using plus_one_unat [OF range] by (auto simp: word_unat_eq_iff)
    ultimately show ?thesis by (simp add: status_last_indexed_def)
  qed
  let ?w4 = "w3\<lparr>wo_reported := wo_reported w3 @ [tip]\<rparr>"
  have "catch_up nv w = (Inr (), ?w4)"
    unfolding catch_up_def Let_def
    by (simp add: andthen_def w1(1) from_result_def replay on_status_def w3(1) report_progress_def last)
  moreover have "poised tip ?w4" using w3(2) cursor by (auto simp: poised_def mirrors_def below_cursor_def)
  moreover have "lag (wo_status ?w4) = 0" using w3(2) last by (simp add: lag_def poised_def saturating_sub_def)
  ultimately show ?thesis using cursor w3(4) by auto
qed

end
