(* ===== verification/Exex_Properties.thy ===== *)
theory Exex_Properties
  imports Exex_Convergence
begin

text \<open>
  The properties of the indexing loop, of the token rows it fetches and of the status it keeps, with instances
  on a node that holds two blocks.
\<close>

section \<open>A small node\<close>

definition sample_chain :: "(recovered_block \<times> receipt list) list" where
  "sample_chain = [(sample_block 0, sample_receipts), (sample_block 1, sample_receipts)]"

definition sample_node :: node_view where
  "sample_node = \<lparr>nv_chain_fns = sample_fns, nv_last_block_number = Inr 1,
     nv_replay_from = (\<lambda>start. Inr (map (\<lambda>p. Inr (ChainExecuted [p])) (drop (unat start) sample_chain))),
     nv_token_metadata = (\<lambda>_ _. Inr \<lparr>md_name = None, md_symbol = None, md_decimals = Some 18\<rparr>),
     nv_unix_now = (\<lambda>_. 1700000000)\<rparr>"

definition sample_world :: world where
  "sample_world = \<lparr>wo_conn = sample_conn, wo_status = default_status, wo_reported = []\<rparr>"

lemma sample_full_node: "full_node sample_node sample_chain 1"
  by (simp add: full_node_def sample_node_def sample_chain_def pair_number_def sample_block_def sample_header_def
      small_block_def fits_i64_def sample_receipts_def answers_metadata_def)

lemma sample_poised: "poised 0 sample_world"
  using sample_ready
  by (simp add: poised_def sample_world_def sample_empty mirrors_def cursor_readable_def cursor_plus_one_def
      default_status_def node_tip_def) (simp add: sample_db_def empty_db_def)

lemma sample_replays: "replays_to sample_node 2"
  unfolding replays_to_def
proof (intro allI impI)
  fix start items
  assume "nv_replay_from sample_node start = Inr items"
  then have i: "items = map (\<lambda>p. Inr (ChainExecuted [p])) (drop (unat start) sample_chain)" by (simp add: sample_node_def)
  consider "unat start = 0" | "unat start = 1" | "unat start \<ge> 2" by linarith
  then show "all_join (unat start) (replay_segments items) \<and> 2 \<le> reach (unat start) (replay_segments items)"
    by cases (simp_all add: i sample_chain_def replay_segments_def map_filter_simps reach_def joins_def after_def segment_def
        pair_number_def sample_block_def sample_header_def)
qed

lemma sample_start: "cn_committed (wo_conn sample_world) = sample_db" "next_block sample_db = 0"
  by (simp_all add: sample_world_def sample_empty next_block_def)

section \<open>Properties\<close>

text \<open>C7: whatever the node answers and wherever a statement fails, when \<open>indexer_exex\<close> ends every
  height it has reported to the node, and the height the status shows, is at or below the committed
  cursor, and the status is no longer live.\<close>

theorem exex_never_ahead:
  assumes "start_ok w" and "indexer_exex chain_id read_pool nv events w = (r, w')"
  shows "(\<forall>n. status_last_indexed (wo_status w') = Some n \<or> n \<in> set (wo_reported w') \<longrightarrow>
            (\<exists>c. cursor_of (cn_committed (wo_conn w')) = Some c \<and> n \<le> c)) \<and>
    \<not> live (wo_status w')"
  using indexer_exex_honest [OF assms] by (auto simp: honest_def below_cursor_def live_def list_all_iff)

lemma exex_never_ahead_witness:
  "let w' = snd (indexer_exex 2017 (Inr ()) sample_node [(sample_node, Lagged 3)] sample_world)
   in \<not> live (wo_status w') \<and> (\<forall>n \<in> set (wo_reported w'). \<exists>c. cursor_of (cn_committed (wo_conn w')) = Some c \<and> n \<le> c)"
proof -
  obtain r w' where e: "indexer_exex 2017 (Inr ()) sample_node [(sample_node, Lagged 3)] sample_world = (r, w')"
    by (cases "indexer_exex 2017 (Inr ()) sample_node [(sample_node, Lagged 3)] sample_world")
  have "start_ok sample_world" by (simp add: start_ok_def sample_world_def sample_empty)
  from exex_never_ahead [OF this e] show ?thesis unfolding e by (auto simp: Let_def)
qed

text \<open>C4: the loop leaves no gap. If the node's replays and notifications join (each segment starts
  at or below the end of what was delivered, and after a lag the replay covers the hole), then
  whatever the result and wherever statements fail, the blocks written are exactly the consecutive
  numbers from the first one above the initial cursor up to the final cursor, each once and in
  order, and every one is what the extraction makes of a block that the node delivered.\<close>

theorem exex_no_gaps:
  assumes "cn_tx (wo_conn w) = None" and "replays_to nv t" and "seamless t events"
    and "andthen (catch_up nv) (\<lambda>_. for_each on_notification events) w = (r, w')"
  shows "\<exists>acc. cn_committed (wo_conn w') = replay_db acc (cn_committed (wo_conn w)) \<and> fst ` set acc \<subseteq> delivered nv events \<and>
    map (\<lambda>x. unat (ex_number (fst x))) acc =
      [next_block (cn_committed (wo_conn w))..<next_block (cn_committed (wo_conn w'))]"
proof -
  have "contiguous (delivered nv events) (wo_db w) w'"
    using hoareD [OF contiguous_loop [OF assms(2,3)] contiguous_start [OF assms(1)] assms(4)] by (auto split: sum.splits)
  then show ?thesis by (auto simp: contiguous_def)
qed

lemma sample_seamless:
  "seamless 2 [(sample_node, ChainExecuted [(sample_block 1, sample_receipts), (sample_block 2, sample_receipts)]),
               (sample_node, Lagged 7), (sample_node, CertificateAccepted)]"
proof (rule seamless_executed)
  show "joins 2 [(sample_block 1, sample_receipts), (sample_block 2, sample_receipts)]"
    by (simp add: joins_def segment_def pair_number_def sample_block_def sample_header_def upt_rec exI [of _ 1])
qed (intro seamless_lagged [OF sample_replays] seamless_certificate seamless_end)

lemma exex_no_gaps_witness:
  "let events = [(sample_node, ChainExecuted [(sample_block 1, sample_receipts), (sample_block 2, sample_receipts)]),
                 (sample_node, Lagged 7), (sample_node, CertificateAccepted)];
       w' = snd (andthen (catch_up sample_node) (\<lambda>_. for_each on_notification events) sample_world)
   in \<exists>acc. cn_committed (wo_conn w') = replay_db acc sample_db \<and> fst ` set acc \<subseteq> delivered sample_node events \<and>
        map (\<lambda>x. unat (ex_number (fst x))) acc = [0..<next_block (cn_committed (wo_conn w'))]"
proof -
  let ?events = "[(sample_node, ChainExecuted [(sample_block 1, sample_receipts), (sample_block 2, sample_receipts)]),
                 (sample_node, Lagged 7), (sample_node, CertificateAccepted)]"
  obtain r w' where e: "andthen (catch_up sample_node) (\<lambda>_. for_each on_notification ?events) sample_world = (r, w')"
    by (cases "andthen (catch_up sample_node) (\<lambda>_. for_each on_notification ?events) sample_world")
  have "cn_tx (wo_conn sample_world) = None" by (simp add: sample_world_def sample_empty)
  from exex_no_gaps [OF this sample_replays sample_seamless e] show ?thesis
    unfolding Let_def e snd_conv sample_start .
qed

text \<open>C14: \<open>catch_up\<close> converges. Against a node that holds the chain up to its tip, on a writer
  whose statements do not fail, it returns without error with the cursor at the tip, a lag of zero,
  and the tip reported as the finished height.\<close>

theorem catch_up_converges:
  assumes "full_node nv blocks tip" and "poised t0 w" and "next_block (cn_committed (wo_conn w)) \<le> Suc (unat tip)"
    and "t0 \<le> tip" and "unat tip < 2 ^ 64 - 1"
  shows "\<exists>w'. catch_up nv w = (Inr (), w') \<and> cursor_of (cn_committed (wo_conn w')) = Some tip \<and>
    lag (wo_status w') = 0 \<and> wo_reported w' = wo_reported w @ [tip]"
  using catch_up_reaches_tip [OF assms] by blast

lemma catch_up_converges_witness:
  "\<exists>w'. catch_up sample_node sample_world = (Inr (), w') \<and> cursor_of (cn_committed (wo_conn w')) = Some 1 \<and>
    lag (wo_status w') = 0 \<and> wo_reported w' = [1]"
  using catch_up_converges [OF sample_full_node sample_poised]
  by (simp add: sample_world_def sample_empty next_block_def)

text \<open>C28: token rows that are settled (status 0, decoded, or 2, terminal) are never changed or
  refetched by the loop, whatever happens to the rest.\<close>

theorem settled_tokens_kept:
  assumes "mirrors w" and "andthen (catch_up nv) (\<lambda>_. for_each on_notification events) w = (r, w')"
    and "db_tokens (cn_committed (wo_conn w)) (addr_hex a) = Some t" and "tk_status t \<noteq> 1"
  shows "db_tokens (cn_committed (wo_conn w')) (addr_hex a) = Some t"
proof -
  have ok: "loop_ok (wo_db w) w" using assms(1) by (auto simp: loop_ok_def settled_kept_def)
  have "hoare (loop_ok (wo_db w)) (andthen (catch_up nv) (\<lambda>_. for_each on_notification events))
      (\<lambda>_. loop_ok (wo_db w)) (loop_ok (wo_db w))"
    by (rule hoare_andthen [OF loop_ok_catch_up]) (rule hoare_for_each, rule loop_ok_on_notification)
  from hoareD [OF this ok assms(2)] have "loop_ok (wo_db w) w'" by (cases r) auto
  with assms(3,4) show ?thesis by (simp add: loop_ok_def settled_kept_def)
qed

definition token_world :: world where
  "token_world = sample_world\<lparr>wo_conn := sample_conn\<lparr>cn_committed := sample_db\<lparr>db_tokens :=
     [addr_hex 5 \<mapsto> \<lparr>tk_name = None, tk_symbol = None, tk_decimals = None, tk_status = 2, tk_fetched_at = 9\<rparr>]\<rparr>\<rparr>\<rparr>"

lemma settled_tokens_kept_witness:
  "\<exists>w'. snd (andthen (catch_up sample_node) (\<lambda>_. for_each on_notification []) token_world) = w' \<and>
    map_option tk_status (db_tokens (cn_committed (wo_conn w')) (addr_hex 5)) = Some 2"
proof -
  obtain r w' where e: "andthen (catch_up sample_node) (\<lambda>_. for_each on_notification []) token_world = (r, w')"
    by (cases "andthen (catch_up sample_node) (\<lambda>_. for_each on_notification []) token_world")
  have "mirrors token_world"
    by (simp add: token_world_def sample_world_def mirrors_def sample_conn_def cursor_plus_one_def cursor_of_def sample_db_def
        empty_db_def default_status_def)
  from settled_tokens_kept [OF this e, of 5] show ?thesis
    unfolding e by (simp add: token_world_def)
qed

text \<open>C18: the token status machine of one block of the loop, from the database through \<open>token_fetch_states\<close>, the reads
  of the node and \<open>index_block\<close> back to the database. When the block is indexed, a token that emitted a transfer in it and has
  no row gets what the node answers for it, with status 0 if anything decoded and 1 otherwise; one whose fetch failed once (status 1)
  is fetched again and becomes 0, or 2 for good; a row with status 0 or 2 stays as it is, as does every other token. When the block is
  at or below the cursor, or anything fails, no row changes.\<close>

theorem token_status_machine:
  assumes "cn_tx (wo_conn w) = None" and "index_pair nv (block, receipts) w = (r, w')"
  shows "let e = extract_block (nv_chain_fns nv) block receipts;
       d = cn_committed (wo_conn w);
       old = db_tokens d (addr_hex a);
       new = db_tokens (cn_committed (wo_conn w')) (addr_hex a);
       fetched = (\<lambda>again. \<exists>md. nv_token_metadata nv (ex_number e) a = Inr md \<and>
         new = Some \<lparr>tk_name = md_name md, tk_symbol = md_symbol md, tk_decimals = md_decimals md,
                     tk_status = (if any_decoded md then 0 else again), tk_fetched_at = nv_unix_now nv (ex_number e)\<rparr>)
     in if r = Inr () \<and> (case cursor_of d of None \<Rightarrow> True | Some c \<Rightarrow> c < ex_number e) \<and> a \<in> set (ex_token_candidates e)
        then (case old of None \<Rightarrow> fetched 1 | Some t \<Rightarrow> if tk_status t = 1 then fetched 2 else new = old)
        else new = old"
proof -
  let ?e = "extract_block (nv_chain_fns nv) block receipts"
  note o = index_pair_outcome [OF assms, THEN conjunct2, THEN conjunct2, THEN conjunct2]
  have above: "(case cursor_of (wo_db w) of None \<Rightarrow> True | Some c \<Rightarrow> c < ex_number ?e) \<longleftrightarrow> \<not> at_or_below_cursor (wo_db w) (ex_number ?e)"
    by (auto simp: at_or_below_cursor_def split: option.split)
  show ?thesis
  proof (cases "r = Inr () \<and> \<not> at_or_below_cursor (wo_db w) (ex_number ?e)")
    case False
    with o have "wo_db w' = wo_db w" by blast
    with False show ?thesis unfolding above Let_def by auto
  next
    case True
    with o obtain ts where wf: "well_fetched (wo_db w) ts" and w': "wo_db w' = block_effect ?e ts (wo_db w)"
      and f: "fetch_rows nv (ex_number ?e) (filter (token_pending (wo_db w)) (ex_token_candidates ?e)) [] = Inr ts" by blast
    from fetch_rows_Inr [OF f] have addresses: "tw_address ` set ts = {a \<in> set (ex_token_candidates ?e). token_pending (wo_db w) a}"
      by (metis append_Nil list.map(1) set_filter set_map)
    show ?thesis
    proof (cases "a \<in> set (ex_token_candidates ?e) \<and> token_pending (wo_db w) a")
      case False
      then have "addr_hex a \<notin> addr_hex ` tw_address ` set ts" using addresses by auto
      then have "db_tokens (wo_db w') (addr_hex a) = db_tokens (wo_db w) (addr_hex a)"
        by (simp add: w' block_effect_def put_tokens_untouched)
      with False show ?thesis unfolding above Let_def by (auto simp: token_pending_def split: option.splits)
    next
      case pending: True
      then have "a \<in> set (filter (token_pending (wo_db w)) (ex_token_candidates ?e))" by simp
      with fetch_rows_row [OF f] obtain md where md: "nv_token_metadata nv (ex_number ?e) a = Inr md"
        "token_row_for nv (ex_number ?e) a md \<in> set ts" by blast
      from wf have "distinct (map tw_address ts)" by (simp add: well_fetched_def)
      from put_tokens_lookup [OF this md(2), of "db_tokens (wo_db w)"] md(1) pending True show ?thesis
        unfolding above Let_def w'
        by (auto simp: block_effect_def token_row_for_def token_pending_def next_status_def split: option.splits)
    qed
  qed
qed

text \<open>A token whose fetch failed once fails again in a block that transfers it.\<close>

lemma token_status_machine_witness:
  "let nv = sample_node\<lparr>nv_token_metadata := \<lambda>_ _. Inr \<lparr>md_name = None, md_symbol = None, md_decimals = None\<rparr>\<rparr>;
       block = example_block\<lparr>rb_header := sample_header 0\<rparr>;
       w = sample_world\<lparr>wo_conn := sample_conn\<lparr>cn_committed := sample_db\<lparr>db_tokens :=
         [addr_hex 6 \<mapsto> \<lparr>tk_name = None, tk_symbol = None, tk_decimals = None, tk_status = 1, tk_fetched_at = 9\<rparr>]\<rparr>\<rparr>\<rparr>
   in map_option tk_status (db_tokens (cn_committed (wo_conn (snd (index_pair nv (block, example_receipts) w)))) (addr_hex 6)) = Some 2"
proof -
  let ?nv = "sample_node\<lparr>nv_token_metadata := \<lambda>_ _. Inr \<lparr>md_name = None, md_symbol = None, md_decimals = None\<rparr>\<rparr>"
  let ?block = "example_block\<lparr>rb_header := sample_header 0\<rparr>"
  let ?w = "sample_world\<lparr>wo_conn := sample_conn\<lparr>cn_committed := sample_db\<lparr>db_tokens :=
    [addr_hex 6 \<mapsto> \<lparr>tk_name = None, tk_symbol = None, tk_decimals = None, tk_status = 1, tk_fetched_at = 9\<rparr>]\<rparr>\<rparr>\<rparr>"
  have idle: "cn_tx (wo_conn ?w) = None" and cursor: "cursor_of (wo_db ?w) = None"
    by (simp_all add: sample_world_def sample_conn_def sample_db_def empty_db_def cursor_of_def)
  have "poised 0 ?w"
    using sample_ready cursor idle
    by (simp add: poised_def mirrors_def cursor_plus_one_def ready_def healthy_def view_def sample_world_def sample_conn_def sample_db_def
        empty_db_def cursor_readable_def default_status_def node_tip_def SCHEMA_TABLES_def)
  moreover have "answers_metadata ?nv" "small_block (?block, example_receipts)" "pair_number (?block, example_receipts) = next_block (wo_db ?w)"
    using cursor
    by (simp_all add: answers_metadata_def sample_node_def fits_i64_def small_block_def example_block_def sample_header_def
        example_receipts_def example_log_def pair_number_def next_block_def)
  ultimately obtain w' where run: "index_pair ?nv (?block, example_receipts) ?w = (Inr (), w')"
    using index_pair_advances [of ?nv 0 ?w "(?block, example_receipts)"] by (auto simp: sample_header_def)
  have "6 \<in> set (ex_token_candidates (extract_block (nv_chain_fns ?nv) ?block example_receipts))"
    by (simp add: extract_block_token_candidates [THEN conjunct1] ex_transfers_extract_block example_block_def tx_transfers_def
        example_receipts_def example_log_def slice_get_def log_transfers_def decode_transfer_log_def)
  with token_status_machine [OF idle run, of 6] cursor have "map_option tk_status (db_tokens (wo_db w') (addr_hex 6)) = Some 2"
    by (auto simp: Let_def sample_world_def sample_node_def any_decoded_def)
  with run show ?thesis by (simp add: Let_def)
qed

text \<open>\<open>set_last_indexed\<close> keeps the maximum of the heights recorded, and \<open>last_indexed\<close> reads back
  exactly it, for every height below the last 64-bit value.\<close>

theorem last_indexed_is_maximum:
  assumes "unat n < 2 ^ 64 - 1"
  shows "status_last_indexed (set_last_indexed n s) =
    (case status_last_indexed s of None \<Rightarrow> Some n | Some m \<Rightarrow> Some (max m n))"
  by (rule status_last_indexed_set [OF assms])

lemma last_indexed_is_maximum_witness:
  "status_last_indexed (set_last_indexed 7 (set_last_indexed 9 default_status)) = Some 9"
  using last_indexed_is_maximum [of 7 "set_last_indexed 9 default_status"] last_indexed_is_maximum [of 9 default_status]
  by (simp add: status_last_indexed_def default_status_def)

text \<open>Before \<open>catch_up\<close> has recorded a tip the status shows a lag of zero, although nothing may
  have been indexed: the server answers from this state while \<open>indexer_exex\<close> is still starting.\<close>

theorem lag_zero_before_catch_up:
  "lag (case cursor_of d of Some c \<Rightarrow> set_last_indexed c default_status | None \<Rightarrow> default_status) = 0"
  by (auto simp: lag_def node_tip_def set_last_indexed_def default_status_def saturating_sub_def word_gt_0 split: option.splits)

end
