(* ===== verification/Float64.thy ===== *)
theory Float64
  imports Encoding Complex_Main "HOL-Library.Log_Nat"
begin

text \<open>
  The \<open>f64\<close> values the program computes: display amounts, all finite, non-negative and far inside the
  normal range (between \<open>10 ^ -255\<close> and \<open>2 ^ 256\<close>). Such a value is a rational with 53 significant
  bits; casts, decimal parsing and division round to the nearest one, ties to even.
\<close>

type_synonym f64 = rat

definition round_half_even :: "rat \<Rightarrow> int" where
  "round_half_even x =
     (let f = \<lfloor>x\<rfloor>; d = x - of_int f
      in if d < 1 / 2 then f else if 1 / 2 < d then f + 1 else if even f then f else f + 1)"

text \<open>The exponent that scales a positive value to 53 bits.\<close>

definition f64_exponent :: "rat \<Rightarrow> int" where
  "f64_exponent x =
     (let (a, b) = quotient_of x;
          e = int (floorlog 2 (nat a)) - int (floorlog 2 (nat b)) - 53
      in if 2 ^ 53 \<le> x / 2 powi e then e + 1 else e)"

definition f64_round :: "rat \<Rightarrow> f64" where
  "f64_round x =
     (if x = 0 then 0
      else let e = f64_exponent x in of_int (round_half_even (x / 2 powi e)) * 2 powi e)"

text \<open>\<open>as f64\<close> on an unsigned integer, and \<open>/\<close>.\<close>

definition f64_of_word :: "'a::len word \<Rightarrow> f64" where
  "f64_of_word w = f64_round (of_nat (unat w))"

definition f64_div :: "f64 \<Rightarrow> f64 \<Rightarrow> f64" where
  "f64_div x y = f64_round (x / y)"

text \<open>\<open>str::parse::<f64>\<close> on what the program parses, the digits of an unsigned integer.\<close>

definition parse_f64 :: "string \<Rightarrow> f64 option" where
  "parse_f64 s = (if s \<noteq> [] \<and> list_all is_ascii_digit s then Some (f64_round (of_nat (dec_value s))) else None)"

lemma parse_f64_dec [simp]: "parse_f64 (dec_of_nat n) = Some (f64_round (of_nat n))"
  by (simp add: parse_f64_def dec_of_nat_digits dec_value_dec_of_nat)

lemma round_half_even_int [simp]: "round_half_even (of_int k) = k"
  by (simp add: round_half_even_def)

lemma round_half_even_close: "\<bar>of_int (round_half_even x) - x\<bar> \<le> 1 / 2"
proof -
  have "of_int \<lfloor>x\<rfloor> \<le> x" "x < of_int \<lfloor>x\<rfloor> + 1" by linarith+
  then show ?thesis by (auto simp: round_half_even_def Let_def abs_le_iff)
qed

lemma f64_round_close:
  "\<bar>f64_round x - x\<bar> \<le> 2 powi f64_exponent x / 2"
proof (cases "x = 0")
  case True
  then show ?thesis by (simp add: f64_round_def)
next
  case False
  let ?s = "2 powi f64_exponent x :: rat"
  have s: "0 < ?s" by simp
  have "f64_round x - x = (of_int (round_half_even (x / ?s)) - x / ?s) * ?s"
    using False s by (simp add: f64_round_def Let_def field_simps)
  then have "\<bar>f64_round x - x\<bar> = \<bar>of_int (round_half_even (x / ?s)) - x / ?s\<bar> * ?s"
    using s by (simp add: abs_mult)
  also have "\<dots> \<le> 1 / 2 * ?s"
    using round_half_even_close [of "x / ?s"] s by (intro mult_right_mono) auto
  finally show ?thesis by simp
qed

end
