(* ===== verification/Wire_Types.thy ===== *)
theory Wire_Types
  imports Node_Env Float64
begin

text \<open>
  The response bodies of \<open>src/types.rs\<close>, one record per struct with the fields in the struct's order.
  A field \<open>skip_serializing_if\<close> leaves out of the JSON is an option here as there; the JSON
  rendering itself is \<open>serde\<close>'s.
\<close>

section \<open>Execution side\<close>

record 'a envelope =
  en_items :: "'a list"
  en_total :: u64
  en_page :: u64
  en_per_page :: u64

record api_token_transfer =
  wtt_tx_hash :: string
  wtt_from :: string
  wtt_to :: string
  wtt_value :: u128
  wtt_value_exact :: string
  wtt_amount :: f64
  wtt_block_number :: u64
  wtt_timestamp :: u64
  wtt_token_address :: string
  wtt_token_symbol :: "string option"
  wtt_log_index :: u64

record api_transaction =
  wtx_hash :: string
  wtx_from :: string
  wtx_to :: "string option"
  wtx_value :: u128
  wtx_value_tel :: f64
  wtx_gas :: u64
  wtx_gas_price :: u64
  wtx_gas_used :: u64
  wtx_status :: "bool option"
  wtx_input :: string
  wtx_decoded_input :: "unit option"
  wtx_block_number :: "u64 option"
  wtx_transaction_index :: "u64 option"
  wtx_nonce :: u64
  wtx_tx_type :: u8
  wtx_tx_type_name :: string
  wtx_token_transfers :: "api_token_transfer list option"
  wtx_token_transfer_count :: "u64 option"

record api_block_consensus =
  wbc_digest :: string
  wbc_digest_bs58 :: string
  wbc_epoch :: u32
  wbc_round :: u32
  wbc_batch_index :: u64
  wbc_worker_id :: u16
  wbc_batch_digest :: string
  wbc_prev_randao :: "string option"
  wbc_closes_epoch :: bool
  wbc_consensus_number :: "u64 option"

record api_block =
  wbl_number :: u64
  wbl_hash :: string
  wbl_parent_hash :: string
  wbl_timestamp :: u64
  wbl_transactions :: "string list"
  wbl_transaction_count :: nat
  wbl_gas_used :: u64
  wbl_gas_limit :: u64
  wbl_miner :: string
  wbl_validator :: string
  wbl_extra_data :: string
  wbl_base_fee :: "u64 option"
  wbl_size :: u64
  wbl_consensus :: "api_block_consensus option"

record api_token_info =
  wti_address :: string
  wti_name :: "string option"
  wti_symbol :: "string option"
  wti_decimals :: "u8 option"
  wti_total_supply :: "string option"
  wti_metadata_status :: u8

record api_stats =
  wst_latest_block :: u64
  wst_gas_price_gwei :: f64
  wst_chain_id :: u64
  wst_epoch_number :: "u64 option"
  wst_validator_count :: nat
  wst_total_txs :: u64

record api_address =
  wad_address :: string
  wad_balance_wei :: string
  wad_balance_tel :: f64
  wad_nonce :: u64
  wad_is_contract :: bool
  wad_code :: "string option"
  wad_indexed_tx_count :: u64

section \<open>References and ranges\<close>

record api_exec_range =
  wxr_first :: u64
  wxr_last :: u64

record api_num_hash =
  wnh_number :: u64
  wnh_hash :: string

record api_consensus_num_hash =
  wcn_number :: u64
  wcn_hash :: string
  wcn_hash_bs58 :: string

record api_range =
  wra_first :: "u64 option"
  wra_last :: "u64 option"

record api_payload_entry =
  wpe_batch_digest :: string
  wpe_worker_id :: u16

record api_authority_score =
  was_authority :: string
  was_score :: u64

record api_authority_round =
  wau_authority :: string
  wau_round :: u32

record api_reputation_scores =
  wrp_scores :: "api_authority_score list"
  wrp_final_of_schedule :: bool

section \<open>Epochs and validators\<close>

record api_epoch_record =
  wer_epoch :: u32
  wer_digest :: string
  wer_digest_bs58 :: string
  wer_parent_hash :: string
  wer_parent_hash_bs58 :: string
  wer_committee :: "string list"
  wer_next_committee :: "string list"
  wer_final_state :: api_num_hash
  wer_final_consensus :: api_consensus_num_hash
  wer_super_quorum :: u64

record api_epoch_certificate =
  wec_epoch_hash :: string
  wec_epoch_hash_bs58 :: string
  wec_signature :: string
  wec_signer_indices :: "u32 list"
  wec_signers :: "string list"
  wec_unresolved_signers :: u32
  wec_signer_count :: u64
  wec_super_quorum :: u64
  wec_verified :: "bool option"

record api_epoch =
  wep_epoch :: u64
  wep_start_block :: u64
  wep_end_block :: "u64 option"
  wep_end_time :: "u64 option"
  wep_committee_size :: nat
  wep_committee_bls :: "string list"
  wep_certified :: bool
  wep_is_current :: bool
  wep_committee_addresses :: "string list option"
  wep_record :: "api_epoch_record option"
  wep_certificate :: "api_epoch_certificate option"

record api_epoch_data =
  wed_epoch :: u64
  wed_epoch_duration :: u64
  wed_validator_count :: nat
  wed_validators :: "string list"
  wed_start_block :: u64
  wed_latest_block :: u64

record api_validator =
  wva_address :: string
  wva_activation_epoch :: u32
  wva_exit_epoch :: u32
  wva_status :: u8
  wva_is_retired :: bool
  wva_stake_version :: u8
  wva_region :: u8

record leader_entry =
  wle_address :: string
  wle_blocks :: u64

record leaders_response =
  wlr_window :: u64
  wlr_from_block :: u64
  wlr_to_block :: u64
  wlr_leaders :: "leader_entry list"

record health_response =
  whe_status :: string
  whe_indexing_live :: bool
  whe_last_indexed :: u64
  whe_node_tip :: u64
  whe_lag :: u64

record call_request =
  wrq_to :: string
  wrq_data :: string

record call_response =
  wrs_ok :: bool
  wrs_result :: "string option"
  wrs_error :: "string option"
  wrs_revert_data :: "string option"

section \<open>Consensus side\<close>

record api_consensus_header =
  wch_number :: u64
  wch_digest :: string
  wch_digest_bs58 :: string
  wch_parent_digest :: string
  wch_parent_digest_bs58 :: string
  wch_epoch :: u32
  wch_round :: u32
  wch_leader :: string
  wch_leader_header_digest :: string
  wch_committed_at :: u64
  wch_sub_dag_header_count :: nat
  wch_batch_count :: u64
  wch_randomness :: string
  wch_extra :: string
  wch_exec_blocks :: "api_exec_range option"

record api_sub_dag_header =
  wsh_digest :: string
  wsh_author :: string
  wsh_author_bls :: "string option"
  wsh_round :: u32
  wsh_epoch :: u32
  wsh_created_at :: u64
  wsh_parents :: "string list"
  wsh_payload :: "api_payload_entry list"
  wsh_latest_execution_block :: api_num_hash
  wsh_is_leader :: bool

record api_consensus_batch =
  wcb_index :: u64
  wcb_digest :: string
  wcb_worker_id :: u16
  wcb_beneficiary :: string
  wcb_authority_address :: string
  wcb_base_fee_per_gas :: u64
  wcb_tx_count :: nat
  wcb_size_bytes :: u64
  wcb_exec_block_number :: "u64 option"
  wcb_tx_hashes :: "string list option"

record api_consensus_block =
  wck_header :: api_consensus_header
  wck_leader_bls :: "string option"
  wck_sub_dag :: "api_sub_dag_header list"
  wck_reputation_scores :: api_reputation_scores
  wck_batches :: "api_consensus_batch list"
  wck_closes_epoch :: "bool option"

record api_consensus_batches =
  wcs_number :: u64
  wcs_digest :: string
  wcs_batches :: "api_consensus_batch list"

record api_consensus_latest =
  wcl_number :: u64
  wcl_epoch :: u32
  wcl_round :: u32
  wcl_digest :: string
  wcl_digest_bs58 :: string
  wcl_leader :: string
  wcl_committed_at :: u64
  wcl_exec_tip :: u64
  wcl_exec_tip_consensus :: "api_block_consensus option"

record api_consensus_epoch =
  wce_epoch :: u64
  wce_is_current :: bool
  wce_record :: "api_epoch_record option"
  wce_certificate :: "api_epoch_certificate option"
  wce_consensus_range :: api_range
  wce_exec_range :: api_range
  wce_end_time :: "u64 option"
  wce_committee_bls :: "string list"
  wce_committee_addresses :: "string list option"
  wce_pack_complete :: "bool option"
  wce_last_committed_rounds :: "api_authority_round list option"
  wce_final_reputation_scores :: "api_reputation_scores option"

datatype input_mode = List | Detail

end
