(* ===== verification/Wire_Builders.thy ===== *)
theory Wire_Builders
  imports Wire_Types Node_Reads
begin

text \<open>
  The pure builders of \<open>src/types.rs\<close>. What the dependencies render or hash (\<open>Display\<close> of digests,
  keys, signatures and authorities, \<open>AuthorityIdentifier::from\<close>, \<open>keccak256\<close>) and \<open>10f64.powi\<close>, whose
  precision the standard library leaves open, are fields of the parameter \<open>wire_fns\<close>.
\<close>

record wire_fns =
  digest_display :: "b256 \<Rightarrow> string"
  bls_display :: "bls_key \<Rightarrow> string"
  signature_display :: "bytes \<Rightarrow> string"
  authority_display :: "authority \<Rightarrow> string"
  authority_of_key :: "bls_key \<Rightarrow> authority"
  keccak256 :: "bytes \<Rightarrow> b256"
  powi_10 :: "u8 \<Rightarrow> f64"

section \<open>Encoding helpers\<close>

definition hex_b256 :: "b256 \<Rightarrow> string" where
  "hex_b256 value = hex_word value"

definition hex_address :: "address \<Rightarrow> string" where
  "hex_address value = hex_word value"

definition hex_bytes :: "bytes \<Rightarrow> string" where
  "hex_bytes value = ''0x'' @ hex_encode value"

definition hex_digest :: "b256 \<Rightarrow> string" where
  "hex_digest d = hex_bytes (to_be_bytes d)"

definition bs58_digest :: "wire_fns \<Rightarrow> b256 \<Rightarrow> string" where
  "bs58_digest w d = digest_display w d"

definition selector_hex :: "bytes \<Rightarrow> string option" where
  "selector_hex input = (if 4 \<le> length input then Some (hex_bytes (take 4 input)) else None)"

definition unwrap_or :: "'a option \<Rightarrow> 'a \<Rightarrow> 'a" where
  "unwrap_or x d = (case x of Some y \<Rightarrow> y | None \<Rightarrow> d)"

definition wei_to_tel :: "u256 \<Rightarrow> f64" where
  "wei_to_tel wei = f64_div (unwrap_or (parse_f64 (to_dec wei)) 0) (10 ^ 18)"

definition token_amount :: "wire_fns \<Rightarrow> string \<Rightarrow> u8 \<Rightarrow> f64" where
  "token_amount w value_decimal decimals = f64_div (unwrap_or (parse_f64 value_decimal) 0) (powi_10 w decimals)"

text \<open>\<open>try_from\<close> to a narrower word, saturating.\<close>

definition saturating_narrow :: "'a::len word \<Rightarrow> 'b::len word" where
  "saturating_narrow v = (if unat v < 2 ^ LENGTH('b) then of_nat (unat v) else - 1)"

section \<open>Execution side\<close>

definition build_api_transaction :: "tx_data \<Rightarrow> input_mode \<Rightarrow> api_transaction" where
  "build_api_transaction data mode =
     (let tx = td_tx data;
          input_bytes = tx_input tx;
          input = (case mode of
                     Detail \<Rightarrow> hex_bytes input_bytes
                   | List \<Rightarrow> unwrap_or (selector_hex input_bytes) ''0x'');
          value = (saturating_narrow (tx_value tx) :: u128)
      in \<lparr>wtx_hash = hex_b256 (tx_hash tx),
          wtx_from = hex_address (td_sender data),
          wtx_to = map_option hex_address (tx_to tx),
          wtx_value = value,
          wtx_value_tel = f64_div (f64_of_word value) (10 ^ 18),
          wtx_gas = tx_gas_limit tx,
          wtx_gas_price = saturating_narrow (tx_effective_gas_price tx (td_base_fee data)),
          wtx_gas_used = td_gas_used data,
          wtx_status = Some (td_success data),
          wtx_input = input,
          wtx_decoded_input = None,
          wtx_block_number = Some (td_block_number data),
          wtx_transaction_index = Some (td_tx_index data),
          wtx_nonce = tx_nonce tx,
          wtx_tx_type = tx_ty tx,
          wtx_tx_type_name = tx_type_name (tx_ty tx),
          wtx_token_transfers = None,
          wtx_token_transfer_count = None\<rparr>)"

definition build_block_consensus :: "wire_fns \<Rightarrow> header_consensus_fields \<Rightarrow> u64 option \<Rightarrow> api_block_consensus" where
  "build_block_consensus w f consensus_number =
     \<lparr>wbc_digest = hex_b256 (hc_digest f),
      wbc_digest_bs58 = bs58_digest w (hc_digest f),
      wbc_epoch = hc_epoch f,
      wbc_round = hc_round f,
      wbc_batch_index = hc_batch_index f,
      wbc_worker_id = hc_worker_id f,
      wbc_batch_digest = hex_b256 (hc_batch_digest f),
      wbc_prev_randao = map_option hex_b256 (hc_prev_randao f),
      wbc_closes_epoch = hc_closes_epoch f,
      wbc_consensus_number = consensus_number\<rparr>"

definition build_api_block :: "wire_fns \<Rightarrow> chain_fns \<Rightarrow> sealed_block \<Rightarrow> api_block" where
  "build_api_block w fns block =
     (let header = sb_header block;
          transactions = map (\<lambda>tx. hex_b256 (tx_hash tx)) (sb_transactions block)
      in \<lparr>wbl_number = eh_number header,
          wbl_hash = hex_b256 (sb_hash block),
          wbl_parent_hash = hex_b256 (eh_parent_hash header),
          wbl_timestamp = eh_timestamp header,
          wbl_transactions = transactions,
          wbl_transaction_count = length transactions,
          wbl_gas_used = eh_gas_used header,
          wbl_gas_limit = eh_gas_limit header,
          wbl_miner = hex_address (eh_beneficiary header),
          wbl_validator = hex_address (eh_beneficiary header),
          wbl_extra_data = hex_bytes (eh_extra_data header),
          wbl_base_fee = eh_base_fee_per_gas header,
          wbl_size = sb_rlp_length block,
          wbl_consensus = map_option (\<lambda>f. build_block_consensus w f None) (decode_consensus_fields fns header)\<rparr>)"

definition build_token_transfer :: "wire_fns \<Rightarrow> stored_transfer \<Rightarrow> tx_data \<Rightarrow> stored_token option \<Rightarrow> api_token_transfer" where
  "build_token_transfer w row hydrated token =
     (let value = unwrap_or (parse_u128 (st_value row)) (- 1);
          decimals = unwrap_or (Option.bind token so_decimals) 0
      in \<lparr>wtt_tx_hash = hex_b256 (tx_hash (td_tx hydrated)),
          wtt_from = st_from row,
          wtt_to = st_to row,
          wtt_value = value,
          wtt_value_exact = st_value row,
          wtt_amount = token_amount w (st_value row) decimals,
          wtt_block_number = st_block_number row,
          wtt_timestamp = td_timestamp hydrated,
          wtt_token_address = st_token row,
          wtt_token_symbol = Option.bind token so_symbol,
          wtt_log_index = st_log_index row\<rparr>)"

section \<open>Consensus side\<close>

definition build_consensus_header :: "wire_fns \<Rightarrow> consensus_header \<Rightarrow> api_exec_range option \<Rightarrow> api_consensus_header" where
  "build_consensus_header w h exec_blocks =
     (let digest = ch_digest h;
          dag = ch_sub_dag h;
          leader = sd_leader dag
      in \<lparr>wch_number = ch_number h,
          wch_digest = hex_digest digest,
          wch_digest_bs58 = bs58_digest w digest,
          wch_parent_digest = hex_digest (ch_parent_hash h),
          wch_parent_digest_bs58 = bs58_digest w (ch_parent_hash h),
          wch_epoch = sd_leader_epoch dag,
          wch_round = sd_leader_round dag,
          wch_leader = authority_display w (ph_author leader),
          wch_leader_header_digest = hex_digest (ph_digest leader),
          wch_committed_at = sd_commit_timestamp dag,
          wch_sub_dag_header_count = length (sd_headers dag),
          wch_batch_count = sd_num_primary_batches dag,
          wch_randomness = hex_b256 (sd_randomness dag),
          wch_extra = hex_b256 (ch_extra h),
          wch_exec_blocks = exec_blocks\<rparr>)"

definition build_sub_dag_header :: "wire_fns \<Rightarrow> primary_header \<Rightarrow> bool \<Rightarrow> bls_key option \<Rightarrow> api_sub_dag_header" where
  "build_sub_dag_header w h is_leader bls =
     (let exec = ph_latest_execution_block h
      in \<lparr>wsh_digest = hex_digest (ph_digest h),
          wsh_author = authority_display w (ph_author h),
          wsh_author_bls = map_option (bls_display w) bls,
          wsh_round = ph_round h,
          wsh_epoch = ph_epoch h,
          wsh_created_at = ph_created_at h,
          wsh_parents = map hex_digest (ph_parents h),
          wsh_payload = map (\<lambda>(digest, worker_id).
             \<lparr>wpe_batch_digest = hex_b256 digest, wpe_worker_id = worker_id\<rparr>) (ph_payload h),
          wsh_latest_execution_block = \<lparr>wnh_number = nh_number exec, wnh_hash = hex_b256 (nh_hash exec)\<rparr>,
          wsh_is_leader = is_leader\<rparr>)"

definition build_reputation_scores :: "wire_fns \<Rightarrow> reputation_scores \<Rightarrow> api_reputation_scores" where
  "build_reputation_scores w scores =
     \<lparr>wrp_scores = map (\<lambda>(authority, score). \<lparr>was_authority = authority_display w authority, was_score = score\<rparr>)
        (rs_authorities_by_score_desc scores),
      wrp_final_of_schedule = rs_final_of_schedule scores\<rparr>"

definition batch_tx_hashes :: "wire_fns \<Rightarrow> batch \<Rightarrow> string list" where
  "batch_tx_hashes w batch = map (\<lambda>raw. hex_b256 (keccak256 w raw)) (ba_transactions batch)"

definition exec_block_number :: "api_exec_range option \<Rightarrow> u64 \<Rightarrow> u64 option" where
  "exec_block_number exec_blocks index =
     (case exec_blocks of
        None \<Rightarrow> None
      | Some r \<Rightarrow> let n = wxr_first r + index in if n \<le> wxr_last r then Some n else None)"

definition build_consensus_batches ::
  "wire_fns \<Rightarrow> consensus_output \<Rightarrow> api_exec_range option \<Rightarrow> bool \<Rightarrow> api_consensus_batch list" where
  "build_consensus_batches w out exec_blocks with_tx_hashes =
     (let certified = co_batches out
      in map (\<lambda>(position, cert_idx, batch_idx).
           let cert = certified ! cert_idx;
               batch = ce_batches cert ! batch_idx;
               digest = unwrap_or (co_get_batch_digest out position) (ba_digest batch);
               index = of_nat position
           in \<lparr>wcb_index = index,
               wcb_digest = hex_b256 digest,
               wcb_worker_id = ba_worker_id batch,
               wcb_beneficiary = hex_address (ba_beneficiary batch),
               wcb_authority_address = hex_address (ce_address cert),
               wcb_base_fee_per_gas = ba_base_fee_per_gas batch,
               wcb_tx_count = length (ba_transactions batch),
               wcb_size_bytes = ba_size batch,
               wcb_exec_block_number = exec_block_number exec_blocks index,
               wcb_tx_hashes = (if with_tx_hashes then Some (batch_tx_hashes w batch) else None)\<rparr>)
         (enumerate 0 (co_flatten_batches out)))"

definition keys_by_identifier :: "wire_fns \<Rightarrow> bls_key list option \<Rightarrow> (authority, bls_key) btree_map" where
  "keys_by_identifier w committee =
     (case committee of
        Some keys \<Rightarrow> fold (\<lambda>key m. bt_insert (authority_of_key w key) key m) keys bt_empty
      | None \<Rightarrow> bt_empty)"

definition build_consensus_block ::
  "wire_fns \<Rightarrow> api_consensus_header \<Rightarrow> consensus_output \<Rightarrow> bls_key list option \<Rightarrow> api_consensus_batch list \<Rightarrow>
   bool option \<Rightarrow> api_consensus_block" where
  "build_consensus_block w header out committee batches closes_epoch =
     (let by_identifier = keys_by_identifier w committee;
          sub_dag = co_sub_dag out;
          headers = sd_headers sub_dag;
          leader = sd_leader sub_dag
      in \<lparr>wck_header = header,
          wck_leader_bls = map_option (bls_display w) (bt_get (ph_author leader) by_identifier),
          wck_sub_dag = map (\<lambda>(i, h).
             build_sub_dag_header w h (i + 1 = length headers) (bt_get (ph_author h) by_identifier)) (enumerate 0 headers),
          wck_reputation_scores = build_reputation_scores w (sd_reputation_scores sub_dag),
          wck_batches = batches,
          wck_closes_epoch = closes_epoch\<rparr>)"

definition build_epoch_record :: "wire_fns \<Rightarrow> epoch_record \<Rightarrow> api_epoch_record" where
  "build_epoch_record w r =
     (let digest = er_digest r
      in \<lparr>wer_epoch = er_epoch r,
          wer_digest = hex_digest digest,
          wer_digest_bs58 = bs58_digest w digest,
          wer_parent_hash = hex_digest (er_parent_hash r),
          wer_parent_hash_bs58 = bs58_digest w (er_parent_hash r),
          wer_committee = map (bls_display w) (er_committee r),
          wer_next_committee = map (bls_display w) (er_next_committee r),
          wer_final_state = \<lparr>wnh_number = nh_number (er_final_state r), wnh_hash = hex_b256 (nh_hash (er_final_state r))\<rparr>,
          wer_final_consensus =
            \<lparr>wcn_number = nh_number (er_final_consensus r),
             wcn_hash = hex_digest (nh_hash (er_final_consensus r)),
             wcn_hash_bs58 = bs58_digest w (nh_hash (er_final_consensus r))\<rparr>,
          wer_super_quorum = er_super_quorum r\<rparr>)"

text \<open>The signer loop of \<open>build_epoch_certificate\<close>, with the pushed keys and the counter as its state.\<close>

fun expand_signers :: "wire_fns \<Rightarrow> bls_key list \<Rightarrow> u32 list \<Rightarrow> string list \<Rightarrow> u32 \<Rightarrow> string list \<times> u32" where
  "expand_signers w committee [] signers unresolved = (signers, unresolved)"
| "expand_signers w committee (index # indices) signers unresolved =
     (case slice_get committee (unat index) of
        Some key \<Rightarrow> expand_signers w committee indices (signers @ [bls_display w key]) unresolved
      | None \<Rightarrow> expand_signers w committee indices signers (unresolved + 1))"

definition build_epoch_certificate ::
  "wire_fns \<Rightarrow> epoch_record \<Rightarrow> epoch_certificate \<Rightarrow> bool option \<Rightarrow> api_epoch_certificate" where
  "build_epoch_certificate w r c verified =
     (let signer_indices = ec_signed_authorities c;
          (signers, unresolved_signers) = expand_signers w (er_committee r) signer_indices [] 0
      in \<lparr>wec_epoch_hash = hex_digest (ec_epoch_hash c),
          wec_epoch_hash_bs58 = bs58_digest w (ec_epoch_hash c),
          wec_signature = signature_display w (ec_signature c),
          wec_signer_indices = signer_indices,
          wec_signers = signers,
          wec_unresolved_signers = unresolved_signers,
          wec_signer_count = of_nat (length (ec_signed_authorities c)),
          wec_super_quorum = er_super_quorum r,
          wec_verified = verified\<rparr>)"

section \<open>What the builders keep\<close>

lemma expand_signers_eq:
  "expand_signers w committee indices signers k =
   (signers @ List.map_filter (\<lambda>i. map_option (bls_display w) (slice_get committee (unat i))) indices,
    k + of_nat (length (filter (\<lambda>i. slice_get committee (unat i) = None) indices)))"
  by (induction indices arbitrary: signers k) (auto simp: map_filter_simps split: option.splits)

lemma hex_digest_b256: "hex_digest d = hex_b256 d"
  by (simp add: hex_digest_def hex_bytes_def hex_b256_def hex_word_def)

end
