(* ===== verification/Node_Consensus.thy ===== *)
theory Node_Consensus
  imports Node_Reads
begin

text \<open>
  The rest of \<open>src/node_reads.rs\<close>: the validator, block and consensus reads. The consensus chain
  answers asynchronously, one call at a time; a call is its answer.
\<close>

section \<open>Validators and epochs\<close>

text \<open>\<open>sort_by\<close> with the count descending, then the address ascending; the sort is stable.\<close>

definition rank :: "'k::linorder \<times> u64 \<Rightarrow> u64 \<times> 'k" where
  "rank e = (- 1 - snd e, fst e)"

definition sort_ranked :: "('k::linorder \<times> u64) list \<Rightarrow> ('k \<times> u64) list" where
  "sort_ranked counts = sort_key rank counts"

definition count_beneficiaries :: "exec_header list \<Rightarrow> (address, u64) btree_map" where
  "count_beneficiaries headers = fold (\<lambda>h counts. bt_bump (eh_beneficiary h) 1 counts) headers bt_empty"

definition leader_counts :: "u64 \<Rightarrow> node_reader \<Rightarrow> report + (u64 \<times> u64 \<times> (address \<times> u64) list)" where
  "leader_counts window = node_read (\<lambda>env.
     try_bind (re_last_block_number env) (\<lambda>tip.
       let from = saturating_sub tip (saturating_sub window 1)
       in try_bind (re_blocks_for_range env from tip) (\<lambda>headers.
            Inr (from, tip, sort_ranked (bt_entries (count_beneficiaries headers))))))"

definition current_epoch_with_tip :: "node_reader \<Rightarrow> report + (epoch_state \<times> u64)" where
  "current_epoch_with_tip = node_read (\<lambda>env.
     try_bind (re_epoch_state_from_canonical_tip env) (\<lambda>state.
     try_bind (re_last_block_number env) (\<lambda>tip. Inr (state, tip))))"

definition current_committee_validators :: "node_reader \<Rightarrow> report + validator_info list" where
  "current_committee_validators = node_read (\<lambda>env.
     try_bind (re_epoch_state_from_canonical_tip env) (\<lambda>state. Inr (es_validators state)))"

text \<open>
  \<open>committee_addresses\<close>: the pin (\<open>None\<close> is genesis), then the read at the pin, whose errors are
  dropped.
\<close>

definition committee_at_pin :: "u32 \<Rightarrow> b256 option \<Rightarrow> node_reader \<Rightarrow> report + address list option" where
  "committee_at_pin epoch pin = node_read (\<lambda>env.
     try_bind (case pin of Some hash \<Rightarrow> re_sealed_header_by_hash env hash | None \<Rightarrow> re_sealed_header_by_number env 0) (\<lambda>found.
       case found of
         None \<Rightarrow> Inr None
       | Some header \<Rightarrow>
           try_bind (re_epoch_state_at_header env header) (\<lambda>state.
             if es_epoch state \<noteq> epoch then Inr None
             else Inr (Some (map vi_address (es_validators state))))))"

definition committee_addresses :: "u32 \<Rightarrow> node_reader \<Rightarrow> address list option" where
  "committee_addresses epoch reader =
     (case checked_sub epoch 1 of
        None \<Rightarrow> (case committee_at_pin epoch None reader of Inr found \<Rightarrow> found | Inl _ \<Rightarrow> None)
      | Some previous \<Rightarrow>
          (case cc_record_by_epoch (nr_consensus reader) previous of
             None \<Rightarrow> None
           | Some record \<Rightarrow>
               (case committee_at_pin epoch (Some (nh_hash (er_final_state record))) reader of
                  Inr found \<Rightarrow> found
                | Inl _ \<Rightarrow> None)))"

fun timestamps_loop :: "reth_env \<Rightarrow> u64 list \<Rightarrow> (u64, u64) btree_map \<Rightarrow> report + (u64, u64) btree_map" where
  "timestamps_loop env [] out = Inr out"
| "timestamps_loop env (number # numbers) out =
     try_bind (re_header_by_number env number) (\<lambda>found.
       timestamps_loop env numbers
         (case found of Some header \<Rightarrow> bt_insert number (eh_timestamp header) out | None \<Rightarrow> out))"

definition header_timestamps :: "u64 list \<Rightarrow> node_reader \<Rightarrow> report + (u64, u64) btree_map" where
  "header_timestamps numbers = node_read (\<lambda>env. timestamps_loop env numbers bt_empty)"

section \<open>Blocks and the chain head\<close>

definition blocks_page :: "u64 \<Rightarrow> u64 \<Rightarrow> node_reader \<Rightarrow> report + (sealed_block list \<times> u64)" where
  "blocks_page page per_page = node_read (\<lambda>env.
     try_bind (re_last_block_number env) (\<lambda>tip.
       let tot = saturating_add tip 1
       in try_bind (try_map (\<lambda>number. try_bind (re_sealed_block_by_number env number) (ok_or (BlockMissing number tip)))
            (desc_page_items tot page per_page)) (\<lambda>blocks. Inr (blocks, tot))))"

definition block_by_number :: "u64 \<Rightarrow> node_reader \<Rightarrow> report + sealed_block option" where
  "block_by_number number = node_read (\<lambda>env. re_sealed_block_by_number env number)"

record stats_snapshot =
  ss_latest_block :: u64
  ss_gas_price_wei :: u128
  ss_chain_id :: u64
  ss_total_txs :: u64

definition read_stats_snapshot :: "node_reader \<Rightarrow> report + stats_snapshot" where
  "read_stats_snapshot = node_read (\<lambda>env.
     try_bind (re_last_block_number env) (\<lambda>latest.
     try_bind (re_get_gas_price env) (\<lambda>gas.
     try_bind (re_total_transactions env) (\<lambda>tot.
       Inr \<lparr>ss_latest_block = latest, ss_gas_price_wei = gas, ss_chain_id = re_chain_id env, ss_total_txs = tot\<rparr>))))"

definition tip_header :: "node_reader \<Rightarrow> report + exec_header" where
  "tip_header = node_read (\<lambda>env. Inr (re_canonical_tip env))"

section \<open>Consensus outputs\<close>

definition consensus_number_stored :: "u64 \<Rightarrow> u64 \<Rightarrow> bool" where
  "consensus_number_stored number latest = (number \<noteq> 0 \<and> number \<le> latest)"

definition latest_consensus_number :: "node_reader \<Rightarrow> u64" where
  "latest_consensus_number reader = cc_latest_consensus_number (nr_consensus reader)"

definition latest_consensus_epoch :: "node_reader \<Rightarrow> u32" where
  "latest_consensus_epoch reader = cc_latest_consensus_epoch (nr_consensus reader)"

definition read_consensus_output :: "u64 \<Rightarrow> node_reader \<Rightarrow> report + consensus_output option" where
  "read_consensus_output number reader =
     (if \<not> consensus_number_stored number (latest_consensus_number reader) then Inr None
      else cc_consensus_output_by_number (nr_consensus reader) number)"

definition consensus_latest_header :: "node_reader \<Rightarrow> report + consensus_header option" where
  "consensus_latest_header reader =
     (let latest = latest_consensus_number reader
      in if latest = 0 then Inr None
         else cc_consensus_header_by_number (nr_consensus reader) latest)"

text \<open>The page loop; a header the observer lacks is skipped (the code also logs the skipped numbers).\<close>

fun collect_headers :: "consensus_chain \<Rightarrow> u64 list \<Rightarrow> consensus_header list \<Rightarrow> report + consensus_header list" where
  "collect_headers chain [] headers = Inr headers"
| "collect_headers chain (number # numbers) headers =
     try_bind (cc_consensus_header_by_number chain number) (\<lambda>found.
       collect_headers chain numbers (case found of Some header \<Rightarrow> headers @ [header] | None \<Rightarrow> headers))"

definition consensus_headers_page :: "u64 \<Rightarrow> u64 \<Rightarrow> node_reader \<Rightarrow> report + (consensus_header list \<times> u64)" where
  "consensus_headers_page page per_page reader =
     (let tot = latest_consensus_number reader
      in try_bind (collect_headers (nr_consensus reader) (consensus_page_numbers tot page per_page) []) (\<lambda>headers.
           Inr (headers, tot)))"

definition consensus_number_by_digest :: "u32 \<Rightarrow> b256 \<Rightarrow> node_reader \<Rightarrow> report + u64 option" where
  "consensus_number_by_digest epoch digest reader =
     (if latest_consensus_epoch reader < epoch then Inr None
      else try_bind (cc_consensus_header_by_digest (nr_consensus reader) epoch digest) (\<lambda>found.
             Inr (map_option ch_number found)))"

section \<open>Epoch records\<close>

definition epoch_record_pair ::
  "u32 \<Rightarrow> node_reader \<Rightarrow> (epoch_record \<times> epoch_certificate option) option \<times> epoch_record option" where
  "epoch_record_pair epoch reader =
     (let this = cc_get_epoch_by_number (nr_consensus reader) epoch;
          previous = (case checked_sub epoch 1 of Some prev \<Rightarrow> cc_record_by_epoch (nr_consensus reader) prev | None \<Rightarrow> None)
      in (this, previous))"

definition epoch_pack_complete :: "epoch_record \<Rightarrow> node_reader \<Rightarrow> bool" where
  "epoch_pack_complete record reader = cc_is_epoch_complete (nr_consensus reader) record"

definition round_rank :: "authority \<times> u32 \<Rightarrow> u32 \<times> authority" where
  "round_rank e = (- 1 - snd e, fst e)"

definition epoch_last_committed :: "u32 \<Rightarrow> node_reader \<Rightarrow> (authority \<times> u32) list option" where
  "epoch_last_committed epoch reader =
     (if latest_consensus_epoch reader < epoch then None
      else case cc_read_last_committed (nr_consensus reader) epoch of
             Inr rounds \<Rightarrow> Some (sort_key round_rank rounds)
           | Inl _ \<Rightarrow> None)"

definition epoch_final_reputation :: "u32 \<Rightarrow> node_reader \<Rightarrow> reputation_scores option" where
  "epoch_final_reputation epoch reader =
     (if latest_consensus_epoch reader < epoch then None
      else case cc_read_latest_commit_with_final_reputation_scores (nr_consensus reader) epoch of
             Inr sub_dag \<Rightarrow> map_option sd_reputation_scores sub_dag
           | Inl _ \<Rightarrow> None)"

definition committee_keys :: "u32 \<Rightarrow> node_reader \<Rightarrow> bls_key list option" where
  "committee_keys epoch reader = cc_get_committee_keys (nr_consensus reader) epoch"

definition verify_epoch_certificate :: "epoch_record \<Rightarrow> epoch_certificate \<Rightarrow> node_reader \<Rightarrow> report + bool" where
  "verify_epoch_certificate record cert reader =
     node_read (\<lambda>_. Inr (cc_verify_with_cert (nr_consensus reader) record cert)) reader"

end
