(* ===== verification/Api.thy ===== *)
theory Api
  imports Wire_Builders Node_Consensus Status "HOL-Library.Char_ord"
begin

text \<open>
  The handlers of \<open>src/api.rs\<close>: each is the function from the shared state to a response body or an
  \<open>api_error\<close>. A handler makes at most one pooled SQLite read (\<open>with_conn\<close>), on the connection
  \<open>as_pool\<close>; extracting path, query and body from the HTTP request is \<open>axum\<close>'s. The parsers of
  the dependencies (\<open>Address\<close>, \<open>TxHash\<close> and \<open>hex\<close>) are fields of \<open>api_fns\<close>.
\<close>

section \<open>State, errors and parameters\<close>

definition STATS_TTL :: nat where
  "STATS_TTL = 5 * 10 ^ 9"

definition MAX_CALLDATA_BYTES :: nat where
  "MAX_CALLDATA_BYTES = 128 * 1024"

definition DEFAULT_LEADER_WINDOW :: u64 where
  "DEFAULT_LEADER_WINDOW = 200"

definition MAX_LEADER_WINDOW :: u64 where
  "MAX_LEADER_WINDOW = 1000"

record api_fns =
  af_wire :: wire_fns
  af_chain :: chain_fns
  address_from_str :: "string \<Rightarrow> address option"
  hash_from_str :: "string \<Rightarrow> b256 option"
  hex_decode :: "string \<Rightarrow> bytes option"

text \<open>An \<open>Instant\<close> is its distance in nanoseconds from a fixed origin.\<close>

record api_state =
  as_fns :: api_fns
  as_reader :: node_reader
  as_pool :: conn
  as_status :: indexer_status
  as_stats_cache :: "(nat \<times> api_stats) option"

datatype api_error = NotFound | BadRequest string | InternalError report

text \<open>The status code and the \<open>error\<close> member of the body; the cause of a 500 is not shown.\<close>

definition into_response :: "api_error \<Rightarrow> nat \<times> string" where
  "into_response e =
     (case e of
        NotFound \<Rightarrow> (404, ''not found'')
      | BadRequest message \<Rightarrow> (400, message)
      | InternalError _ \<Rightarrow> (500, ''internal error''))"

type_synonym 'a api = "api_state \<Rightarrow> api_error + 'a"

definition from_report :: "report + 'a \<Rightarrow> api_error + 'a" where
  "from_report r = (case r of Inl e \<Rightarrow> Inl (InternalError e) | Inr x \<Rightarrow> Inr x)"

definition with_conn :: "'a sql \<Rightarrow> 'a api" where
  "with_conn f st = from_report (fst (f (as_pool st)))"

definition reading :: "(node_reader \<Rightarrow> report + 'a) \<Rightarrow> 'a api" where
  "reading f st = from_report (f (as_reader st))"

section \<open>Query and path parameters\<close>

record txs_query =
  tq_page :: "u64 option"
  tq_per_page :: "u64 option"
  tq_tx_type :: "string option"

definition paging :: "txs_query \<Rightarrow> page_query" where
  "paging q = \<lparr>pq_page = tq_page q, pq_per_page = tq_per_page q\<rparr>"

definition query_tx_type :: "txs_query \<Rightarrow> api_error + u8 option" where
  "query_tx_type q =
     (case tq_tx_type q of
        None \<Rightarrow> Inr None
      | Some raw \<Rightarrow>
          (case parse_tx_type raw of
             Some t \<Rightarrow> Inr (Some t)
           | None \<Rightarrow> Inl (BadRequest
               (''unknown tx type: '' @ raw @ ''; expected legacy|eip2930|eip1559|eip4844|eip7702 or 0-4''))))"

definition parse_number :: "string \<Rightarrow> string \<Rightarrow> api_error + u64" where
  "parse_number raw what = ok_or (BadRequest (''invalid '' @ what @ '': '' @ raw)) (parse_u64 raw)"

definition exec_range :: "consensus_range \<Rightarrow> api_exec_range" where
  "exec_range r = \<lparr>wxr_first = rg_first_block r, wxr_last = rg_last_block r\<rparr>"

definition parse_address :: "api_fns \<Rightarrow> string \<Rightarrow> api_error + address" where
  "parse_address fns raw = ok_or (BadRequest (''invalid address: '' @ raw)) (address_from_str fns raw)"

definition parse_hash :: "api_fns \<Rightarrow> string \<Rightarrow> api_error + b256" where
  "parse_hash fns raw = ok_or (BadRequest (''invalid transaction hash: '' @ raw)) (hash_from_str fns raw)"

definition epoch_u32 :: "u64 \<Rightarrow> u32" where
  "epoch_u32 epoch = saturating_narrow epoch"

section \<open>Health and stats\<close>

definition health :: "api_state \<Rightarrow> health_response" where
  "health st =
     (let live = live (as_status st)
      in \<lparr>whe_status = (if live then ''ok'' else ''degraded''),
          whe_indexing_live = live,
          whe_last_indexed = unwrap_or (status_last_indexed (as_status st)) 0,
          whe_node_tip = node_tip (as_status st),
          whe_lag = lag (as_status st)\<rparr>)"

text \<open>\<open>now\<close> is the clock when the cache is looked at, \<open>later\<close> when it is refilled.\<close>

definition fresh_stats :: "node_reader \<Rightarrow> api_error + api_stats" where
  "fresh_stats reader =
     try_bind (from_report (read_stats_snapshot reader)) (\<lambda>snapshot.
     let epoch = latest_consensus_epoch reader
     in try_bind (case committee_keys epoch reader of
            Some keys \<Rightarrow> Inr (length keys)
          | None \<Rightarrow> try_bind (from_report (current_epoch_with_tip reader)) (\<lambda>(state, tip). Inr (length (es_validators state))))
        (\<lambda>validator_count.
          Inr \<lparr>wst_latest_block = ss_latest_block snapshot,
               wst_gas_price_gwei = f64_div (f64_of_word (ss_gas_price_wei snapshot)) (10 ^ 9),
               wst_chain_id = ss_chain_id snapshot,
               wst_epoch_number = Some (ucast epoch),
               wst_validator_count = validator_count,
               wst_total_txs = ss_total_txs snapshot\<rparr>))"

definition stats :: "nat \<Rightarrow> nat \<Rightarrow> api_state \<Rightarrow> (api_error + api_stats) \<times> api_state" where
  "stats now later st =
     (case as_stats_cache st of
        Some (refreshed_at, cached) \<Rightarrow>
          if now - refreshed_at < STATS_TTL then (Inr cached, st)
          else (case fresh_stats (as_reader st) of
                  Inl e \<Rightarrow> (Inl e, st)
                | Inr s \<Rightarrow> (Inr s, st\<lparr>as_stats_cache := Some (later, s)\<rparr>))
      | None \<Rightarrow>
          (case fresh_stats (as_reader st) of
             Inl e \<Rightarrow> (Inl e, st)
           | Inr s \<Rightarrow> (Inr s, st\<lparr>as_stats_cache := Some (later, s)\<rparr>)))"

section \<open>Transactions\<close>

definition envelope_of :: "'a list \<Rightarrow> u64 \<Rightarrow> u64 \<Rightarrow> u64 \<Rightarrow> 'a envelope" where
  "envelope_of items tot page per_page =
     \<lparr>en_items = items, en_total = tot, en_page = page, en_per_page = per_page\<rparr>"

definition hydrate_tx_page :: "tx_pointer list \<Rightarrow> api_transaction list api" where
  "hydrate_tx_page pointers st =
     try_bind (reading (hydrate_pointers pointers) st) (\<lambda>hydrated.
       Inr (map (\<lambda>data. build_api_transaction data input_mode.List) hydrated))"

definition txs_list :: "txs_query \<Rightarrow> api_transaction envelope api" where
  "txs_list q st =
     (let (page, per_page, offset) = page_params (paging q)
      in try_bind (query_tx_type q) (\<lambda>tx_type.
         case tx_type of
           None \<Rightarrow>
             try_bind (reading (latest_txs_page page per_page) st) (\<lambda>(rows, tot).
               Inr (envelope_of (map (\<lambda>data. build_api_transaction data input_mode.List) rows) tot page per_page))
         | Some tx_type \<Rightarrow>
             try_bind (with_conn (andthen (tx_type_page tx_type per_page offset) (\<lambda>pointers.
                 andthen (count_tx_type tx_type) (\<lambda>tot. ret (pointers, tot)))) st) (\<lambda>(pointers, tot).
             try_bind (hydrate_tx_page pointers st) (\<lambda>items. Inr (envelope_of items tot page per_page)))))"

text \<open>The cached metadata of each token of a page of rows.\<close>

fun page_tokens_loop :: "stored_transfer list \<Rightarrow> (string, stored_token) btree_map \<Rightarrow> (string, stored_token) btree_map sql" where
  "page_tokens_loop [] tokens = ret tokens"
| "page_tokens_loop (row # rows) tokens =
     (case bt_get (st_token row) tokens of
        Some _ \<Rightarrow> page_tokens_loop rows tokens
      | None \<Rightarrow> andthen (token_row_of (st_token row)) (\<lambda>found.
          page_tokens_loop rows (case found of Some token \<Rightarrow> bt_insert (st_token row) token tokens | None \<Rightarrow> tokens)))"

definition page_tokens :: "stored_transfer list \<Rightarrow> (string, stored_token) btree_map sql" where
  "page_tokens rows = page_tokens_loop rows bt_empty"

definition transfer_page ::
  "stored_transfer list sql \<Rightarrow> u64 sql \<Rightarrow> (stored_transfer list \<times> u64 \<times> (string, stored_token) btree_map) sql" where
  "transfer_page read_rows read_total =
     andthen read_rows (\<lambda>rows.
     andthen read_total (\<lambda>tot.
     andthen (page_tokens rows) (\<lambda>tokens. ret (rows, tot, tokens))))"

definition tx_transfer_page :: "tx_data \<Rightarrow> u64 \<Rightarrow> u64 \<Rightarrow> (api_token_transfer list \<times> u64) api" where
  "tx_transfer_page data limit offset st =
     (let block_number = td_block_number data; tx_index = td_tx_index data
      in try_bind (with_conn (transfer_page (transfers_for_tx_page block_number tx_index limit offset)
             (count_transfers_for_tx block_number tx_index)) st) (\<lambda>(rows, tot, tokens).
           Inr (map (\<lambda>row. build_token_transfer (af_wire (as_fns st)) row data (bt_get (st_token row) tokens)) rows, tot)))"

definition tx_by_hash_handler :: "string \<Rightarrow> api_transaction api" where
  "tx_by_hash_handler raw st =
     try_bind (parse_hash (as_fns st) raw) (\<lambda>hash.
     try_bind (reading (tx_by_hash hash) st) (\<lambda>found.
       case found of
         None \<Rightarrow> Inl NotFound
       | Some data \<Rightarrow>
           let item = build_api_transaction data Detail
           in if td_block_number data \<le> unwrap_or (status_last_indexed (as_status st)) 0
              then try_bind (tx_transfer_page data MAX_PER_PAGE 0 st) (\<lambda>(transfers, count).
                     Inr (item\<lparr>wtx_token_transfers := Some transfers, wtx_token_transfer_count := Some count\<rparr>))
              else Inr item))"

definition tx_transfers_handler :: "string \<Rightarrow> page_query \<Rightarrow> api_token_transfer envelope api" where
  "tx_transfers_handler raw q st =
     try_bind (parse_hash (as_fns st) raw) (\<lambda>hash.
     let (page, per_page, offset) = page_params q
     in try_bind (reading (tx_by_hash hash) st) (\<lambda>found.
        case found of
          None \<Rightarrow> Inl NotFound
        | Some data \<Rightarrow>
            try_bind (tx_transfer_page data per_page offset st) (\<lambda>(items, tot).
              Inr (envelope_of items tot page per_page))))"

section \<open>Blocks\<close>

definition blocks_list :: "page_query \<Rightarrow> api_block envelope api" where
  "blocks_list q st =
     (let (page, per_page, _) = page_params q
      in try_bind (reading (blocks_page page per_page) st) (\<lambda>(blocks, tot).
           Inr (envelope_of (map (build_api_block (af_wire (as_fns st)) (af_chain (as_fns st))) blocks) tot page per_page)))"

text \<open>The consensus number is best effort: an error of that read leaves it out.\<close>

definition block_by_number_handler :: "string \<Rightarrow> api_block api" where
  "block_by_number_handler raw st =
     try_bind (parse_number raw ''block number'') (\<lambda>number.
     try_bind (reading (block_by_number number) st) (\<lambda>found.
       case found of
         None \<Rightarrow> Inl NotFound
       | Some block \<Rightarrow>
           let item = build_api_block (af_wire (as_fns st)) (af_chain (as_fns st)) block
           in case (wbl_consensus item, decode_consensus_fields (af_chain (as_fns st)) (sb_header block)) of
                (Some consensus, Some f) \<Rightarrow>
                  (case consensus_number_by_digest (hc_epoch f) (hc_digest f) (as_reader st) of
                     Inr resolved \<Rightarrow> Inr (item\<lparr>wbl_consensus := Some (consensus\<lparr>wbc_consensus_number := resolved\<rparr>)\<rparr>)
                   | Inl _ \<Rightarrow> Inr item)
              | _ \<Rightarrow> Inr item))"

section \<open>Addresses and tokens\<close>

definition address_summary :: "string \<Rightarrow> api_address api" where
  "address_summary raw st =
     try_bind (parse_address (as_fns st) raw) (\<lambda>address.
     try_bind (reading (account_summary address) st) (\<lambda>(account, code).
     let key = addr_hex address
     in try_bind (with_conn (count_address_txs key) st) (\<lambda>indexed_tx_count.
        let balance = unwrap_or (map_option ac_balance account) 0;
            code_hex = (case code of Some c \<Rightarrow> if c \<noteq> [] then Some (hex_bytes c) else None | None \<Rightarrow> None)
        in Inr \<lparr>wad_address = key, wad_balance_wei = to_dec balance, wad_balance_tel = wei_to_tel balance,
                wad_nonce = unwrap_or (map_option ac_nonce account) 0, wad_is_contract = (code_hex \<noteq> None),
                wad_code = code_hex, wad_indexed_tx_count = indexed_tx_count\<rparr>)))"

definition address_txs :: "string \<Rightarrow> txs_query \<Rightarrow> api_transaction envelope api" where
  "address_txs raw q st =
     try_bind (parse_address (as_fns st) raw) (\<lambda>address.
     let key = addr_hex address;
         (page, per_page, offset) = page_params (paging q)
     in try_bind (query_tx_type q) (\<lambda>tx_type.
        try_bind (with_conn
            (case tx_type of
               None \<Rightarrow> andthen (address_txs_page key per_page offset) (\<lambda>pointers.
                        andthen (count_address_txs key) (\<lambda>tot. ret (pointers, tot)))
             | Some t \<Rightarrow> andthen (address_txs_page_by_type key t per_page offset) (\<lambda>pointers.
                          andthen (count_address_txs_by_type key t) (\<lambda>tot. ret (pointers, tot)))) st) (\<lambda>(pointers, tot).
        try_bind (hydrate_tx_page pointers st) (\<lambda>items. Inr (envelope_of items tot page per_page)))))"

definition hydrate_transfers ::
  "stored_transfer list \<Rightarrow> (string, stored_token) btree_map \<Rightarrow> api_token_transfer list api" where
  "hydrate_transfers rows tokens st =
     (let pointers = map (\<lambda>row. \<lparr>tp_block_number = st_block_number row, tp_tx_index = st_tx_index row\<rparr>) rows
      in try_bind (reading (hydrate_pointers pointers) st) (\<lambda>hydrated.
         if length hydrated \<noteq> length rows
         then Inl (InternalError (HydrationMismatch (length hydrated) (length rows)))
         else Inr (map (\<lambda>(row, data).
                build_token_transfer (af_wire (as_fns st)) row data (bt_get (st_token row) tokens)) (zip rows hydrated))))"

definition address_transfers :: "string \<Rightarrow> page_query \<Rightarrow> api_token_transfer envelope api" where
  "address_transfers raw q st =
     try_bind (parse_address (as_fns st) raw) (\<lambda>address.
     let key = addr_hex address;
         (page, per_page, offset) = page_params q
     in try_bind (with_conn (transfer_page (address_transfers_page key per_page offset) (count_address_transfers key)) st)
          (\<lambda>(rows, tot, tokens).
        try_bind (hydrate_transfers rows tokens st) (\<lambda>items. Inr (envelope_of items tot page per_page))))"

definition token_info :: "string \<Rightarrow> api_token_info api" where
  "token_info raw st =
     try_bind (parse_address (as_fns st) raw) (\<lambda>address.
     let key = addr_hex address
     in try_bind (with_conn (token_row_of key) st) (\<lambda>cached.
        case cached of
          Some row \<Rightarrow>
            try_bind (reading (token_supply address) st) (\<lambda>total_supply.
              Inr \<lparr>wti_address = key, wti_name = so_name row, wti_symbol = so_symbol row, wti_decimals = so_decimals row,
                   wti_total_supply = total_supply, wti_metadata_status = so_status row\<rparr>)
        | None \<Rightarrow>
            try_bind (reading (token_metadata_and_supply address) st) (\<lambda>(metadata, total_supply).
              Inr \<lparr>wti_address = key, wti_name = md_name metadata, wti_symbol = md_symbol metadata,
                   wti_decimals = md_decimals metadata, wti_total_supply = total_supply,
                   wti_metadata_status = (if any_decoded metadata then 0 else 1)\<rparr>)))"

definition token_transfers :: "string \<Rightarrow> page_query \<Rightarrow> api_token_transfer envelope api" where
  "token_transfers raw q st =
     try_bind (parse_address (as_fns st) raw) (\<lambda>address.
     let key = addr_hex address;
         (page, per_page, offset) = page_params q
     in try_bind (with_conn (transfer_page (token_transfers_page key per_page offset) (count_token_transfers key)) st)
          (\<lambda>(rows, tot, tokens).
        try_bind (hydrate_transfers rows tokens st) (\<lambda>items. Inr (envelope_of items tot page per_page))))"

section \<open>Validators and calls\<close>

definition api_validator_of :: "validator_info \<Rightarrow> api_validator" where
  "api_validator_of info =
     \<lparr>wva_address = hex_address (vi_address info), wva_activation_epoch = vi_activation_epoch info,
      wva_exit_epoch = vi_exit_epoch info, wva_status = vi_current_status info, wva_is_retired = vi_is_retired info,
      wva_stake_version = vi_stake_version info, wva_region = vi_region info\<rparr>"

definition validators :: "api_validator list api" where
  "validators st = try_bind (reading current_committee_validators st) (\<lambda>infos. Inr (map api_validator_of infos))"

definition leaders :: "u64 option \<Rightarrow> leaders_response api" where
  "leaders requested st =
     (let window = clamp (unwrap_or requested DEFAULT_LEADER_WINDOW) 1 MAX_LEADER_WINDOW
      in try_bind (reading (leader_counts window) st) (\<lambda>(from_block, to_block, counts).
           Inr \<lparr>wlr_window = window, wlr_from_block = from_block, wlr_to_block = to_block,
                wlr_leaders = map (\<lambda>(address, blocks). \<lparr>wle_address = hex_address address, wle_blocks = blocks\<rparr>) counts\<rparr>))"

definition call :: "call_request \<Rightarrow> call_response api" where
  "call request st =
     try_bind (parse_address (as_fns st) (wrq_to request)) (\<lambda>to.
     let raw = unwrap_or (strip_prefix ''0x'' (wrq_data request)) (wrq_data request)
     in try_bind (ok_or (BadRequest ''malformed hex in data'') (hex_decode (as_fns st) raw)) (\<lambda>data.
        if MAX_CALLDATA_BYTES < length data
        then Inl (BadRequest (''calldata exceeds '' @ dec_of_nat MAX_CALLDATA_BYTES @ '' bytes''))
        else try_bind (reading (read_call to data) st) (\<lambda>outcome.
          case outcome of
            Call_Success result \<Rightarrow>
              Inr \<lparr>wrs_ok = True, wrs_result = Some (hex_bytes result), wrs_error = None, wrs_revert_data = None\<rparr>
          | Call_Revert reason output \<Rightarrow>
              Inr \<lparr>wrs_ok = False, wrs_result = None, wrs_error = Some (unwrap_or reason ''execution reverted''),
                   wrs_revert_data = Some (hex_bytes output)\<rparr>)))"

end
