(* ===== verification/Api_Consensus.thy ===== *)
theory Api_Consensus
  imports Api
begin

text \<open>
  The epoch and consensus handlers of \<open>src/api.rs\<close>. A page of rows is built row by row, and the boundary
  timestamps of the page are read at once; the readers are those of \<open>Node_Consensus\<close>.
\<close>

section \<open>Committees and certificates\<close>

definition committee_bls :: "wire_fns \<Rightarrow> node_reader \<Rightarrow> u32 \<Rightarrow> epoch_record option \<Rightarrow> string list" where
  "committee_bls w reader epoch record_opt =
     (case record_opt of
        Some r \<Rightarrow> map (bls_display w) (er_committee r)
      | None \<Rightarrow> unwrap_or (map_option (map (bls_display w)) (committee_keys epoch reader)) [])"

definition api_certificate ::
  "wire_fns \<Rightarrow> node_reader \<Rightarrow> epoch_record \<Rightarrow> epoch_certificate option \<Rightarrow> bool \<Rightarrow> api_error + api_epoch_certificate option" where
  "api_certificate w reader r certificate verify =
     (case certificate of
        None \<Rightarrow> Inr None
      | Some c \<Rightarrow>
          try_bind (if verify then map_result Some (from_report (verify_epoch_certificate r c reader)) else Inr None)
            (\<lambda>verified. Inr (Some (build_epoch_certificate w r c verified))))"

text \<open>The record of the current epoch is not shown.\<close>

definition shown_record ::
  "bool \<Rightarrow> (epoch_record \<times> epoch_certificate option) option \<Rightarrow> epoch_record option \<times> epoch_certificate option" where
  "shown_record is_current this =
     (case this of
        Some (r, certificate) \<Rightarrow> if is_current then (None, None) else (Some r, certificate)
      | None \<Rightarrow> (None, None))"

section \<open>Epochs\<close>

definition epoch_row :: "wire_fns \<Rightarrow> node_reader \<Rightarrow> u64 \<Rightarrow> u64 \<Rightarrow> bool \<Rightarrow> api_error + api_epoch" where
  "epoch_row w reader epoch current verify =
     (let is_current = (epoch = current);
          (this, previous) = epoch_record_pair (epoch_u32 epoch) reader;
          (record_opt, certificate) = shown_record is_current this;
          start_block = (case previous of None \<Rightarrow> 0 | Some p \<Rightarrow> saturating_add (nh_number (er_final_state p)) 1);
          committee = committee_bls w reader (epoch_u32 epoch) record_opt
      in try_bind (case record_opt of
             Some r \<Rightarrow> api_certificate w reader r certificate verify
           | None \<Rightarrow> Inr None) (\<lambda>certificate.
           Inr \<lparr>wep_epoch = epoch,
                wep_start_block = start_block,
                wep_end_block = map_option (\<lambda>r. nh_number (er_final_state r)) record_opt,
                wep_end_time = None,
                wep_committee_size = length committee,
                wep_committee_bls = committee,
                wep_certified = (certificate \<noteq> None),
                wep_is_current = is_current,
                wep_committee_addresses = None,
                wep_record = map_option (build_epoch_record w) record_opt,
                wep_certificate = certificate\<rparr>))"

text \<open>One read of the timestamps of all end blocks of a page; no read when there is none.\<close>

definition end_times :: "node_reader \<Rightarrow> u64 list \<Rightarrow> api_error + (u64, u64) btree_map" where
  "end_times reader end_blocks =
     (if end_blocks = [] then Inr bt_empty else from_report (header_timestamps end_blocks reader))"

definition end_time :: "(u64, u64) btree_map \<Rightarrow> u64 option \<Rightarrow> u64 option" where
  "end_time timestamps end_block = Option.bind end_block (\<lambda>n. bt_get n timestamps)"

definition epochs_list :: "page_query \<Rightarrow> api_epoch envelope api" where
  "epochs_list q st =
     (let (page, per_page, _) = page_params q;
          reader = as_reader st;
          current = ucast (latest_consensus_epoch reader);
          tot = saturating_add current 1
      in try_bind (try_map (\<lambda>number. epoch_row (af_wire (as_fns st)) reader number current False)
             (desc_page_items tot page per_page)) (\<lambda>items.
         try_bind (end_times reader (List.map_filter wep_end_block items)) (\<lambda>timestamps.
           Inr (envelope_of
             (if List.map_filter wep_end_block items = [] then items
              else map (\<lambda>item. item\<lparr>wep_end_time := end_time timestamps (wep_end_block item)\<rparr>) items) tot page per_page))))"

definition epoch_current :: "api_epoch_data api" where
  "epoch_current st =
     try_bind (reading current_epoch_with_tip st) (\<lambda>(state, latest_block).
       Inr \<lparr>wed_epoch = ucast (es_epoch state),
            wed_epoch_duration = ucast (es_epoch_duration state),
            wed_validator_count = length (es_validators state),
            wed_validators = map (\<lambda>info. hex_address (vi_address info)) (es_validators state),
            wed_start_block = es_block_height state,
            wed_latest_block = latest_block\<rparr>)"

definition epoch_by_number :: "string \<Rightarrow> api_epoch api" where
  "epoch_by_number raw st =
     try_bind (parse_number raw ''epoch number'') (\<lambda>number.
     let reader = as_reader st;
         current = ucast (latest_consensus_epoch reader)
     in if current < number then Inl NotFound
        else try_bind (epoch_row (af_wire (as_fns st)) reader number current True) (\<lambda>item.
             try_bind (case wep_end_block item of
                 None \<Rightarrow> Inr item
               | Some end_block \<Rightarrow>
                   try_bind (from_report (header_timestamps [end_block] reader)) (\<lambda>timestamps.
                     Inr (item\<lparr>wep_end_time := bt_get end_block timestamps\<rparr>))) (\<lambda>item.
               Inr (item\<lparr>wep_committee_addresses :=
                 map_option (map hex_address) (committee_addresses (epoch_u32 number) reader)\<rparr>))))"

section \<open>Consensus outputs\<close>

definition consensus_exec_range :: "b256 \<Rightarrow> api_exec_range option api" where
  "consensus_exec_range digest st =
     map_result (map_option exec_range) (with_conn (consensus_range_by_digest digest) st)"

definition consensus_latest :: "api_consensus_latest api" where
  "consensus_latest st =
     try_bind (reading consensus_latest_header st) (\<lambda>found.
       case found of
         None \<Rightarrow> Inl NotFound
       | Some latest \<Rightarrow>
           try_bind (reading tip_header st) (\<lambda>tip.
             let w = af_wire (as_fns st);
                 header = build_consensus_header w latest None
             in Inr \<lparr>wcl_number = wch_number header,
                     wcl_epoch = wch_epoch header,
                     wcl_round = wch_round header,
                     wcl_digest = wch_digest header,
                     wcl_digest_bs58 = wch_digest_bs58 header,
                     wcl_leader = wch_leader header,
                     wcl_committed_at = wch_committed_at header,
                     wcl_exec_tip = eh_number tip,
                     wcl_exec_tip_consensus =
                       map_option (\<lambda>f. build_block_consensus w f None) (decode_consensus_fields (af_chain (as_fns st)) tip)\<rparr>))"

definition consensus_blocks_list :: "page_query \<Rightarrow> api_consensus_header envelope api" where
  "consensus_blocks_list q st =
     (let (page, per_page, _) = page_params q
      in try_bind (reading (consensus_headers_page page per_page) st) (\<lambda>(headers, tot).
         let items = map (\<lambda>header. build_consensus_header (af_wire (as_fns st)) header None) headers
         in if items = [] then Inr (envelope_of items tot page per_page)
            else let digests = map ch_digest headers
                 in try_bind (with_conn (consensus_ranges_by_digests digests) st) (\<lambda>ranges.
                      Inr (envelope_of
                        (map (\<lambda>(item, digest). item\<lparr>wch_exec_blocks := map_option exec_range (bt_get digest ranges)\<rparr>)
                           (zip items digests)) tot page per_page))))"

definition consensus_block_handler :: "string \<Rightarrow> api_consensus_block api" where
  "consensus_block_handler raw st =
     try_bind (parse_number raw ''consensus block number'') (\<lambda>number.
     try_bind (reading (read_consensus_output number) st) (\<lambda>found.
       case found of
         None \<Rightarrow> Inl NotFound
       | Some output \<Rightarrow>
           let w = af_wire (as_fns st);
               header = build_consensus_header w (co_consensus_header output) None
           in try_bind (consensus_exec_range (co_consensus_header_hash output) st) (\<lambda>exec_blocks.
              let batches = build_consensus_batches w output exec_blocks False;
                  header = header\<lparr>wch_exec_blocks := exec_blocks\<rparr>;
                  epoch = wch_epoch header;
                  closes_epoch = map_option (\<lambda>r. nh_number (er_final_consensus r) = number)
                    (cc_record_by_epoch (nr_consensus (as_reader st)) epoch);
                  committee = committee_keys epoch (as_reader st)
              in Inr (build_consensus_block w header output committee batches closes_epoch))))"

definition consensus_block_batches :: "string \<Rightarrow> api_consensus_batches api" where
  "consensus_block_batches raw st =
     try_bind (parse_number raw ''consensus block number'') (\<lambda>number.
     try_bind (reading (read_consensus_output number) st) (\<lambda>found.
       case found of
         None \<Rightarrow> Inl NotFound
       | Some output \<Rightarrow>
           let digest = co_consensus_header_hash output
           in try_bind (consensus_exec_range digest st) (\<lambda>exec_blocks.
                Inr \<lparr>wcs_number = co_number output,
                     wcs_digest = hex_digest digest,
                     wcs_batches = build_consensus_batches (af_wire (as_fns st)) output exec_blocks True\<rparr>)))"

section \<open>Consensus epochs\<close>

definition epoch_first :: "u32 \<Rightarrow> u64 \<Rightarrow> (epoch_record \<Rightarrow> num_hash) \<Rightarrow> epoch_record option \<Rightarrow> u64 option" where
  "epoch_first epoch genesis final previous =
     (if epoch = 0 then Some genesis else map_option (\<lambda>p. saturating_add (nh_number (final p)) 1) previous)"

definition consensus_epoch_row :: "wire_fns \<Rightarrow> node_reader \<Rightarrow> u32 \<Rightarrow> u32 \<Rightarrow> bool \<Rightarrow> api_error + api_consensus_epoch" where
  "consensus_epoch_row w reader epoch current detail =
     (let is_current = (epoch = current);
          (this, previous) = epoch_record_pair epoch reader;
          (record_opt, certificate) = shown_record is_current this
      in try_bind (case record_opt of
             Some r \<Rightarrow> api_certificate w reader r certificate detail
           | None \<Rightarrow> Inr None) (\<lambda>certificate.
         let item =
               \<lparr>wce_epoch = ucast epoch,
                wce_is_current = is_current,
                wce_record = map_option (build_epoch_record w) record_opt,
                wce_certificate = certificate,
                wce_consensus_range =
                  \<lparr>wra_first = epoch_first epoch 1 er_final_consensus previous,
                   wra_last = map_option (\<lambda>r. nh_number (er_final_consensus r)) record_opt\<rparr>,
                wce_exec_range =
                  \<lparr>wra_first = epoch_first epoch 0 er_final_state previous,
                   wra_last = map_option (\<lambda>r. nh_number (er_final_state r)) record_opt\<rparr>,
                wce_end_time = None,
                wce_committee_bls = committee_bls w reader epoch record_opt,
                wce_committee_addresses = None,
                wce_pack_complete = None,
                wce_last_committed_rounds = None,
                wce_final_reputation_scores = None\<rparr>
         in Inr (if \<not> detail then item
            else item\<lparr>wce_committee_addresses := map_option (map hex_address) (committee_addresses epoch reader),
                      wce_pack_complete := map_option (\<lambda>r. epoch_pack_complete r reader) record_opt,
                      wce_last_committed_rounds := map_option (map (\<lambda>(authority, round).
                        \<lparr>wau_authority = authority_display w authority, wau_round = round\<rparr>)) (epoch_last_committed epoch reader),
                      wce_final_reputation_scores :=
                        map_option (build_reputation_scores w) (epoch_final_reputation epoch reader)\<rparr>)))"

definition exec_range_last :: "api_consensus_epoch \<Rightarrow> u64 option" where
  "exec_range_last item = wra_last (wce_exec_range item)"

definition consensus_epochs_list :: "page_query \<Rightarrow> api_consensus_epoch envelope api" where
  "consensus_epochs_list q st =
     (let (page, per_page, _) = page_params q;
          reader = as_reader st;
          current = latest_consensus_epoch reader;
          tot = saturating_add (ucast current) 1
      in try_bind (try_map (\<lambda>number. consensus_epoch_row (af_wire (as_fns st)) reader (epoch_u32 number) current False)
             (desc_page_items tot page per_page)) (\<lambda>items.
         try_bind (end_times reader (List.map_filter exec_range_last items)) (\<lambda>timestamps.
           Inr (envelope_of
             (if List.map_filter exec_range_last items = [] then items
              else map (\<lambda>item. item\<lparr>wce_end_time := end_time timestamps (exec_range_last item)\<rparr>) items) tot page per_page))))"

definition consensus_epoch :: "string \<Rightarrow> api_consensus_epoch api" where
  "consensus_epoch raw st =
     try_bind (parse_number raw ''epoch number'') (\<lambda>number.
     let reader = as_reader st;
         current = latest_consensus_epoch reader
     in if ucast current < number then Inl NotFound
        else try_bind (consensus_epoch_row (af_wire (as_fns st)) reader (epoch_u32 number) current True) (\<lambda>item.
             case exec_range_last item of
               None \<Rightarrow> Inr item
             | Some end_block \<Rightarrow>
                 try_bind (from_report (header_timestamps [end_block] reader)) (\<lambda>timestamps.
                   Inr (item\<lparr>wce_end_time := bt_get end_block timestamps\<rparr>))))"

end
