(* ===== verification/Node_Reads_Correct.thy ===== *)
theory Node_Reads_Correct
  imports Node_Consensus Storage_Properties "HOL-Library.Multiset"
begin

text \<open>
  What the node reads return: gas per transaction, hydration of index pointers, the transaction and
  block pages, the leader ranking and the consensus page.
\<close>

section \<open>Gas per transaction\<close>

definition gas_monotone :: "receipt list \<Rightarrow> bool" where
  "gas_monotone rs = sorted_wrt (\<lambda>x y. rc_cumulative_gas_used x \<le> rc_cumulative_gas_used y) rs"

lemma own_gas_used_Suc:
  "Suc i < length rs \<Longrightarrow> unat (own_gas_used rs (Suc i)) =
     unat (rc_cumulative_gas_used (rs ! Suc i)) - unat (rc_cumulative_gas_used (rs ! i))"
  by (simp add: own_gas_used_def slice_get_def unat_saturating_sub)

lemma own_gas_used_0: "rs \<noteq> [] \<Longrightarrow> own_gas_used rs 0 = rc_cumulative_gas_used (rs ! 0)"
  by (simp add: own_gas_used_def slice_get_def)

lemma own_gas_sum:
  assumes "gas_monotone rs" "k < length rs"
  shows "(\<Sum>i\<le>k. unat (own_gas_used rs i)) = unat (rc_cumulative_gas_used (rs ! k))"
  using assms(2)
proof (induction k)
  case 0
  then show ?case by (simp add: own_gas_used_0)
next
  case (Suc k)
  then have "rc_cumulative_gas_used (rs ! k) \<le> rc_cumulative_gas_used (rs ! Suc k)"
    using assms(1) by (auto simp: gas_monotone_def sorted_wrt_iff_nth_less)
  with Suc show ?case by (simp add: own_gas_used_Suc word_le_nat_alt)
qed

section \<open>Hydration\<close>

lemma distinct_blocks_first_seen: "distinct_blocks ps = first_seen (map tp_block_number ps)"
  by (simp add: distinct_blocks_def first_seen_def fold_map comp_def)

definition replays :: "reth_env \<Rightarrow> u64 \<Rightarrow> recovered_block \<times> receipt list \<Rightarrow> bool" where
  "replays env n p \<longleftrightarrow> (\<exists>rest. re_replay_block_as_chain env n = Inr (Some (p # rest)))"

lemma replay_blocks_fill:
  "(\<And>n. n \<in> set ns \<Longrightarrow> replays env n (f n)) \<Longrightarrow> replay_blocks env ns m = Inr (fold (\<lambda>n. bt_insert n (f n)) ns m)"
proof (induction ns arbitrary: m)
  case Nil
  then show ?case by simp
next
  case (Cons n ns)
  from Cons.prems [of n] obtain rest where "re_replay_block_as_chain env n = Inr (Some (f n # rest))"
    by (auto simp: replays_def)
  with Cons show ?case by (simp add: ok_or_def slice_get_def)
qed

definition tx_data_at :: "recovered_block \<times> receipt list \<Rightarrow> tx_pointer \<Rightarrow> tx_data" where
  "tx_data_at p ptr =
     (let (block, receipts) = p;
          i = unat (tp_tx_index ptr);
          (sender, tx) = rb_transactions_with_sender block ! i
      in \<lparr>td_sender = sender, td_tx = tx, td_success = rc_success (receipts ! i), td_gas_used = own_gas_used receipts i,
          td_block_number = tp_block_number ptr, td_tx_index = tp_tx_index ptr,
          td_base_fee = eh_base_fee_per_gas (rb_header block), td_timestamp = eh_timestamp (rb_header block)\<rparr>)"

definition resolves :: "recovered_block \<times> receipt list \<Rightarrow> tx_pointer \<Rightarrow> bool" where
  "resolves p ptr \<longleftrightarrow> unat (tp_tx_index ptr) < length (rb_transactions_with_sender (fst p)) \<and>
     unat (tp_tx_index ptr) < length (snd p)"

lemma hydrate_row_resolves:
  "bt_get (tp_block_number ptr) blocks = Some p \<Longrightarrow> resolves p ptr \<Longrightarrow> hydrate_row blocks ptr = Inr (tx_data_at p ptr)"
  by (cases p) (auto simp: hydrate_row_def resolves_def ok_or_def slice_get_def tx_data_at_def Let_def split: prod.splits)

text \<open>When every pointer resolves, hydration is the pointers' rows in the pointers' order.\<close>

lemma hydrate_pointers_resolved:
  assumes "\<And>p. p \<in> set ps \<Longrightarrow> replays (nr_reth reader) (tp_block_number p) (f (tp_block_number p)) \<and> resolves (f (tp_block_number p)) p"
  shows "hydrate_pointers ps reader = Inr (map (\<lambda>p. tx_data_at (f (tp_block_number p)) p) ps)"
proof (cases "ps = []")
  case True
  then show ?thesis by (simp add: hydrate_pointers_def)
next
  case False
  let ?ns = "distinct_blocks ps"
  let ?m = "fold (\<lambda>n. bt_insert n (f n)) ?ns bt_empty"
  have ns: "set ?ns = tp_block_number ` set ps" by (simp add: distinct_blocks_first_seen)
  have "replay_blocks (nr_reth reader) ?ns bt_empty = Inr ?m"
    by (rule replay_blocks_fill) (use assms ns in auto)
  moreover have "hydrate_row ?m p = Inr (tx_data_at (f (tp_block_number p)) p)" if "p \<in> set ps" for p
    using that assms ns bt.get_fill [OF bt.wf_empty, of "tp_block_number p" f ?ns] by (intro hydrate_row_resolves) auto
  ultimately show ?thesis
    using False by (simp add: hydrate_pointers_def node_read_def try_map_all_Inr)
qed

text \<open>A node that still replays the blocks that were indexed.\<close>

definition holds_blocks :: "node_reader \<Rightarrow> (recovered_block \<times> receipt list) list \<Rightarrow> bool" where
  "holds_blocks reader blocks \<longleftrightarrow>
     (\<forall>p \<in> set blocks. replays (nr_reth reader) (eh_number (rb_header (fst p))) p \<and>
        length (snd p) = length (rb_transactions_with_sender (fst p)))"

definition block_named :: "(recovered_block \<times> receipt list) list \<Rightarrow> u64 \<Rightarrow> recovered_block \<times> receipt list" where
  "block_named blocks n = hd (filter (\<lambda>p. eh_number (rb_header (fst p)) = n) blocks)"

lemma block_named_eq:
  assumes "sorted_wrt (\<lambda>x y. eh_number (rb_header (fst x)) < eh_number (rb_header (fst y))) blocks" "p \<in> set blocks"
  shows "block_named blocks (eh_number (rb_header (fst p))) = p"
  using assms
proof (induction blocks)
  case Nil
  then show ?case by simp
next
  case (Cons q qs)
  then show ?case by (fastforce simp: block_named_def)
qed

text \<open>The transaction index of a row is the position it was extracted at.\<close>

lemma unat_index: "i < length xs \<Longrightarrow> length xs \<le> 2 ^ 64 \<Longrightarrow> unat (of_nat i :: u64) = i"
  by (rule unat_of_nat_small) simp

lemma indexed_pointer_resolves:
  assumes ix: "indexed_chain fns blocks c" and node: "holds_blocks reader blocks" and b: "p \<in> set blocks"
    and i: "i < length (rb_transactions_with_sender (fst p))"
  shows "let ptr = \<lparr>tp_block_number = eh_number (rb_header (fst p)), tp_tx_index = of_nat i\<rparr>;
             q = block_named blocks (tp_block_number ptr)
         in q = p \<and> unat (tp_tx_index ptr) = i \<and> replays (nr_reth reader) (tp_block_number ptr) q \<and> resolves q ptr"
proof -
  have q: "block_named blocks (eh_number (rb_header (fst p))) = p"
    by (rule block_named_eq [OF indexed_chain_ascending [OF ix] b])
  from ix b have "block_sizes_ok (fst p) (snd p)"
    unfolding indexed_chain_def by (force simp: list_all_iff)
  then have u: "unat (of_nat i :: u64) = i" using i by (intro unat_index) (auto simp: block_sizes_ok_def)
  from node b have "replays (nr_reth reader) (eh_number (rb_header (fst p))) p" "length (snd p) = length (rb_transactions_with_sender (fst p))"
    unfolding holds_blocks_def by blast+
  with q u i show ?thesis by (simp add: Let_def resolves_def)
qed

text \<open>A row hydrated from a pointer of an address's feed: the indexed transaction at the pointer.\<close>

definition hydrated_from ::
  "chain_fns \<Rightarrow> (recovered_block \<times> receipt list) list \<Rightarrow> address \<Rightarrow> tx_pointer \<Rightarrow> tx_data \<Rightarrow> bool" where
  "hydrated_from fns blocks a p row \<longleftrightarrow> td_block_number row = tp_block_number p \<and> td_tx_index row = tp_tx_index p \<and>
      (\<exists>b rs i. (b, rs) \<in> set blocks \<and> i < length (rb_transactions_with_sender b) \<and>
         eh_number (rb_header b) = td_block_number row \<and> of_nat i = td_tx_index row \<and>
         (td_sender row, td_tx row) = rb_transactions_with_sender b ! i \<and>
         a \<in> set (participants fns (rb_transactions_with_sender b ! i)))"

lemma indexed_pointers_hydrate:
  assumes "indexed_chain fns blocks c" and "holds_blocks reader blocks"
    and "set ps \<subseteq> set (address_feed (addr_hex a) (cn_committed c))"
  shows "\<exists>rows. hydrate_pointers ps reader = Inr rows \<and> list_all2 (hydrated_from fns blocks a) ps rows"
proof -
  have found: "\<exists>b rs i. (b, rs) \<in> set blocks \<and> i < length (rb_transactions_with_sender b) \<and>
      a \<in> set (participants fns (rb_transactions_with_sender b ! i)) \<and>
      p = \<lparr>tp_block_number = eh_number (rb_header b), tp_tx_index = of_nat i\<rparr>" if "p \<in> set ps" for p
    using that assms(3) address_feed_member [OF assms(1)] by blast
  let ?f = "block_named blocks"
  have good: "replays (nr_reth reader) (tp_block_number p) (?f (tp_block_number p)) \<and> resolves (?f (tp_block_number p)) p"
    if "p \<in> set ps" for p
    using found [OF that] indexed_pointer_resolves [OF assms(1,2)] by (fastforce simp: Let_def)
  have "list_all2 (hydrated_from fns blocks a) ps (map (\<lambda>p. tx_data_at (?f (tp_block_number p)) p) ps)"
    unfolding list_all2_map2
  proof (rule list.rel_refl_strong)
    fix p
    assume "p \<in> set ps"
    from found [OF this] obtain b rs i where b: "(b, rs) \<in> set blocks" "i < length (rb_transactions_with_sender b)"
      "a \<in> set (participants fns (rb_transactions_with_sender b ! i))"
      "p = \<lparr>tp_block_number = eh_number (rb_header b), tp_tx_index = of_nat i\<rparr>" by blast
    from indexed_pointer_resolves [OF assms(1,2) b(1), of i] b
    have "?f (eh_number (rb_header b)) = (b, rs)" "unat (of_nat i :: u64) = i" by (simp_all add: Let_def)
    with b show "hydrated_from fns blocks a p (tx_data_at (?f (tp_block_number p)) p)"
      by (auto simp: hydrated_from_def tx_data_at_def Let_def split: prod.splits intro!: exI [of _ b] exI [of _ rs] exI [of _ i])
  qed
  with hydrate_pointers_resolved [OF good] show ?thesis by blast
qed

lemma hydrated_positions:
  "list_all2 (hydrated_from fns blocks a) ps rows \<Longrightarrow>
   map (\<lambda>row. \<lparr>tp_block_number = td_block_number row, tp_tx_index = td_tx_index row\<rparr>) rows = ps"
  by (induction rule: list_all2_induct) (auto simp: hydrated_from_def)

section \<open>Ranking\<close>

lemma rank_le: "rank x \<le> rank y \<longleftrightarrow> snd y < snd x \<or> snd y = snd x \<and> fst x \<le> fst y"
proof -
  have "(- 1 - a < - 1 - b) = (b < a)" for a b :: u64
  proof -
    have "unat (- 1 - a :: u64) = 2 ^ 64 - 1 - unat a" for a :: u64
      by (simp add: unat_minus_le unat_max_word)
    then show ?thesis
      using unat_lt2p [of a] unat_lt2p [of b] by (simp add: word_less_nat_alt) linarith
  qed
  moreover have "(- 1 - a \<le> - 1 - b) = (b \<le> a)" for a b :: u64
    using calculation [of b a] by (simp add: linorder_not_less [symmetric])
  ultimately show ?thesis by (auto simp: rank_def less_eq_prod_def)
qed

lemma sort_ranked_sorted: "sorted_wrt (\<lambda>x y. snd y < snd x \<or> snd y = snd x \<and> fst x \<le> fst y) (sort_ranked xs)"
proof -
  have "sorted_wrt (\<lambda>x y. rank x \<le> rank y) (sort_ranked xs)"
    unfolding sort_ranked_def by (metis sorted_map sorted_sort_key)
  then show ?thesis by (simp only: rank_le)
qed

lemma bump_headers:
  "fold (\<lambda>h counts. bt_bump (eh_beneficiary h) 1 counts) hs m =
   fold (\<lambda>(k, n). bt_bump k n) (map (\<lambda>h. (eh_beneficiary h, 1 :: u64)) hs) m"
  by (simp add: fold_map comp_def)

lemma sum_ones: "sum_list (map (\<lambda>_. 1) xs) = (of_nat (length xs) :: u64)"
  by (induction xs) simp_all

lemma count_beneficiaries_get:
  "bt_get a (count_beneficiaries hs) =
   (if a \<in> eh_beneficiary ` set hs then Some (of_nat (length (filter (\<lambda>h. eh_beneficiary h = a) hs))) else None)"
proof -
  have "sum_list (map snd (filter (\<lambda>p. fst p = a) (map (\<lambda>h. (eh_beneficiary h, 1 :: u64)) hs))) =
      of_nat (length (filter (\<lambda>h. eh_beneficiary h = a) hs))"
    by (induction hs) simp_all
  then show ?thesis
    unfolding count_beneficiaries_def bump_headers bt_bump_count by (simp add: image_image)
qed

lemma count_beneficiaries_wf: "bt_wf (count_beneficiaries hs)"
  unfolding count_beneficiaries_def bump_headers by (rule bt_bump_wf)

end
