(* ===== verification/Node_Properties.thy ===== *)
theory Node_Properties
  imports Node_Reads_Correct Status
begin

text \<open>
  The properties of the node reads, with instances on a node that holds two small blocks.
\<close>

section \<open>Pages over a node that holds its chain\<close>

text \<open>The transaction feed: the node's entries in number order, with their blocks readable.\<close>

definition tx_row :: "(u64 \<Rightarrow> receipt list) \<Rightarrow> (u64 \<Rightarrow> exec_header) \<Rightarrow> tx_entry \<Rightarrow> tx_data" where
  "tx_row receipts header e =
     (let n = te_block_number e; i = unat (te_index e)
      in \<lparr>td_sender = te_sender e, td_tx = te_transaction e, td_success = rc_success (receipts n ! i),
          td_gas_used = own_gas_used (receipts n) i, td_block_number = n, td_tx_index = te_index e,
          td_base_fee = eh_base_fee_per_gas (header n), td_timestamp = te_timestamp e\<rparr>)"

definition serves_txs :: "reth_env \<Rightarrow> tx_entry list \<Rightarrow> (u64 \<Rightarrow> receipt list) \<Rightarrow> (u64 \<Rightarrow> exec_header) \<Rightarrow> bool" where
  "serves_txs env txs receipts header \<longleftrightarrow>
     length txs < 2 ^ 64 \<and> re_total_transactions env = Inr (of_nat (length txs)) \<and>
     (\<forall>low high. low \<le> high \<longrightarrow> unat high < length txs \<longrightarrow>
        re_transactions_by_tx_range_with_meta env low high = Inr (map (\<lambda>i. txs ! i) [unat low..<Suc (unat high)])) \<and>
     (\<forall>e \<in> set txs. re_receipts_by_block env (te_block_number e) = Inr (Some (receipts (te_block_number e))) \<and>
        re_sealed_header_by_number env (te_block_number e) = Inr (Some (header (te_block_number e))) \<and>
        unat (te_index e) < length (receipts (te_block_number e)))"

lemma page_blocks_get:
  assumes "\<And>e. e \<in> set es \<Longrightarrow> re_receipts_by_block env (te_block_number e) = Inr (Some (receipts (te_block_number e))) \<and>
     re_sealed_header_by_number env (te_block_number e) = Inr (Some (header (te_block_number e)))"
    and "bt_wf m" "\<And>n v. bt_get n m = Some v \<Longrightarrow> v = (receipts n, eh_base_fee_per_gas (header n))"
  shows "\<exists>m'. page_blocks env es m = Inr m' \<and>
    (\<forall>e \<in> set es. bt_get (te_block_number e) m' = Some (receipts (te_block_number e), eh_base_fee_per_gas (header (te_block_number e)))) \<and>
    (\<forall>n v. bt_get n m = Some v \<longrightarrow> bt_get n m' = Some v)"
  using assms
proof (induction es arbitrary: m)
  case Nil
  then show ?case by simp
next
  case (Cons e es)
  let ?n = "te_block_number e"
  let ?v = "(receipts ?n, eh_base_fee_per_gas (header ?n))"
  show ?case
  proof (cases "bt_get ?n m")
    case None
    let ?m = "bt_insert ?n ?v m"
    have "bt_wf ?m" "\<And>n v. bt_get n ?m = Some v \<Longrightarrow> v = (receipts n, eh_base_fee_per_gas (header n))"
      using Cons.prems(2,3) by (auto simp: bt_wf_insert bt_get_insert split: if_splits)
    from Cons.IH [OF _ this] Cons.prems(1) obtain m' where m': "page_blocks env es ?m = Inr m'"
      "\<And>e. e \<in> set es \<Longrightarrow> bt_get (te_block_number e) m' = Some (receipts (te_block_number e), eh_base_fee_per_gas (header (te_block_number e)))"
      "\<And>n v. bt_get n ?m = Some v \<Longrightarrow> bt_get n m' = Some v" by auto
    have "bt_get ?n m' = Some ?v" by (rule m'(3)) (simp add: bt_get_insert Cons.prems(2))
    moreover have "bt_get n m' = Some v" if "bt_get n m = Some v" for n v
      using that None Cons.prems(2) by (intro m'(3)) (auto simp: bt_get_insert)
    ultimately show ?thesis using None m' Cons.prems(1) [of e] by (auto simp: ok_or_def)
  next
    case (Some v)
    then have v: "v = ?v" by (rule Cons.prems(3))
    from Cons.IH [OF _ Cons.prems(2,3)] Cons.prems(1) obtain m' where m': "page_blocks env es m = Inr m'"
      "\<And>e. e \<in> set es \<Longrightarrow> bt_get (te_block_number e) m' = Some (receipts (te_block_number e), eh_base_fee_per_gas (header (te_block_number e)))"
      "\<And>n v. bt_get n m = Some v \<Longrightarrow> bt_get n m' = Some v" by auto
    with Some v show ?thesis by auto
  qed
qed

lemma rev_range_window:
  assumes "desc_page_bounds tot p n = Some (low, high)" "0 < n" "unat tot = length xs"
  shows "rev (map (\<lambda>i. xs ! i) [unat low..<Suc (unat high)]) = take (unat n) (drop (unat p * unat n) (rev xs))"
    and "low \<le> high" "unat high < length xs"
proof -
  note f = desc_page_bounds_Some [OF assms(1,2)]
  have pos: "0 < unat n" using assms(2) by (simp add: word_less_nat_alt)
  have hi: "Suc (unat high) = length xs - unat p * unat n" using f(1,2) assms(3) by simp
  then show "unat high < length xs" by linarith
  show "low \<le> high" using f(3) by (simp add: word_le_nat_alt)
  have lo: "unat low = length xs - unat p * unat n - unat n" using f(2,3) hi pos assms(3) by linarith
  have "map (\<lambda>i. xs ! i) [unat low..<Suc (unat high)] = drop (unat low) (take (Suc (unat high)) xs)"
    using \<open>unat high < length xs\<close> by (intro nth_equalityI) (simp_all del: upt_Suc)
  then show "rev (map (\<lambda>i. xs ! i) [unat low..<Suc (unat high)]) = take (unat n) (drop (unat p * unat n) (rev xs))"
    using hi lo by (simp add: take_drop_rev del: upt_Suc)
qed

lemma latest_txs_window:
  assumes env: "serves_txs (nr_reth reader) txs receipts header" and n: "0 < n"
  shows "latest_txs_page p n reader =
    Inr (map (tx_row receipts header) (take (unat n) (drop (unat p * unat n) (rev txs))), of_nat (length txs))"
proof -
  let ?env = "nr_reth reader"
  let ?tot = "of_nat (length txs) :: u64"
  have tot: "unat ?tot = length txs" using env by (intro unat_of_nat_small) (simp add: serves_txs_def)
  have total: "re_total_transactions ?env = Inr ?tot" using env by (simp add: serves_txs_def)
  show ?thesis
  proof (cases "desc_page_bounds ?tot p n")
    case None
    then have "length txs \<le> unat p * unat n" using tot by (simp add: desc_page_bounds_None)
    then show ?thesis by (simp add: latest_txs_page_def node_read_def total None)
  next
    case (Some b)
    obtain low high where b: "b = (low, high)" by (cases b)
    note w = rev_range_window [OF Some [unfolded b] n tot]
    let ?es = "map (\<lambda>i. txs ! i) [unat low..<Suc (unat high)]"
    have es: "re_transactions_by_tx_range_with_meta ?env low high = Inr ?es" using env w(2,3) unfolding serves_txs_def by blast
    have sub: "set ?es \<subseteq> set txs" using w(3) by (auto simp del: upt_Suc)
    have ok: "re_receipts_by_block ?env (te_block_number e) = Inr (Some (receipts (te_block_number e))) \<and>
        re_sealed_header_by_number ?env (te_block_number e) = Inr (Some (header (te_block_number e)))"
      "unat (te_index e) < length (receipts (te_block_number e))" if "e \<in> set ?es" for e
      using that sub env unfolding serves_txs_def by blast+
    from page_blocks_get [of ?es ?env receipts header bt_empty, OF ok(1)] bt.wf_empty
    obtain m where m: "page_blocks ?env ?es bt_empty = Inr m"
      "\<And>e. e \<in> set ?es \<Longrightarrow> bt_get (te_block_number e) m = Some (receipts (te_block_number e), eh_base_fee_per_gas (header (te_block_number e)))"
      by auto
    have "try_map (page_row m) (rev ?es) = Inr (map (tx_row receipts header) (rev ?es))"
      using m(2) ok(2) by (intro try_map_all_Inr) (auto simp: page_row_def tx_row_def ok_or_def slice_get_def Let_def simp del: upt_Suc)
    with m(1) es total w(1) show ?thesis
      by (simp add: latest_txs_page_def node_read_def Some b del: upt_Suc)
  qed
qed

lemma collect_headers_eq:
  assumes "\<And>n. n \<in> set ns \<Longrightarrow> cc_consensus_header_by_number chain n = Inr (f n)"
  shows "collect_headers chain ns out = Inr (out @ List.map_filter f ns)"
  using assms
  by (induction ns arbitrary: out) (auto simp: map_filter_simps split: option.splits)

section \<open>A small node\<close>

definition sample_env :: reth_env where
  "sample_env = \<lparr>re_total_transactions = Inr 1,
     re_transactions_by_tx_range_with_meta = (\<lambda>low high. Inr (map (\<lambda>_.
        \<lparr>te_block_number = 1, te_index = 0, te_timestamp = 1700000000, te_transaction = sample_tx, te_sender = 4\<rparr>) [unat low..<Suc (unat high)])),
     re_receipts_by_block = (\<lambda>_. Inr (Some sample_receipts)),
     re_sealed_header_by_number = (\<lambda>n. Inr (Some (sample_header n))),
     re_sealed_header_by_hash = (\<lambda>h. Inr (Some (sample_header (ucast h)))),
     re_header_by_number = (\<lambda>n. Inr (Some (sample_header n))),
     re_sealed_block_by_number = (\<lambda>n. Inr (if n \<le> 1 then Some
        \<lparr>sb_hash = ucast n, sb_header = sample_header n, sb_transactions = [sample_tx], sb_rlp_length = 600\<rparr> else None)),
     re_replay_block_as_chain = (\<lambda>n. Inr (if n \<le> 1 then Some [(sample_block n, sample_receipts)] else None)),
     re_transaction_by_hash_with_meta = (\<lambda>_. Inr None), re_receipt_by_hash_with_gas_used = (\<lambda>_. Inr None),
     re_retrieve_account = (\<lambda>_. Inr None), re_account_code = (\<lambda>_. Inr None),
     re_read_contract = (\<lambda>_ _. Inl (Revert [] None)), re_last_block_number = Inr 1,
     re_blocks_for_range = (\<lambda>low high. Inr (map (\<lambda>i. sample_header (of_nat i)) [unat low..<Suc (unat high)])),
     re_epoch_state_from_canonical_tip = Inr \<lparr>es_epoch = 1, es_epoch_duration = 60, es_block_height = 1, es_validators = []\<rparr>,
     re_epoch_state_at_header = (\<lambda>_. Inr \<lparr>es_epoch = 1, es_epoch_duration = 60, es_block_height = 1, es_validators = []\<rparr>),
     re_get_gas_price = Inr 7, re_chain_id = 2017, re_canonical_tip = sample_header 1\<rparr>"

definition sample_record :: "u32 \<Rightarrow> epoch_record" where
  "sample_record n = \<lparr>er_epoch = n, er_digest = 11, er_parent_hash = 12, er_committee = [[1], [2], [3]], er_next_committee = [[1], [2]],
     er_final_state = \<lparr>nh_number = 1, nh_hash = 1\<rparr>, er_final_consensus = \<lparr>nh_number = 3, nh_hash = 13\<rparr>, er_super_quorum = 3\<rparr>"

definition sample_primary :: primary_header where
  "sample_primary = \<lparr>ph_digest = 21, ph_author = 22, ph_round = 2, ph_epoch = 1, ph_created_at = 1700000000, ph_parents = [],
     ph_payload = [], ph_latest_execution_block = \<lparr>nh_number = 0, nh_hash = 0\<rparr>\<rparr>"

definition sample_dag :: committed_sub_dag where
  "sample_dag = \<lparr>sd_headers = [sample_primary], sd_leader = sample_primary, sd_leader_epoch = 1, sd_leader_round = 2,
     sd_commit_timestamp = 1700000000, sd_num_primary_batches = 0, sd_randomness = 5,
     sd_reputation_scores = \<lparr>rs_authorities_by_score_desc = [(22, 4)], rs_final_of_schedule = False\<rparr>\<rparr>"

definition sample_output_header :: "u64 \<Rightarrow> consensus_header" where
  "sample_output_header n = \<lparr>ch_number = n, ch_digest = ucast n, ch_parent_hash = ucast n - 1, ch_sub_dag = sample_dag, ch_extra = 0\<rparr>"

definition sample_consensus :: consensus_chain where
  "sample_consensus = \<lparr>cc_latest_consensus_number = 3, cc_latest_consensus_epoch = 2,
     cc_consensus_output_by_number = (\<lambda>_. Inr None),
     cc_consensus_header_by_number = (\<lambda>n. Inr (if n = 2 then None else Some (sample_output_header n))),
     cc_consensus_header_by_digest = (\<lambda>_ d. Inr (Some (sample_output_header (ucast d)))),
     cc_get_epoch_by_number = (\<lambda>n. Some (sample_record n, Some \<lparr>ec_epoch_hash = 11, ec_signature = [9], ec_signed_authorities = [0, 2]\<rparr>)),
     cc_record_by_epoch = (\<lambda>n. Some (sample_record n)),
     cc_get_committee_keys = (\<lambda>_. Some [[1], [2]]), cc_is_epoch_complete = (\<lambda>_. True),
     cc_read_last_committed = (\<lambda>_. Inr [(22, 2)]), cc_read_latest_commit_with_final_reputation_scores = (\<lambda>_. Inr (Some sample_dag)),
     cc_verify_with_cert = (\<lambda>_ _. True)\<rparr>"

definition sample_abi :: abi_fns where
  "sample_abi = \<lparr>abi_decode_string = (\<lambda>_. None), abi_decode_u16 = (\<lambda>_. None), abi_decode_u256 = (\<lambda>_. None)\<rparr>"

definition sample_reader :: node_reader where
  "sample_reader = \<lparr>nr_reth = sample_env, nr_consensus = sample_consensus, nr_abi = sample_abi\<rparr>"

section \<open>Properties\<close>

text \<open>The gas of a block's transactions partitions the block's gas: the per-transaction gas of
  \<open>own_gas_used\<close> over the first \<open>k + 1\<close> receipts sums up to the cumulative gas of receipt \<open>k\<close>.\<close>

theorem gas_used_partition:
  assumes "gas_monotone receipts" and "k < length receipts"
  shows "(\<Sum>i\<le>k. unat (own_gas_used receipts i)) = unat (rc_cumulative_gas_used (receipts ! k))"
  by (rule own_gas_sum [OF assms])

lemma gas_used_partition_witness:
  "(\<Sum>i\<le>1. unat (own_gas_used [\<lparr>rc_success = True, rc_cumulative_gas_used = 21000, rc_logs = []\<rparr>,
      \<lparr>rc_success = False, rc_cumulative_gas_used = 63000, rc_logs = []\<rparr>] i)) = 63000"
  using gas_used_partition [of "[\<lparr>rc_success = True, rc_cumulative_gas_used = 21000, rc_logs = []\<rparr>,
      \<lparr>rc_success = False, rc_cumulative_gas_used = 63000, rc_logs = []\<rparr>]" 1]
  by (simp add: gas_monotone_def)

text \<open>The index and the node agree: against a node that still replays the indexed blocks, every
  page of an address's index hydrates without error, row for row in the page's order, and each row is
  the transaction of the indexed block at that position, one in which the address takes part. So
  the dangling-pointer error is unreachable.\<close>

theorem address_page_hydrates:
  assumes "indexed_chain fns blocks c" and "holds_blocks reader blocks"
    and "address_txs_page (addr_hex a) limit offset c = (Inr ps, c')"
  shows "\<exists>rows. hydrate_pointers ps reader = Inr rows \<and>
    list_all2 (\<lambda>p row. td_block_number row = tp_block_number p \<and> td_tx_index row = tp_tx_index p \<and>
      (\<exists>b rs i. (b, rs) \<in> set blocks \<and> i < length (rb_transactions_with_sender b) \<and>
         eh_number (rb_header b) = td_block_number row \<and> of_nat i = td_tx_index row \<and>
         (td_sender row, td_tx row) = rb_transactions_with_sender b ! i \<and>
         a \<in> set (participants fns (rb_transactions_with_sender b ! i)))) ps rows"
proof -
  have idle: "cn_tx c = None" by (rule indexed_chain_tables(6) [OF assms(1)])
  have "updates (address_txs_page (addr_hex a) limit offset) (\<lambda>d. (d, limit_offset limit offset (address_feed (addr_hex a) d)))"
    unfolding address_txs_page_def
    by (rule updates_cong [OF updates_andthen [OF updates_prepare reads_query [unfolded reads_def]]]) simp
  from updatesD [OF this assms(3)] idle have "set ps \<subseteq> set (address_feed (addr_hex a) (cn_committed c))"
    by (auto simp: view_def limit_offset_def dest!: in_set_takeD in_set_dropD)
  from indexed_pointers_hydrate [OF assms(1,2) this] show ?thesis unfolding hydrated_from_def .
qed

lemma sample_holds: "holds_blocks sample_reader [(sample_block 1, sample_receipts)]"
  by (simp add: holds_blocks_def sample_reader_def sample_env_def replays_def sample_block_def sample_header_def sample_receipts_def)

lemma address_page_hydrates_witness:
  "\<exists>c ps rows. address_txs_page (addr_hex 5) 25 0 c = (Inr ps, c) \<and> hydrate_pointers ps sample_reader = Inr rows \<and> length rows = length ps"
proof -
  from sample_indexed obtain c where c: "indexed_chain sample_fns [(sample_block 1, sample_receipts)] c" "ready c" by blast
  have page: "address_txs_page (addr_hex 5) 25 0 c = (Inr (limit_offset 25 0 (address_feed (addr_hex 5) (view c))), c)"
    using c(2) by (simp add: page_queries page_statement_ready SCHEMA_TABLES_def fits_i64_def)
  from address_page_hydrates [OF c(1) sample_holds page] obtain rows
    where "hydrate_pointers (limit_offset 25 0 (address_feed (addr_hex 5) (view c))) sample_reader = Inr rows"
      "length (limit_offset 25 0 (address_feed (addr_hex 5) (view c))) = length rows"
    by (auto dest!: list_all2_lengthD)
  with page show ?thesis by (intro exI conjI) auto
qed

text \<open>C33: \<open>/txs\<close> pages the node's transaction feed newest first: page \<open>p\<close> of size \<open>n\<close> is the \<open>p\<close>-th
  window of the reversed feed, each row with its own receipt and block, and the total is the feed's
  length; no page past the end fails.\<close>

theorem latest_txs_page_window:
  assumes "serves_txs (nr_reth reader) txs receipts header" and "0 < n"
  shows "latest_txs_page p n reader =
    Inr (map (tx_row receipts header) (take (unat n) (drop (unat p * unat n) (rev txs))), of_nat (length txs))"
  by (rule latest_txs_window [OF assms])

lemma latest_txs_page_window_witness:
  "\<exists>rows. latest_txs_page 0 25 sample_reader = Inr (rows, 1) \<and> map td_tx rows = [sample_tx]"
proof -
  let ?e = "\<lparr>te_block_number = 1, te_index = 0, te_timestamp = 1700000000, te_transaction = sample_tx, te_sender = 4\<rparr>"
  have range: "[unat low..<Suc (unat high)] = [0]" if "low \<le> high" "unat high < 1" for low high :: u64
    using that by (simp add: word_le_nat_alt)
  have "serves_txs (nr_reth sample_reader) [?e] (\<lambda>_. sample_receipts) sample_header"
    unfolding serves_txs_def by (auto simp: sample_reader_def sample_env_def range sample_receipts_def simp del: upt_Suc)
  from latest_txs_page_window [OF this, of 25 0] show ?thesis by (simp add: tx_row_def Let_def)
qed

text \<open>\<open>/blocks\<close> is dense: when the node has every block up to its tip, page \<open>p\<close> of size \<open>n\<close> holds
  exactly the blocks of the \<open>p\<close>-th window of the heights \<open>tip, tip - 1, ..., 0\<close>, and the total is
  \<open>tip + 1\<close>.\<close>

theorem blocks_page_window:
  assumes "re_last_block_number (nr_reth reader) = Inr tip"
    and "\<forall>k. k \<le> tip \<longrightarrow> re_sealed_block_by_number (nr_reth reader) k = Inr (Some (block k))"
    and "unat tip < 2 ^ 64 - 1" and "0 < n"
  shows "blocks_page p n reader = Inr (map block (take (unat n) (drop (unat p * unat n) (dense_desc (tip + 1)))), tip + 1)"
proof -
  note t = plus_one_unat [OF assms(3)]
  have items: "desc_page_items (tip + 1) p n = take (unat n) (drop (unat p * unat n) (dense_desc (tip + 1)))"
    by (rule desc_page_items_window [OF assms(4)])
  have "k \<le> tip" if "k \<in> set (desc_page_items (tip + 1) p n)" for k
  proof -
    have "k \<in> set (dense_desc (tip + 1))" using that unfolding items by (auto dest!: in_set_takeD in_set_dropD)
    then show ?thesis using t by (simp add: set_dense_desc word_less_nat_alt word_le_nat_alt)
  qed
  then have "try_map (\<lambda>number. try_bind (re_sealed_block_by_number (nr_reth reader) number) (ok_or (BlockMissing number tip)))
      (desc_page_items (tip + 1) p n) = Inr (map block (desc_page_items (tip + 1) p n))"
    using assms(2) by (intro try_map_all_Inr) (simp add: ok_or_def)
  with assms(1) t show ?thesis by (simp add: blocks_page_def node_read_def Let_def items)
qed

lemma blocks_page_window_witness:
  "\<exists>blocks. blocks_page 0 25 sample_reader = Inr (blocks, 2) \<and> map (\<lambda>b. eh_number (sb_header b)) blocks = [1, 0]"
proof -
  let ?block = "\<lambda>n. \<lparr>sb_hash = ucast n, sb_header = sample_header n, sb_transactions = [sample_tx], sb_rlp_length = 600\<rparr>"
  have "blocks_page 0 25 sample_reader =
      Inr (map ?block (take (unat (25 :: u64)) (drop (unat (0 :: u64) * unat (25 :: u64)) (dense_desc (1 + 1)))), 1 + 1)"
    by (rule blocks_page_window) (simp_all add: sample_reader_def sample_env_def)
  then show ?thesis by (simp add: dense_desc_def sample_header_def upt_rec)
qed

text \<open>\<open>/consensus/blocks\<close> pages the output numbers \<open>latest, ..., 1\<close>: a page holds, newest first,
  exactly the headers the node has among the \<open>p\<close>-th window of them; a header the node lacks shrinks
  the page and shifts nothing, and number 0 is never read.\<close>

theorem consensus_page_window:
  assumes "\<forall>k. 0 < k \<longrightarrow> k \<le> latest_consensus_number reader \<longrightarrow>
      cc_consensus_header_by_number (nr_consensus reader) k = Inr (found k)"
    and "0 < n"
  shows "consensus_headers_page p n reader =
    Inr (List.map_filter found (take (unat n) (drop (unat p * unat n) (map (\<lambda>i. i + 1) (dense_desc (latest_consensus_number reader))))),
         latest_consensus_number reader)"
proof -
  let ?tot = "latest_consensus_number reader"
  have items: "consensus_page_numbers ?tot p n = take (unat n) (drop (unat p * unat n) (map (\<lambda>i. i + 1) (dense_desc ?tot)))"
    by (simp add: consensus_page_numbers_def desc_page_items_window [OF assms(2)] take_map drop_map)
  have "0 < k \<and> k \<le> ?tot" if "k \<in> set (consensus_page_numbers ?tot p n)" for k
  proof -
    from that obtain i where i: "k = i + 1" "i < ?tot"
      unfolding items by (auto simp: set_dense_desc dest!: in_set_takeD in_set_dropD)
    then have "unat (i + 1) = unat i + 1" using unat_lt2p [of ?tot] by (simp add: word_less_nat_alt unat_word_ariths)
    with i show ?thesis by (simp add: word_less_nat_alt word_le_nat_alt)
  qed
  with assms(1) have "collect_headers (nr_consensus reader) (consensus_page_numbers ?tot p n) [] =
      Inr ([] @ List.map_filter found (consensus_page_numbers ?tot p n))"
    by (intro collect_headers_eq) blast
  then show ?thesis by (simp add: consensus_headers_page_def Let_def items)
qed

lemma consensus_page_window_witness:
  "\<exists>headers. consensus_headers_page 0 25 sample_reader = Inr (headers, 3) \<and> map ch_number headers = [3, 1]"
proof -
  have l: "latest_consensus_number sample_reader = 3" by (simp add: latest_consensus_number_def sample_reader_def sample_consensus_def)
  from consensus_page_window [of sample_reader "\<lambda>n. if n = 2 then None else Some (sample_output_header n)" 25 0]
  show ?thesis
    unfolding l by (simp add: sample_reader_def sample_consensus_def dense_desc_def upt_rec map_filter_simps sample_output_header_def)
qed

text \<open>C34: \<open>/validators/leaders\<close> is exact and ranked: the range is the last \<open>window\<close> blocks up to the tip,
  the counts hold each beneficiary of the range once with the number of its blocks there, and they
  are sorted by count descending, then by address.\<close>

theorem leader_counts_exact:
  assumes "re_last_block_number (nr_reth reader) = Inr tip"
    and "re_blocks_for_range (nr_reth reader) (saturating_sub tip (saturating_sub window 1)) tip = Inr headers"
    and "length headers < 2 ^ 64"
  shows "\<exists>from counts. leader_counts window reader = Inr (from, tip, counts) \<and>
    unat from = unat tip - (unat window - 1) \<and> distinct (map fst counts) \<and>
    (\<forall>a k. (a, k) \<in> set counts \<longleftrightarrow> 0 < k \<and> unat k = length (filter (\<lambda>h. eh_beneficiary h = a) headers)) \<and>
    sorted_wrt (\<lambda>x y. snd y < snd x \<or> snd y = snd x \<and> fst x \<le> fst y) counts"
proof -
  let ?m = "count_beneficiaries headers"
  let ?counts = "sort_ranked (bt_entries ?m)"
  have "(a, k) \<in> set ?counts \<longleftrightarrow> 0 < k \<and> unat k = length (filter (\<lambda>h. eh_beneficiary h = a) headers)" for a k
  proof -
    let ?n = "length (filter (\<lambda>h. eh_beneficiary h = a) headers)"
    have small: "?n < 2 ^ 64" using assms(3) length_filter_le [of "\<lambda>h. eh_beneficiary h = a" headers] by linarith
    then have u: "unat (of_nat ?n :: u64) = ?n" by (intro unat_of_nat_small) simp
    have "(a, k) \<in> set ?counts \<longleftrightarrow> bt_get a ?m = Some k"
      using bt.entries_get [OF count_beneficiaries_wf] by (simp add: sort_ranked_def)
    also have "\<dots> \<longleftrightarrow> a \<in> eh_beneficiary ` set headers \<and> k = of_nat ?n" by (auto simp: count_beneficiaries_get)
    also have "a \<in> eh_beneficiary ` set headers \<longleftrightarrow> 0 < ?n" by (auto simp: filter_empty_conv length_greater_0_conv)
    finally show ?thesis using u by (auto simp: word_less_nat_alt word_unat_eq_iff)
  qed
  moreover have "distinct (map fst ?counts)"
    using bt.entries_distinct [OF count_beneficiaries_wf] by (simp add: sort_ranked_def distinct_map inj_on_def)
  ultimately show ?thesis
    using assms(1,2) sort_ranked_sorted
    by (intro exI [of _ "saturating_sub tip (saturating_sub window 1)"] exI [of _ ?counts])
      (simp add: leader_counts_def node_read_def Let_def unat_saturating_sub)
qed

lemma leader_counts_exact_witness:
  "\<exists>counts. leader_counts 200 sample_reader = Inr (0, 1, counts) \<and> (eh_beneficiary (sample_header 0), 2) \<in> set counts"
proof -
  have "saturating_sub 1 (saturating_sub 200 (1 :: u64)) = 0" by (simp add: saturating_sub_def)
  then have "\<exists>from counts. leader_counts 200 sample_reader = Inr (from, 1, counts) \<and>
    unat from = unat (1 :: u64) - (unat (200 :: u64) - 1) \<and> distinct (map fst counts) \<and>
    (\<forall>a k. (a, k) \<in> set counts \<longleftrightarrow> 0 < k \<and> unat k = length (filter (\<lambda>h. eh_beneficiary h = a) [sample_header 0, sample_header 1])) \<and>
    sorted_wrt (\<lambda>x y. snd y < snd x \<or> snd y = snd x \<and> fst x \<le> fst y) counts"
    by (intro leader_counts_exact) (simp_all add: sample_reader_def sample_env_def upt_rec)
  then show ?thesis by (auto simp: sample_header_def unat_eq_zero)
qed

text \<open>C36: the committee served for an epoch is that epoch's: whenever \<open>committee_addresses\<close> answers, it
  answers the validators of the registry state at the block that seated the epoch (genesis for epoch
  0, else the closing block named by the previous epoch's record), and that state reports the
  requested epoch. A pin whose state reports another epoch gives no answer.\<close>

theorem committee_pinned:
  "committee_addresses epoch reader = Some addresses \<longleftrightarrow>
   (\<exists>header state.
      (if epoch = 0 then re_sealed_header_by_number (nr_reth reader) 0 = Inr (Some header)
       else \<exists>record. cc_record_by_epoch (nr_consensus reader) (epoch - 1) = Some record \<and>
         re_sealed_header_by_hash (nr_reth reader) (nh_hash (er_final_state record)) = Inr (Some header)) \<and>
      re_epoch_state_at_header (nr_reth reader) header = Inr state \<and> es_epoch state = epoch \<and>
      addresses = map vi_address (es_validators state))"
proof -
  have at_pin: "(case committee_at_pin epoch pin reader of Inr found \<Rightarrow> found | Inl _ \<Rightarrow> None) = Some addresses \<longleftrightarrow>
      (\<exists>header state. (case pin of Some hash \<Rightarrow> re_sealed_header_by_hash (nr_reth reader) hash
          | None \<Rightarrow> re_sealed_header_by_number (nr_reth reader) 0) = Inr (Some header) \<and>
        re_epoch_state_at_header (nr_reth reader) header = Inr state \<and> es_epoch state = epoch \<and>
        addresses = map vi_address (es_validators state))" for pin
  proof -
    have "(case r of Inr found \<Rightarrow> found | Inl _ \<Rightarrow> None) = Some addresses \<longleftrightarrow> r = Inr (Some addresses)" for r :: "report + address list option"
      by (cases r) auto
    then show ?thesis
      unfolding committee_at_pin_def node_read_def by (fastforce simp: try_bind_Inr_iff split: option.splits if_splits)
  qed
  have "checked_sub epoch 1 = (if epoch = 0 then None else Some (epoch - 1))"
    by (auto simp: checked_sub_def word_less_nat_alt word_unat_eq_iff)
  with at_pin [of None] at_pin [of "Some h" for h] show ?thesis
    unfolding committee_addresses_def by (auto split: option.splits)
qed

text \<open>A contract cannot stop the indexing loop: if every metadata selector call returns, reverts or
  halts, \<open>fetch_token_metadata\<close> returns, whatever bytes come back. Only an internal fault that is not
  a halt is an error.\<close>

theorem token_metadata_total:
  "(\<exists>metadata. fetch_token_metadata abi env token = Inr metadata) \<longleftrightarrow>
   (\<forall>selector \<in> {SEL_NAME, SEL_SYMBOL, SEL_DECIMALS}. \<not> (\<exists>message.
      re_read_contract env token selector = Inl (Internal message) \<and> strip_prefix HALT_MESSAGE_PREFIX message = None))"
proof -
  have ok: "(\<exists>b. read_metadata_bytes env token s = Inr b) \<longleftrightarrow>
      \<not> (\<exists>message. re_read_contract env token s = Inl (Internal message) \<and> strip_prefix HALT_MESSAGE_PREFIX message = None)" for s
    by (auto simp: read_metadata_bytes_def split: sum.splits evm_read_error.splits)
  have "(\<exists>metadata. fetch_token_metadata abi env token = Inr metadata) \<longleftrightarrow>
      (\<forall>s \<in> {SEL_NAME, SEL_SYMBOL, SEL_DECIMALS}. \<exists>b. read_metadata_bytes env token s = Inr b)"
    unfolding fetch_token_metadata_def try_bind_Inr_iff by auto
  then show ?thesis unfolding ok .
qed

lemma token_metadata_total_witness: "\<exists>metadata. fetch_token_metadata sample_abi sample_env 5 = Inr metadata"
proof -
  have "\<not> (\<exists>message. re_read_contract sample_env 5 s = Inl (Internal message) \<and> strip_prefix HALT_MESSAGE_PREFIX message = None)" for s
    by (simp add: sample_env_def)
  then show ?thesis using token_metadata_total [of sample_abi sample_env 5] by blast
qed

end
