(* ===== verification/Api_Correct.thy ===== *)
theory Api_Correct
  imports Api_Consensus Node_Properties
begin

text \<open>
  What the handlers return over an index that was built from the chain: the transfers of a transaction,
  the pages of an address, the rows of the epoch lists.
\<close>

section \<open>The transfers of one transaction\<close>

lemma filter_concat_one:
  assumes "x \<in> set xs" "distinct xs" "\<And>y z. y \<in> set xs \<Longrightarrow> y \<noteq> x \<Longrightarrow> z \<in> set (f y) \<Longrightarrow> \<not> P z" "\<And>z. z \<in> set (f x) \<Longrightarrow> P z"
  shows "filter P (concat (map f xs)) = f x"
  using assms
proof (induction xs)
  case Nil
  then show ?case by simp
next
  case (Cons a xs)
  show ?case
  proof (cases "a = x")
    case True
    with Cons.prems(2,3) have "\<forall>z \<in> set (concat (map f xs)). \<not> P z" by auto
    with True Cons.prems(4) show ?thesis by (simp add: filter_id_conv filter_empty_conv)
  next
    case False
    then have "filter P (f a) = []" using Cons.prems(3) by (auto simp: filter_empty_conv)
    moreover have "filter P (concat (map f xs)) = f x" using False Cons.prems by (intro Cons.IH) auto
    ultimately show ?thesis by simp
  qed
qed

lemma indexed_chain_sizes: "indexed_chain fns blocks c \<Longrightarrow> (b, rs) \<in> set blocks \<Longrightarrow> block_sizes_ok b rs"
  unfolding indexed_chain_def by (force simp: list_all_iff)

lemma ascending_distinct: "sorted_wrt (\<lambda>x y. num x < (num y :: u64)) xs \<Longrightarrow> distinct xs"
  by (induction xs) auto

lemma ascending_same_number:
  assumes "sorted_wrt (\<lambda>x y. num x < (num y :: u64)) xs" "x \<in> set xs" "y \<in> set xs" "num x = num y"
  shows "x = y"
proof -
  from assms obtain i j where ij: "i < length xs" "j < length xs" "xs ! i = x" "xs ! j = y" by (auto simp: in_set_conv_nth)
  have "\<not> i < j" "\<not> j < i"
    using sorted_wrt_nth_less [OF assms(1), of i j] sorted_wrt_nth_less [OF assms(1), of j i] ij assms(4) by auto
  then have "i = j" by linarith
  with ij show ?thesis by simp
qed

lemma tx_transfer_feed_rows:
  assumes asc: "sorted_wrt (\<lambda>x y. eh_number (rb_header (fst x)) < eh_number (rb_header (fst y))) blocks"
    and sz: "block_sizes_ok b rs"
    and tbl: "db_token_transfers d = map transfer_entry (concat (map (\<lambda>(b, rs). ex_transfers (extract_block fns b rs)) blocks))"
    and b: "(b, rs) \<in> set blocks" and i: "i < length (rb_transactions_with_sender b)"
  shows "tx_transfer_feed (eh_number (rb_header b)) (of_nat i) d =
    map transfer_entry (tx_transfers (eh_number (rb_header b)) rs i)"
proof -
  let ?n = "eh_number (rb_header b)"
  let ?E = "\<lambda>(b, rs). ex_transfers (extract_block fns b rs)"
  let ?P = "\<lambda>r. tf_block_number r = ?n \<and> tf_tx_index r = of_nat i"
  have pos: "tf_block_number r = eh_number (rb_header b') \<and> (\<exists>j < length (rb_transactions_with_sender b'). r \<in> set (tx_transfers (eh_number (rb_header b')) rs' j))"
    if "r \<in> set (?E (b', rs'))" for b' rs' r
    using that by (auto simp: ex_transfers_extract_block dest: tx_transfers_positions)
  have block: "filter (\<lambda>r. tf_block_number r = ?n) (concat (map ?E blocks)) = ?E (b, rs)"
  proof (rule filter_concat_one [OF b ascending_distinct [OF asc]])
    fix y z
    assume "y \<in> set blocks" "y \<noteq> (b, rs)" "z \<in> set (?E y)"
    then show "tf_block_number z \<noteq> ?n"
      using pos [of z "fst y" "snd y"] ascending_same_number [OF asc _ b, of y] by (cases y) auto
  next
    fix z assume "z \<in> set (?E (b, rs))"
    then show "tf_block_number z = ?n" using pos by blast
  qed
  have "filter (\<lambda>r. tf_tx_index r = of_nat i) (concat (map (tx_transfers ?n rs) [0..<length (rb_transactions_with_sender b)])) =
      tx_transfers ?n rs i"
  proof (rule filter_concat_one)
    fix y z
    assume "y \<in> set [0..<length (rb_transactions_with_sender b)]" "y \<noteq> i" "z \<in> set (tx_transfers ?n rs y)"
    then show "tf_tx_index z \<noteq> of_nat i"
      using tx_transfers_positions [of z ?n rs y] i sz by (auto simp: block_sizes_ok_def of_nat_eq_small)
  qed (use i tx_transfers_positions in auto)
  then have "filter (\<lambda>r. tf_tx_index r = of_nat i) (?E (b, rs)) = tx_transfers ?n rs i"
    by (simp add: ex_transfers_extract_block)
  with block have "filter ?P (concat (map ?E blocks)) = tx_transfers ?n rs i"
    by (metis (no_types, lifting) filter_filter filter_cong)
  then have rows: "filter (\<lambda>r. st_block_number r = ?n \<and> st_tx_index r = of_nat i) (db_token_transfers d) =
      map transfer_entry (tx_transfers ?n rs i)"
    unfolding tbl by (simp add: filter_map comp_def transfer_entry_def)
  have "sorted_wrt (\<lambda>x y. transfer_pos x < transfer_pos y) (tx_transfers ?n rs i)"
    using sz by (intro tx_transfers_strict) (simp add: block_sizes_ok_def)
  then have "sorted_wrt (\<lambda>x y. tf_log_index x \<le> tf_log_index y) (tx_transfers ?n rs i)"
    by (rule sorted_wrt_mono_rel [rotated]) (auto simp: transfer_pos_def dest!: tx_transfers_positions)
  then have "sorted (map st_log_index (map transfer_entry (tx_transfers ?n rs i)))"
    by (simp add: sorted_wrt_map transfer_entry_def)
  then show ?thesis unfolding tx_transfer_feed_def rows by (rule sort_key_id_if_sorted)
qed

lemma tx_transfer_feed_indexed:
  assumes "indexed_chain fns blocks c" and "(b, rs) \<in> set blocks" and "i < length (rb_transactions_with_sender b)"
  shows "tx_transfer_feed (eh_number (rb_header b)) (of_nat i) (cn_committed c) =
    map transfer_entry (tx_transfers (eh_number (rb_header b)) rs i)"
  by (rule tx_transfer_feed_rows [OF indexed_chain_ascending [OF assms(1)] indexed_chain_sizes [OF assms(1,2)]
        indexed_chain_tables(3) [OF assms(1)] assms(2,3)])

section \<open>Transfer pages\<close>

definition stored_of :: "db \<Rightarrow> string \<Rightarrow> stored_token option" where
  "stored_of d a = map_option (\<lambda>t. \<lparr>so_name = tk_name t, so_symbol = tk_symbol t, so_decimals = tk_decimals t, so_status = tk_status t\<rparr>)
     (db_tokens d a)"

lemma token_row_ready: "ready c \<Longrightarrow> token_row_of a c = (Inr (stored_of (view c) a), c)"
  unfolding token_row_of_def by (simp add: query_prepared SCHEMA_TABLES_def stored_of_def)

lemma page_tokens_loop_ready:
  assumes "ready c" "bt_wf m" "\<And>k v. bt_get k m = Some v \<Longrightarrow> stored_of (view c) k = Some v"
  shows "\<exists>m'. page_tokens_loop rows m c = (Inr m', c) \<and>
    (\<forall>row \<in> set rows. bt_get (st_token row) m' = stored_of (view c) (st_token row)) \<and>
    (\<forall>k. bt_get k m' = bt_get k m \<or> bt_get k m' = stored_of (view c) k)"
  using assms(2,3)
proof (induction rows arbitrary: m)
  case Nil
  then show ?case by (simp add: ret_def)
next
  case (Cons row rows)
  let ?t = "st_token row"
  show ?case
  proof (cases "bt_get ?t m")
    case (Some v)
    from Cons.IH [OF Cons.prems] obtain m' where m': "page_tokens_loop rows m c = (Inr m', c)"
      "\<And>row. row \<in> set rows \<Longrightarrow> bt_get (st_token row) m' = stored_of (view c) (st_token row)"
      "\<And>k. bt_get k m' = bt_get k m \<or> bt_get k m' = stored_of (view c) k" by blast
    have "bt_get ?t m' = stored_of (view c) ?t" using m'(3) [of ?t] Some Cons.prems(2) [OF Some] by auto
    with m' Some show ?thesis by (intro exI [of _ m']) auto
  next
    case None
    let ?m = "case stored_of (view c) ?t of Some token \<Rightarrow> bt_insert ?t token m | None \<Rightarrow> m"
    have get: "bt_get k ?m = (if k = ?t then stored_of (view c) ?t else bt_get k m)" for k
      using Cons.prems(1) None by (auto simp: bt_get_insert split: option.splits)
    have "bt_wf ?m" using Cons.prems(1) by (auto simp: bt_wf_insert split: option.splits)
    moreover have "\<And>k v. bt_get k ?m = Some v \<Longrightarrow> stored_of (view c) k = Some v"
      unfolding get using Cons.prems(2) by (auto split: if_splits)
    ultimately obtain m' where m': "page_tokens_loop rows ?m c = (Inr m', c)"
      "\<And>row. row \<in> set rows \<Longrightarrow> bt_get (st_token row) m' = stored_of (view c) (st_token row)"
      "\<And>k. bt_get k m' = bt_get k ?m \<or> bt_get k m' = stored_of (view c) k" using Cons.IH by blast
    have "bt_get ?t m' = stored_of (view c) ?t" using m'(3) [of ?t] unfolding get by auto
    moreover have "bt_get k m' = bt_get k m \<or> bt_get k m' = stored_of (view c) k" for k
      using m'(3) [of k] unfolding get by (auto split: if_splits)
    moreover have "page_tokens_loop (row # rows) m c = (Inr m', c)"
      using None m'(1) by (simp add: andthen_def token_row_ready [OF assms(1)])
    ultimately show ?thesis using m'(2) by (intro exI [of _ m']) auto
  qed
qed

lemma transfer_page_ready:
  assumes "ready c" "read_rows c = (Inr rows, c)" "read_total c = (Inr tot, c)"
  shows "\<exists>tokens. transfer_page read_rows read_total c = (Inr (rows, tot, tokens), c) \<and>
    (\<forall>row \<in> set rows. bt_get (st_token row) tokens = stored_of (view c) (st_token row))"
proof -
  from page_tokens_loop_ready [OF assms(1) bt.wf_empty, of rows] obtain m where "page_tokens rows c = (Inr m, c)"
    "\<forall>row \<in> set rows. bt_get (st_token row) m = stored_of (view c) (st_token row)"
    unfolding page_tokens_def by fastforce
  with assms(2,3) show ?thesis by (auto simp: transfer_page_def andthen_def ret_def)
qed

text \<open>The rendered transfers of a transaction in a database.\<close>

definition rendered_transfers :: "wire_fns \<Rightarrow> db \<Rightarrow> tx_data \<Rightarrow> api_token_transfer list" where
  "rendered_transfers w d data =
     map (\<lambda>row. build_token_transfer w row data (stored_of d (st_token row)))
       (tx_transfer_feed (td_block_number data) (td_tx_index data) d)"

lemma tx_transfer_page_ready:
  assumes "ready (as_pool st)" "fits_i64 (td_block_number data)" "fits_i64 (td_tx_index data)" "fits_i64 limit" "fits_i64 offset"
  shows "tx_transfer_page data limit offset st =
    Inr (limit_offset limit offset (rendered_transfers (af_wire (as_fns st)) (view (as_pool st)) data),
         count_rows (rendered_transfers (af_wire (as_fns st)) (view (as_pool st)) data))"
proof -
  let ?c = "as_pool st"
  let ?feed = "tx_transfer_feed (td_block_number data) (td_tx_index data) (view ?c)"
  have rows: "transfers_for_tx_page (td_block_number data) (td_tx_index data) limit offset ?c = (Inr (limit_offset limit offset ?feed), ?c)"
    using assms by (simp add: page_queries page_statement_ready SCHEMA_TABLES_def)
  have tot: "count_transfers_for_tx (td_block_number data) (td_tx_index data) ?c = (Inr (count_rows ?feed), ?c)"
    unfolding count_transfers_for_tx_def using assms
    by (subst query_prepared) (simp_all add: SCHEMA_TABLES_def tx_transfer_feed_def count_rows_def)
  from transfer_page_ready [of ?c "transfers_for_tx_page (td_block_number data) (td_tx_index data) limit offset" _
      "count_transfers_for_tx (td_block_number data) (td_tx_index data)", OF assms(1) rows tot]
  obtain tokens where
    t: "transfer_page (transfers_for_tx_page (td_block_number data) (td_tx_index data) limit offset)
         (count_transfers_for_tx (td_block_number data) (td_tx_index data)) ?c = (Inr (limit_offset limit offset ?feed, count_rows ?feed, tokens), ?c)"
      "\<forall>row \<in> set (limit_offset limit offset ?feed). bt_get (st_token row) tokens = stored_of (view ?c) (st_token row)" by blast
  then show ?thesis
    by (simp add: tx_transfer_page_def Let_def with_conn_def from_report_def rendered_transfers_def count_rows_def
        limit_offset_def take_map drop_map)
qed

end
