(* ===== verification/Api_Properties.thy ===== *)
theory Api_Properties
  imports Api_Correct
begin

text \<open>
  The properties of the transaction, address, token, call and stats handlers, over an index built
  from the chain and a node that still replays the indexed blocks.
\<close>

section \<open>A sample server\<close>

definition sample_wire :: wire_fns where
  "sample_wire = \<lparr>digest_display = (\<lambda>_. ''digest''), bls_display = (\<lambda>k. hex_encode k), signature_display = hex_encode,
     authority_display = (\<lambda>_. ''authority''), authority_of_key = (\<lambda>k. ucast (hd k)), keccak256 = (\<lambda>_. 3), powi_10 = (\<lambda>d. 10 ^ unat d)\<rparr>"

definition sample_api_fns :: api_fns where
  "sample_api_fns = \<lparr>af_wire = sample_wire, af_chain = sample_fns,
     address_from_str = (\<lambda>s. if s = ''five'' then Some 5 else None),
     hash_from_str = (\<lambda>s. if s = ''one'' then Some 1 else None),
     hex_decode = (\<lambda>s. if s = [] then Some [] else None)\<rparr>"

definition sample_tx_data :: tx_data where
  "sample_tx_data = \<lparr>td_sender = 4, td_tx = sample_tx, td_success = True, td_gas_used = 21000, td_block_number = 1,
     td_tx_index = 0, td_base_fee = Some 7, td_timestamp = 5\<rparr>"

text \<open>The sample node that also answers for the transaction with hash 1.\<close>

definition sample_lookup :: node_reader where
  "sample_lookup = sample_reader\<lparr>nr_reth := sample_env\<lparr>
     re_transaction_by_hash_with_meta := (\<lambda>h. Inr (if h = 1 then Some ((sample_tx, 4),
        \<lparr>tm_block_number = 1, tm_index = 0, tm_base_fee = Some 7, tm_timestamp = 5\<rparr>) else None)),
     re_receipt_by_hash_with_gas_used := (\<lambda>_. Inr (Some (\<lparr>rc_success = True, rc_cumulative_gas_used = 21000, rc_logs = []\<rparr>, 21000)))\<rparr>\<rparr>"

definition sample_api :: "conn \<Rightarrow> api_state" where
  "sample_api c = \<lparr>as_fns = sample_api_fns, as_reader = sample_lookup, as_pool = c,
     as_status = set_last_indexed 1 default_status, as_stats_cache = None\<rparr>"

section \<open>Transactions\<close>

text \<open>C15: the detail of a transaction shows its own transfers and no others: over an index built from the
  chain, when the node finds the transaction at position \<open>i\<close> of an indexed block, the response holds
  the first hundred of exactly the well-formed \<open>Transfer\<close> logs of its receipt, in log order, with
  their full number. While its block is above the published cursor both fields are absent, so that
  an empty list always means that there are no transfers.\<close>

theorem tx_detail_transfers:
  assumes "indexed_chain fns blocks (as_pool st)" and "ready (as_pool st)"
    and "(b, rs) \<in> set blocks" and "i < length (rb_transactions_with_sender b)"
    and "hash_from_str (as_fns st) raw = Some h" and "tx_by_hash h (as_reader st) = Inr (Some data)"
    and "td_block_number data = eh_number (rb_header b)" and "td_tx_index data = of_nat i"
    and "fits_i64 (td_block_number data)" and "fits_i64 (td_tx_index data)"
  shows "tx_by_hash_handler raw st = Inr
    (let item = build_api_transaction data Detail;
         rows = map transfer_entry (tx_transfers (eh_number (rb_header b)) rs i)
     in if td_block_number data \<le> unwrap_or (status_last_indexed (as_status st)) 0
        then item\<lparr>wtx_token_transfers := Some (map (\<lambda>row. build_token_transfer (af_wire (as_fns st)) row data
                     (stored_of (cn_committed (as_pool st)) (st_token row))) (take 100 rows)),
                  wtx_token_transfer_count := Some (of_nat (length rows))\<rparr>
        else item\<lparr>wtx_token_transfers := None, wtx_token_transfer_count := None\<rparr>)"
proof -
  have v: "view (as_pool st) = cn_committed (as_pool st)" using indexed_chain_tables(6) [OF assms(1)] by (simp add: view_def)
  have absent: "(build_api_transaction data Detail)\<lparr>wtx_token_transfers := None, wtx_token_transfer_count := None\<rparr> =
      build_api_transaction data Detail"
    by (simp add: build_api_transaction_def Let_def)
  have "fits_i64 MAX_PER_PAGE" "fits_i64 0" by (simp_all add: MAX_PER_PAGE_def fits_i64_def)
  note page = tx_transfer_page_ready [OF assms(2,9,10) this, unfolded MAX_PER_PAGE_def]
  show ?thesis
    using assms(5-8) tx_transfer_feed_indexed [OF assms(1,3,4)]
    by (simp add: tx_by_hash_handler_def parse_hash_def ok_or_def reading_def from_report_def Let_def page absent
        rendered_transfers_def v limit_offset_def count_rows_def MAX_PER_PAGE_def take_map)
qed

lemma sample_status: "status_last_indexed (set_last_indexed 1 default_status) = Some 1"
  by (simp add: status_last_indexed_set) (simp add: status_last_indexed_def default_status_def)

lemma tx_detail_transfers_witness:
  "\<exists>c tx. tx_by_hash_handler ''one'' (sample_api c) = Inr tx \<and> wtx_token_transfer_count tx = Some 0"
proof -
  from sample_indexed obtain c where c: "indexed_chain sample_fns [(sample_block 1, sample_receipts)] c" "ready c" by blast
  have "tx_by_hash 1 sample_lookup = Inr (Some sample_tx_data)"
    by (simp add: tx_by_hash_def node_read_def sample_lookup_def sample_reader_def sample_tx_data_def)
  then show ?thesis
    using tx_detail_transfers [of sample_fns "[(sample_block 1, sample_receipts)]" "sample_api c" "sample_block 1" sample_receipts 0 "''one''" 1 sample_tx_data] c
    by (intro exI [of _ c])
      (simp add: sample_api_def sample_api_fns_def sample_block_def sample_header_def sample_tx_data_def fits_i64_def Let_def
        sample_status unwrap_or_def tx_transfers_def sample_receipts_def slice_get_def log_transfers_def)
qed

section \<open>Addresses\<close>

lemma count_address_txs_ready:
  "ready c \<Longrightarrow> count_address_txs a c = (Inr (of_nat (length (address_feed a (view c)))), c)"
  unfolding count_address_txs_def by (simp add: query_prepared SCHEMA_TABLES_def count_rows_def address_feed_def)

lemma address_txs_page_ready:
  "ready c \<Longrightarrow> fits_i64 limit \<Longrightarrow> fits_i64 offset \<Longrightarrow>
   address_txs_page a limit offset c = (Inr (limit_offset limit offset (address_feed a (view c))), c)"
  by (simp add: page_queries page_statement_ready SCHEMA_TABLES_def)

lemma page_params_bounds:
  assumes "page_params q = (p, n, offset)"
  shows "0 < n" "fits_i64 n" "offset = saturating_mul p n"
proof -
  have b: "1 \<le> n" "n \<le> 100" "offset = saturating_mul p n"
    using assms clamp_per_page_bounds [of "pq_per_page q"] by (auto simp: page_params_def Let_def)
  then have "1 \<le> unat n" "unat n \<le> 100" by (simp_all add: word_le_nat_alt)
  with b(3) show "0 < n" "fits_i64 n" "offset = saturating_mul p n" by (simp_all add: fits_i64_def word_less_nat_alt)
qed

text \<open>The transaction list of an address works end to end: over an index built from the chain, against
  a node that still replays the indexed blocks, the request for any page whose offset fits SQLite's
  integers succeeds; its rows are the transactions at that window of the address's feed, in the
  feed's order, each one in which the address takes part, and the total is the length of the feed.\<close>

lemma address_txs_handler:
  assumes "indexed_chain fns blocks (as_pool st)" and "ready (as_pool st)" and "holds_blocks (as_reader st) blocks"
    and "address_from_str (as_fns st) raw = Some a" and "tq_tx_type q = None"
    and "page_params (paging q) = (p, n, offset)" and "fits_i64 offset"
  shows "\<exists>rows. address_txs raw q st =
      Inr \<lparr>en_items = map (\<lambda>data. build_api_transaction data input_mode.List) rows,
           en_total = of_nat (length (address_feed (addr_hex a) (cn_committed (as_pool st)))), en_page = p, en_per_page = n\<rparr> \<and>
    list_all2 (hydrated_from fns blocks a)
      (take (unat n) (drop (unat p * unat n) (address_feed (addr_hex a) (cn_committed (as_pool st))))) rows"
proof -
  let ?feed = "address_feed (addr_hex a) (cn_committed (as_pool st))"
  have v: "view (as_pool st) = cn_committed (as_pool st)" using indexed_chain_tables(6) [OF assms(1)] by (simp add: view_def)
  note b = page_params_bounds [OF assms(6)]
  have "set (limit_offset n offset ?feed) \<subseteq> set ?feed"
    by (auto simp: limit_offset_def dest!: in_set_takeD in_set_dropD)
  from indexed_pointers_hydrate [OF assms(1,3) this] obtain rows
    where rows: "hydrate_pointers (limit_offset n offset ?feed) (as_reader st) = Inr rows"
      "list_all2 (hydrated_from fns blocks a) (limit_offset n offset ?feed) rows" by blast
  have "address_txs raw q st = Inr (envelope_of (map (\<lambda>data. build_api_transaction data input_mode.List) rows) (of_nat (length ?feed)) p n)"
    using assms(4-7) b rows(1)
    by (simp add: address_txs_def parse_address_def ok_or_def query_tx_type_def with_conn_def from_report_def andthen_def ret_def
        address_txs_page_ready [OF assms(2)] count_address_txs_ready [OF assms(2)] v hydrate_tx_page_def reading_def Let_def)
  moreover have "limit_offset n offset ?feed = take (unat n) (drop (unat p * unat n) ?feed)"
    using assms(7) b(3) fits_saturating_mul [of p n] by (simp add: limit_offset_def)
  ultimately show ?thesis using rows(2) by (auto simp: envelope_of_def)
qed

lemma sample_lookup_holds: "holds_blocks sample_lookup [(sample_block 1, sample_receipts)]"
  using sample_holds by (simp add: holds_blocks_def sample_lookup_def sample_reader_def replays_def)

lemma sample_page: "page_params (paging \<lparr>tq_page = None, tq_per_page = None, tq_tx_type = None\<rparr>) = (0, 25, 0)"
  by (simp add: page_params_def paging_def Let_def clamp_per_page_def clamp_def DEFAULT_PER_PAGE_def MAX_PER_PAGE_def saturating_mul_def)

section \<open>Rendering\<close>

definition hex_shape :: "nat \<Rightarrow> string \<Rightarrow> bool" where
  "hex_shape n s \<longleftrightarrow> take 2 s = ''0x'' \<and> length s = 2 + 2 * n \<and> set (drop 2 s) \<subseteq> set hex_digits"

lemma hex_encode_chars: "set (hex_encode bs) \<subseteq> set hex_digits"
proof -
  have "unat b div 16 < 16" "unat b mod 16 < 16" for b :: u8
    using unat_lt2p [of b] by auto
  then have "set (hex_byte b) \<subseteq> set hex_digits" for b :: u8
    by (simp add: hex_byte_def length_hex_digits)
  then show ?thesis unfolding hex_encode_def by (induction bs) (simp_all add: hex_encode_def)
qed

lemma hex_shape_bytes: "hex_shape n (hex_bytes bs) \<longleftrightarrow> length bs = n"
  using hex_encode_chars [of bs] by (auto simp: hex_shape_def hex_bytes_def length_hex_encode)

lemma hex_shape_word: "hex_shape n (hex_word (w :: 'a::len word)) \<longleftrightarrow> LENGTH('a) div 8 = n"
  using hex_shape_bytes [of n "to_be_bytes w"] by (simp add: hex_bytes_def hex_word_def length_to_be_bytes)

lemma unat_saturating_narrow: "unat (saturating_narrow (v :: 'a::len word) :: 'b::len word) = min (unat v) (2 ^ LENGTH('b) - 1)"
proof (cases "unat v < 2 ^ LENGTH('b)")
  case True
  then show ?thesis using unat_of_nat_small [OF True] by (simp add: saturating_narrow_def)
next
  case False
  then show ?thesis by (simp add: saturating_narrow_def unat_max_word)
qed

lemma hex_word_bytes: "hex_word w = hex_bytes (to_be_bytes w)"
  by (simp add: hex_bytes_def hex_word_def)

text \<open>C39: the shape of a rendered transaction: its hash is \<open>0x\<close> and 64 lowercase digits, its addresses 40, each the
  big-endian bytes of the value and nothing else; the detail renders the whole input, a list at most its selector; the 256-bit value
  and the 128-bit gas price saturate at the widths of their fields and are exact below; the token fields are left out.\<close>

theorem transaction_wire_shape:
  "let t = build_api_transaction data mode; tx = td_tx data
   in hex_shape 32 (wtx_hash t) \<and> hex_shape 20 (wtx_from t) \<and> pred_option (hex_shape 20) (wtx_to t) \<and>
      wtx_hash t = hex_bytes (to_be_bytes (tx_hash tx)) \<and> wtx_from t = hex_bytes (to_be_bytes (td_sender data)) \<and>
      wtx_to t = map_option (\<lambda>a. hex_bytes (to_be_bytes a)) (tx_to tx) \<and>
      (case mode of
         Detail \<Rightarrow> hex_shape (length (tx_input tx)) (wtx_input t) \<and> wtx_input t = hex_bytes (tx_input tx)
       | input_mode.List \<Rightarrow> wtx_input t = (if length (tx_input tx) < 4 then ''0x'' else hex_bytes (take 4 (tx_input tx)))) \<and>
      unat (wtx_value t) = min (unat (tx_value tx)) (2 ^ 128 - 1) \<and>
      unat (wtx_gas_price t) = min (unat (tx_effective_gas_price tx (td_base_fee data))) (2 ^ 64 - 1) \<and>
      wtx_token_transfers t = None \<and> wtx_token_transfer_count t = None"
  by (auto simp: build_api_transaction_def Let_def hex_b256_def hex_address_def [abs_def] hex_word_bytes hex_shape_bytes length_to_be_bytes
      selector_hex_def unwrap_or_def unat_saturating_narrow option.pred_map comp_def option.pred_True split: input_mode.split)

text \<open>C38: a token transfer never shows a wrong amount silently: \<open>value\<close> is the logged 256-bit amount, or the
  largest 128-bit number when the amount is larger, and \<open>value_exact\<close> always parses back to the amount.\<close>

theorem transfer_value_exact:
  "let t = build_token_transfer w (transfer_entry r) data token
   in unat (wtt_value t) = min (unat (tf_value r)) (2 ^ 128 - 1) \<and>
      parse_uint (2 ^ 256) (wtt_value_exact t) = Some (unat (tf_value r)) \<and>
      (wtt_block_number t, wtt_log_index t) = (tf_block_number r, tf_log_index r) \<and>
      hex_shape 20 (wtt_from t) \<and> hex_shape 20 (wtt_to t) \<and> hex_shape 20 (wtt_token_address t)"
proof -
  have "unat (unwrap_or (parse_u128 (to_dec (tf_value r))) (- 1)) = min (unat (tf_value r)) (2 ^ 128 - 1)"
    using unat_of_nat_small [where n = "unat (tf_value r)" and 'a = 128]
    by (simp add: parse_u128_def to_dec_def parse_uint_dec_of_nat unwrap_or_def unat_max_word)
  then show ?thesis
    using unat_lt2p [of "tf_value r"]
    by (simp add: build_token_transfer_def Let_def transfer_entry_def to_dec_def parse_uint_dec_of_nat addr_hex_def hex_shape_word)
qed

section \<open>Calls\<close>

text \<open>What a well-formed call request asks for.\<close>

definition call_input :: "api_fns \<Rightarrow> call_request \<Rightarrow> (address \<times> bytes) option" where
  "call_input fns request =
     Option.bind (address_from_str fns (wrq_to request)) (\<lambda>to.
     Option.bind (hex_decode fns (unwrap_or (strip_prefix ''0x'' (wrq_data request)) (wrq_data request))) (\<lambda>data.
       if length data \<le> MAX_CALLDATA_BYTES then Some (to, data) else None))"

text \<open>C30: the outcome of \<open>/call\<close>: a malformed or oversized request is a 400 and never reaches the EVM; a
  well-formed one is a 500 exactly when the node fails, a body with \<open>ok\<close> when the contract returns, and
  a body without \<open>ok\<close> that carries the revert data when it reverts.\<close>

theorem call_outcomes:
  "(case call_input (as_fns st) request of
      None \<Rightarrow> (\<exists>m. call request st = Inl (BadRequest m))
    | Some (to, data) \<Rightarrow>
        (case re_read_contract (nr_reth (as_reader st)) to data of
           Inr out \<Rightarrow> call request st = Inr \<lparr>wrs_ok = True, wrs_result = Some (hex_bytes out), wrs_error = None, wrs_revert_data = None\<rparr>
         | Inl (Revert out reason) \<Rightarrow> (\<exists>e. call request st =
             Inr \<lparr>wrs_ok = False, wrs_result = None, wrs_error = Some e, wrs_revert_data = Some (hex_bytes out)\<rparr>)
         | Inl (Internal m) \<Rightarrow> call request st = Inl (InternalError (ContractReadFailed m)) \<and>
             into_response (InternalError (ContractReadFailed m)) = (500, ''internal error'')))"
  by (auto simp: call_input_def call_def parse_address_def ok_or_def Let_def reading_def from_report_def read_call_def node_read_def
      into_response_def split: option.splits sum.splits evm_read_error.splits)

section \<open>Stats\<close>

text \<open>The stats cache: a request changes nothing but the cache, an error leaves it as it was, an answer is
  the cached one, and the next request that comes less than five seconds after the cache was filled
  gets the same answer without reading the node.\<close>

theorem stats_cached:
  assumes "stats now later st = (r, st')"
  shows "st'\<lparr>as_stats_cache := as_stats_cache st\<rparr> = st \<and>
    (case r of
       Inl _ \<Rightarrow> st' = st
     | Inr s \<Rightarrow> \<exists>filled. as_stats_cache st' = Some (filled, s) \<and>
         (filled = later \<or> now - filled < STATS_TTL \<and> as_stats_cache st = Some (filled, s)) \<and>
         (\<forall>now' later' reader. now' - filled < STATS_TTL \<longrightarrow>
            stats now' later' (st'\<lparr>as_reader := reader\<rparr>) = (Inr s, st'\<lparr>as_reader := reader\<rparr>)))"
  using assms
  by (auto simp: stats_def split: option.splits prod.splits sum.splits if_splits)

lemma stats_cached_witness:
  "\<exists>s st'. stats 7 8 (sample_api sample_conn) = (Inr s, st') \<and> as_stats_cache st' = Some (8, s)"
proof -
  obtain r st' where r: "stats 7 8 (sample_api sample_conn) = (r, st')" by (cases "stats 7 8 (sample_api sample_conn)")
  moreover have "\<exists>s. r = Inr s"
    using r by (auto simp: stats_def sample_api_def fresh_stats_def sample_lookup_def sample_reader_def sample_env_def
        sample_consensus_def read_stats_snapshot_def node_read_def from_report_def latest_consensus_epoch_def committee_keys_def)
  ultimately show ?thesis using stats_cached [OF r] by (auto simp: sample_api_def)
qed

end
