(* ===== verification/Server.thy ===== *)
theory Server
  imports Storage_Spec Exex_Properties Api_Properties
begin

text \<open>
  The indexing loop and the API as one system. They share the database file and the status, and nothing
  orders their steps: a request may read the status, the rows and the total of a page at three different
  moments of the loop. A step of the system is one step of the loop (\<open>index_pair\<close> of \<open>exex.rs\<close>: the
  commit of a block, the publication of its height, the tip) or one step of a request (\<open>tx_by_hash\<close> with
  \<open>tx_transfer_page\<close>, and \<open>address_txs\<close>, of \<open>api.rs\<close>: the cursor check, the rows, the total), each statement on
  the database as it is committed at that moment.
\<close>

section \<open>Steps\<close>

datatype phase = Ready | Publishing bool u64 | Tip u64 | Stopped

datatype request =
    Asked tx_data
  | Reading tx_data
  | Counting tx_data "stored_transfer list"
  | Answered tx_data "(stored_transfer list \<times> u64) option"
  | Page_Asked address u64 u64
  | Page_Counting address u64 u64 "tx_pointer list"
  | Page_Answered address u64 u64 "tx_pointer list" u64

text \<open>\<open>sv_blocks\<close> is the history: the blocks whose commit succeeded.\<close>

record server =
  sv_conn :: conn
  sv_status :: indexer_status
  sv_phase :: phase
  sv_blocks :: abstract_index
  sv_requests :: "nat \<Rightarrow> request option"

definition sv_db :: "server \<Rightarrow> db" where
  "sv_db s = cn_committed (sv_conn s)"

text \<open>A pooled connection sees the committed database; its statements may fail as any other's.\<close>

definition pooled :: "server \<Rightarrow> conn \<Rightarrow> bool" where
  "pooled s c \<longleftrightarrow> cn_committed c = sv_db s \<and> cn_tx c = None"

inductive serve :: "chain_fns \<Rightarrow> server \<Rightarrow> server \<Rightarrow> bool" for fns where
  states: "sv_phase s = Ready \<Longrightarrow> token_fetch_states candidates (sv_conn s) = (r, c) \<Longrightarrow>
    serve fns s (s\<lparr>sv_conn := c, sv_phase := (case r of Inr _ \<Rightarrow> Ready | Inl _ \<Rightarrow> Stopped)\<rparr>)"
| index: "sv_phase s = Ready \<Longrightarrow> block_sizes_ok (fst p) (snd p) \<Longrightarrow> index_block (extracted fns p) ts (sv_conn s) = (Inr b, c) \<Longrightarrow>
    serve fns s (s\<lparr>sv_conn := c, sv_phase := Publishing b (number_of p), sv_blocks := (if b then sv_blocks s @ [p] else sv_blocks s)\<rparr>)"
| index_fails: "sv_phase s = Ready \<Longrightarrow> block_sizes_ok (fst p) (snd p) \<Longrightarrow> index_block (extracted fns p) ts (sv_conn s) = (Inl e, c) \<Longrightarrow>
    serve fns s (s\<lparr>sv_conn := c, sv_phase := Stopped\<rparr>)"
| publish: "sv_phase s = Publishing b n \<Longrightarrow>
    serve fns s (s\<lparr>sv_status := (if b then set_last_indexed n (sv_status s) else sv_status s), sv_phase := Tip n\<rparr>)"
| tip: "sv_phase s = Tip n \<Longrightarrow> serve fns s (s\<lparr>sv_status := set_node_tip n (sv_status s), sv_phase := Ready\<rparr>)"
| ask: "sv_requests s rid = None \<Longrightarrow> serve fns s (s\<lparr>sv_requests := (sv_requests s)(rid \<mapsto> Asked data)\<rparr>)"
| check: "sv_requests s rid = Some (Asked data) \<Longrightarrow>
    serve fns s (s\<lparr>sv_requests := (sv_requests s)(rid \<mapsto>
      (if td_block_number data \<le> unwrap_or (status_last_indexed (sv_status s)) 0 then Reading data else Answered data None))\<rparr>)"
| rows: "sv_requests s rid = Some (Reading data) \<Longrightarrow> pooled s c \<Longrightarrow>
    transfers_for_tx_page (td_block_number data) (td_tx_index data) MAX_PER_PAGE 0 c = (Inr rs, c') \<Longrightarrow>
    serve fns s (s\<lparr>sv_requests := (sv_requests s)(rid \<mapsto> Counting data rs)\<rparr>)"
| count: "sv_requests s rid = Some (Counting data rs) \<Longrightarrow> pooled s c \<Longrightarrow>
    count_transfers_for_tx (td_block_number data) (td_tx_index data) c = (Inr n, c') \<Longrightarrow>
    serve fns s (s\<lparr>sv_requests := (sv_requests s)(rid \<mapsto> Answered data (Some (rs, n)))\<rparr>)"
| ask_page: "sv_requests s rid = None \<Longrightarrow> serve fns s (s\<lparr>sv_requests := (sv_requests s)(rid \<mapsto> Page_Asked a limit offset)\<rparr>)"
| page_rows: "sv_requests s rid = Some (Page_Asked a limit offset) \<Longrightarrow> pooled s c \<Longrightarrow>
    address_txs_page (addr_hex a) limit offset c = (Inr ps, c') \<Longrightarrow>
    serve fns s (s\<lparr>sv_requests := (sv_requests s)(rid \<mapsto> Page_Counting a limit offset ps)\<rparr>)"
| page_count: "sv_requests s rid = Some (Page_Counting a limit offset ps) \<Longrightarrow> pooled s c \<Longrightarrow>
    count_address_txs (addr_hex a) c = (Inr n, c') \<Longrightarrow>
    serve fns s (s\<lparr>sv_requests := (sv_requests s)(rid \<mapsto> Page_Answered a limit offset ps n)\<rparr>)"
| drop: "serve fns s (s\<lparr>sv_requests := (sv_requests s)(rid := None)\<rparr>)"

text \<open>The loop starts over a database that represents some blocks, with the status loaded from its cursor.\<close>

definition server_start :: "chain_fns \<Rightarrow> server \<Rightarrow> bool" where
  "server_start fns s \<longleftrightarrow> represents fns (sv_blocks s) (sv_db s) \<and> cn_tx (sv_conn s) = None \<and> sv_phase s = Ready \<and>
     sv_status s = (case cursor_of (sv_db s) of Some c \<Rightarrow> set_last_indexed c default_status | None \<Rightarrow> default_status) \<and>
     sv_requests s = Map.empty"

inductive served :: "chain_fns \<Rightarrow> server \<Rightarrow> bool" for fns where
  start: "server_start fns s \<Longrightarrow> served fns s"
| step: "served fns s \<Longrightarrow> serve fns s s' \<Longrightarrow> served fns s'"

section \<open>The steps are those of the loop\<close>

definition server_of :: "world \<Rightarrow> abstract_index \<Rightarrow> (nat \<Rightarrow> request option) \<Rightarrow> phase \<Rightarrow> server" where
  "server_of w blocks requests phase =
     \<lparr>sv_conn = wo_conn w, sv_status = wo_status w, sv_phase = phase, sv_blocks = blocks, sv_requests = requests\<rparr>"

lemma index_pair_eq:
  "index_pair nv p =
     andthen (on_writer (token_fetch_states (ex_token_candidates (extracted (nv_chain_fns nv) p)))) (\<lambda>need.
     andthen (from_result (fetch_rows nv (number_of p) need [])) (\<lambda>ts.
     andthen (on_writer (index_block (extracted (nv_chain_fns nv) p) ts)) (\<lambda>b.
     andthen (if b then on_status (set_last_indexed (number_of p)) else ret ()) (\<lambda>_.
       on_status (set_node_tip (number_of p))))))"
  by (cases p) (simp add: index_pair_def extracted_def number_of_def Let_def cong: if_cong)

text \<open>A committed block is three steps: the commit, the publication, the tip.\<close>

lemma block_serves:
  assumes "block_sizes_ok (fst p) (snd p)" "index_block (extracted fns p) ts (wo_conn w) = (Inr b, c)"
  shows "(serve fns)\<^sup>*\<^sup>* (server_of w blocks requests Ready)
    (server_of (w\<lparr>wo_conn := c, wo_status := set_node_tip (number_of p) (if b then set_last_indexed (number_of p) (wo_status w) else wo_status w)\<rparr>)
       (if b then blocks @ [p] else blocks) requests Ready)"
proof -
  let ?w = "w\<lparr>wo_conn := c\<rparr>"
  let ?blocks = "if b then blocks @ [p] else blocks"
  let ?st = "if b then set_last_indexed (number_of p) (wo_status w) else wo_status w"
  have "serve fns (server_of w blocks requests Ready) (server_of ?w ?blocks requests (Publishing b (number_of p)))"
    using serve.index [of "server_of w blocks requests Ready" p fns ts b c] assms by (simp add: server_of_def cong: if_cong)
  moreover have "serve fns (server_of ?w ?blocks requests (Publishing b (number_of p)))
      (server_of (?w\<lparr>wo_status := ?st\<rparr>) ?blocks requests (Tip (number_of p)))"
    using serve.publish [of "server_of ?w ?blocks requests (Publishing b (number_of p))" b "number_of p" fns]
    by (cases b) (simp_all add: server_of_def)
  moreover have "serve fns (server_of (?w\<lparr>wo_status := ?st\<rparr>) ?blocks requests (Tip (number_of p)))
      (server_of (?w\<lparr>wo_status := set_node_tip (number_of p) ?st\<rparr>) ?blocks requests Ready)"
    using serve.tip [of "server_of (?w\<lparr>wo_status := ?st\<rparr>) ?blocks requests (Tip (number_of p))" "number_of p" fns]
    by (cases b) (simp_all add: server_of_def)
  ultimately show ?thesis by (simp add: rtranclp.rtrancl_into_rtrancl)
qed

text \<open>A run of \<open>index_pair\<close> without a request in between is a run of the system.\<close>

lemma index_pair_serves:
  assumes "index_pair nv p w = (r, w')" and "block_sizes_ok (fst p) (snd p)"
  shows "\<exists>blocks' phase. (serve (nv_chain_fns nv))\<^sup>*\<^sup>* (server_of w blocks requests Ready) (server_of w' blocks' requests phase) \<and>
    (r = Inr () \<longrightarrow> phase = Ready)"
proof -
  let ?fns = "nv_chain_fns nv"
  let ?e = "extracted ?fns p"
  let ?from = "server_of w blocks requests Ready"
  obtain r1 c1 where s: "token_fetch_states (ex_token_candidates ?e) (wo_conn w) = (r1, c1)" by fastforce
  let ?w1 = "w\<lparr>wo_conn := c1\<rparr>"
  have s1: "serve ?fns ?from (server_of ?w1 blocks requests (case r1 of Inr _ \<Rightarrow> Ready | Inl _ \<Rightarrow> Stopped))"
    using serve.states [of ?from _ r1 c1 ?fns] s by (simp add: server_of_def)
  show ?thesis
  proof (cases r1)
    case (Inl err)
    with assms(1) s have "w' = ?w1" "r = Inl err" by (simp_all add: index_pair_eq andthen_def on_writer_def)
    with s1 Inl show ?thesis by auto
  next
    case (Inr need)
    with s1 have s1: "serve ?fns ?from (server_of ?w1 blocks requests Ready)" by simp
    show ?thesis
    proof (cases "fetch_rows nv (number_of p) need []")
      case (Inl err)
      with assms(1) s Inr have "w' = ?w1" "r = Inl err" by (simp_all add: index_pair_eq andthen_def on_writer_def from_result_def)
      with s1 show ?thesis by auto
    next
      fix ts
      assume f: "fetch_rows nv (number_of p) need [] = Inr ts"
      obtain r2 c2 where i: "index_block ?e ts c1 = (r2, c2)" by fastforce
      show ?thesis
      proof (cases r2)
        case (Inl err)
        have "serve ?fns (server_of ?w1 blocks requests Ready) (server_of (?w1\<lparr>wo_conn := c2\<rparr>) blocks requests Stopped)"
          using serve.index_fails [of "server_of ?w1 blocks requests Ready" p ?fns ts err c2] assms(2) i Inl by (simp add: server_of_def)
        with s1 have "(serve ?fns)\<^sup>*\<^sup>* ?from (server_of (?w1\<lparr>wo_conn := c2\<rparr>) blocks requests Stopped)" by simp
        moreover have "w' = ?w1\<lparr>wo_conn := c2\<rparr>" "r = Inl err"
          using assms(1) s \<open>r1 = Inr need\<close> f i Inl by (simp_all add: index_pair_eq andthen_def on_writer_def from_result_def)
        ultimately show ?thesis by blast
      next
        case (Inr b)
        have "w' = ?w1\<lparr>wo_conn := c2, wo_status := set_node_tip (number_of p) (if b then set_last_indexed (number_of p) (wo_status w) else wo_status w)\<rparr>"
          using assms(1) s \<open>r1 = Inr need\<close> f i Inr
          by (cases b) (simp_all add: index_pair_eq andthen_def on_writer_def on_status_def from_result_def ret_def)
        moreover have "(serve ?fns)\<^sup>*\<^sup>* ?from (server_of (?w1\<lparr>wo_conn := c2, wo_status :=
            set_node_tip (number_of p) (if b then set_last_indexed (number_of p) (wo_status w) else wo_status w)\<rparr>)
            (if b then blocks @ [p] else blocks) requests Ready)"
          using converse_rtranclp_into_rtranclp [where r = "serve ?fns", OF s1]
            block_serves [OF assms(2), of ?fns ts ?w1 b c2 blocks requests] i Inr by (cases b) simp_all
        ultimately show ?thesis by blast
      qed
    qed
  qed
qed

section \<open>How the feed of an address grows\<close>

text \<open>The pointers of an address in a list of blocks, and the numbers they carry.\<close>

definition pointers_in :: "chain_fns \<Rightarrow> address \<Rightarrow> abstract_index \<Rightarrow> tx_pointer set" where
  "pointers_in fns a blocks = (\<lambda>r. \<lparr>tp_block_number = ar_block_number r, tp_tx_index = ar_tx_index r\<rparr>) `
     {r \<in> \<Union>p \<in> set blocks. set (ex_address_rows (extracted fns p)). ar_address r = a}"

lemma feed_pointers: "represents fns blocks d \<Longrightarrow> set (address_feed (addr_hex a) d) = pointers_in fns a blocks"
  unfolding pointers_in_def by (rule address_feed_rows) (simp add: represents_def)

lemma represents_order: "represents fns (xs @ ys) d \<Longrightarrow> x \<in> set xs \<Longrightarrow> y \<in> set ys \<Longrightarrow> number_of x < number_of y"
  by (auto simp: represents_def sorted_wrt_append)

lemma pointers_in_block:
  assumes "represents fns all_blocks d" "set blocks \<subseteq> set all_blocks" "x \<in> pointers_in fns a blocks"
  shows "\<exists>p \<in> set blocks. tp_block_number x = number_of p \<and> x \<in> pointers_in fns a [p]"
proof -
  from assms(3) obtain p r where p: "p \<in> set blocks" "r \<in> set (ex_address_rows (extracted fns p))" "ar_address r = a"
    "x = \<lparr>tp_block_number = ar_block_number r, tp_tx_index = ar_tx_index r\<rparr>"
    unfolding pointers_in_def by blast
  from p(1) assms(1,2) have "block_sizes_ok (fst p) (snd p)" unfolding represents_def list_all_iff by blast
  from well_extracted_extract_block [OF this, of fns] p(2) have "ar_block_number r = number_of p"
    by (simp add: well_extracted_def extracted_def number_of_def)
  moreover have "x \<in> pointers_in fns a [p]" unfolding pointers_in_def using p(2-4) by auto
  ultimately show ?thesis using p(1,4) by auto
qed

lemma pointers_in_mono: "set xs \<subseteq> set ys \<Longrightarrow> pointers_in fns a xs \<subseteq> pointers_in fns a ys"
  unfolding pointers_in_def by blast

lemma feed_block_number:
  "represents fns blocks d \<Longrightarrow> x \<in> set (address_feed (addr_hex a) d) \<Longrightarrow> \<exists>p \<in> set blocks. tp_block_number x = number_of p"
  using pointers_in_block [of fns blocks d blocks x a] by (auto simp: feed_pointers)

lemma feed_split:
  assumes "represents fns blocks d" and "represents fns (blocks @ later_blocks) d'"
  shows "set (address_feed (addr_hex a) d) =
    {p \<in> set (address_feed (addr_hex a) d'). tp_block_number p \<notin> number_of ` set later_blocks}"
  unfolding feed_pointers [OF assms(1)] feed_pointers [OF assms(2)]
proof (intro set_eqI iffI)
  fix x assume x: "x \<in> pointers_in fns a blocks"
  then obtain p where "p \<in> set blocks" "tp_block_number x = number_of p"
    using pointers_in_block [OF assms(1) order.refl] by blast
  then have "tp_block_number x \<notin> number_of ` set later_blocks" using represents_order [OF assms(2)] by fastforce
  moreover have "x \<in> pointers_in fns a (blocks @ later_blocks)" using x pointers_in_mono [of blocks "blocks @ later_blocks" fns a] by auto
  ultimately show "x \<in> {p \<in> pointers_in fns a (blocks @ later_blocks). tp_block_number p \<notin> number_of ` set later_blocks}" by simp
next
  fix x assume x: "x \<in> {p \<in> pointers_in fns a (blocks @ later_blocks). tp_block_number p \<notin> number_of ` set later_blocks}"
  then obtain p where p: "p \<in> set (blocks @ later_blocks)" "tp_block_number x = number_of p" "x \<in> pointers_in fns a [p]"
    using pointers_in_block [OF assms(2) order.refl] by blast
  with x have "p \<in> set blocks" by auto
  with p(3) show "x \<in> pointers_in fns a blocks" using pointers_in_mono [of "[p]" blocks fns a] by auto
qed

lemma feed_grows:
  assumes "represents fns blocks d" and "represents fns (blocks @ later_blocks) d'"
  shows "\<exists>added. address_feed (addr_hex a) d' = added @ address_feed (addr_hex a) d \<and>
    tp_block_number ` set added \<subseteq> number_of ` set later_blocks"
proof -
  let ?feed = "address_feed (addr_hex a)"
  let ?added = "filter (\<lambda>p. tp_block_number p \<in> number_of ` set later_blocks) (?feed d')"
  have sorted: "newest_first (?feed d)" "newest_first (?feed d')"
    using assms newest_first_address by (simp_all add: represents_def)
  have "newest_first (?added @ ?feed d)"
    unfolding newest_first_def sorted_wrt_append
  proof (intro conjI ballI)
    fix x y assume xy: "x \<in> set ?added" "y \<in> set (?feed d)"
    then obtain p q where "q \<in> set later_blocks" "tp_block_number x = number_of q"
      "p \<in> set blocks" "tp_block_number y = number_of p"
      using feed_block_number [OF assms(1)] by fastforce
    then show "x > y"
      using represents_order [OF assms(2)] by (simp add: tx_pointer_less less_prod_def)
  qed (use sorted in \<open>auto simp: newest_first_def sorted_wrt_filter\<close>)
  moreover have "set (?added @ ?feed d) = set (?feed d')" unfolding set_append feed_split [OF assms] by auto
  ultimately have "?added @ ?feed d = ?feed d'" using sorted(2) by (rule newest_first_unique)
  then show ?thesis by (intro exI [of _ ?added]) auto
qed

section \<open>The invariant\<close>

definition settled :: "db \<Rightarrow> tx_data \<Rightarrow> bool" where
  "settled d data \<longleftrightarrow> td_block_number data \<noteq> 0 \<longrightarrow> below_cursor d (td_block_number data)"

definition feed_of :: "db \<Rightarrow> tx_data \<Rightarrow> stored_transfer list" where
  "feed_of d data = tx_transfer_feed (td_block_number data) (td_tx_index data) d"

text \<open>A page of a feed that has since grown by its first \<open>k\<close> rows.\<close>

definition page_of :: "db \<Rightarrow> address \<Rightarrow> u64 \<Rightarrow> u64 \<Rightarrow> nat \<Rightarrow> tx_pointer list \<Rightarrow> bool" where
  "page_of d a limit offset k ps \<longleftrightarrow>
     k \<le> length (address_feed (addr_hex a) d) \<and> ps = limit_offset limit offset (drop k (address_feed (addr_hex a) d))"

text \<open>What a settled request has read so far. With nothing indexed the check lets block 0 pass, and such a request
  may have read its rows, or rows and total, before that block was committed.\<close>

definition rows_read :: "db \<Rightarrow> tx_data \<Rightarrow> stored_transfer list \<Rightarrow> bool" where
  "rows_read d data rs \<longleftrightarrow>
     below_cursor d (td_block_number data) \<and> rs = take 100 (feed_of d data) \<or> td_block_number data = 0 \<and> rs = []"

definition total_read :: "db \<Rightarrow> tx_data \<Rightarrow> stored_transfer list \<Rightarrow> u64 \<Rightarrow> bool" where
  "total_read d data rs n \<longleftrightarrow>
     below_cursor d (td_block_number data) \<and> rs = take 100 (feed_of d data) \<and> n = count_rows (feed_of d data) \<or>
     td_block_number data = 0 \<and> rs = [] \<and> (n = 0 \<or> below_cursor d 0 \<and> n = count_rows (feed_of d data))"

definition request_ok :: "db \<Rightarrow> request \<Rightarrow> bool" where
  "request_ok d r \<longleftrightarrow>
     (case r of
        Asked _ \<Rightarrow> True
      | Reading data \<Rightarrow> settled d data
      | Counting data rs \<Rightarrow> rows_read d data rs
      | Answered data None \<Rightarrow> True
      | Answered data (Some (rs, n)) \<Rightarrow> total_read d data rs n
      | Page_Asked _ _ _ \<Rightarrow> True
      | Page_Counting a limit offset ps \<Rightarrow> \<exists>k. page_of d a limit offset k ps
      | Page_Answered a limit offset ps n \<Rightarrow>
          \<exists>j k. j \<le> k \<and> page_of d a limit offset k ps \<and> n = count_rows (drop j (address_feed (addr_hex a) d)))"

definition server_ok :: "chain_fns \<Rightarrow> server \<Rightarrow> bool" where
  "server_ok fns s \<longleftrightarrow> represents fns (sv_blocks s) (sv_db s) \<and> cn_tx (sv_conn s) = None \<and>
     (\<forall>m. status_last_indexed (sv_status s) = Some m \<longrightarrow> below_cursor (sv_db s) m) \<and>
     (\<forall>n. sv_phase s = Publishing True n \<longrightarrow> below_cursor (sv_db s) n) \<and>
     (\<forall>rid r. sv_requests s rid = Some r \<longrightarrow> request_ok (sv_db s) r)"

text \<open>A later database keeps what a settled request has read.\<close>

definition later :: "db \<Rightarrow> db \<Rightarrow> bool" where
  "later d d' \<longleftrightarrow> (\<forall>n. below_cursor d n \<longrightarrow> below_cursor d' n \<and> (\<forall>i. tx_transfer_feed n i d' = tx_transfer_feed n i d)) \<and>
     (\<forall>a. \<exists>added. address_feed (addr_hex a) d' = added @ address_feed (addr_hex a) d)"

lemma later_refl [simp]: "later d d"
  by (simp add: later_def)

lemma page_of_later:
  assumes "later d d'"
  obtains m where "\<And>k. drop (m + k) (address_feed (addr_hex a) d') = drop k (address_feed (addr_hex a) d)"
    "\<And>limit offset k ps. page_of d a limit offset k ps \<Longrightarrow> page_of d' a limit offset (m + k) ps"
proof -
  from assms obtain added where f: "address_feed (addr_hex a) d' = added @ address_feed (addr_hex a) d"
    unfolding later_def by blast
  show ?thesis by (rule that [of "length added"]) (auto simp: f page_of_def)
qed

lemma request_ok_later:
  assumes "later d d'" "request_ok d r"
  shows "request_ok d' r"
proof (cases r)
  case (Page_Counting a limit offset ps)
  with assms(2) obtain k where "page_of d a limit offset k ps" by (auto simp: request_ok_def)
  then have "\<exists>k. page_of d' a limit offset k ps" using page_of_later [OF assms(1), of a] by metis
  with Page_Counting show ?thesis by (simp add: request_ok_def)
next
  case (Page_Answered a limit offset ps n)
  with assms(2) obtain j k where jk: "j \<le> k" "page_of d a limit offset k ps" "n = count_rows (drop j (address_feed (addr_hex a) d))"
    by (auto simp: request_ok_def)
  obtain m where m: "drop (m + j) (address_feed (addr_hex a) d') = drop j (address_feed (addr_hex a) d)"
    "page_of d' a limit offset (m + k) ps"
    using page_of_later [OF assms(1), of a] jk(2) by metis
  then have "\<exists>j k. j \<le> k \<and> page_of d' a limit offset k ps \<and> n = count_rows (drop j (address_feed (addr_hex a) d'))"
    using jk by (intro exI [of _ "m + j"] exI [of _ "m + k"]) simp
  with Page_Answered show ?thesis by (simp add: request_ok_def)
qed (use assms in \<open>auto simp: request_ok_def settled_def rows_read_def total_read_def later_def feed_of_def split: option.splits\<close>)

lemma below_last: "represents fns blocks d \<Longrightarrow> below_cursor d n \<longleftrightarrow> blocks \<noteq> [] \<and> n \<le> number_of (last blocks)"
  by (auto simp: represents_def below_cursor_def spec_cursor_def)

lemma later_append:
  assumes "represents fns blocks d" and "represents fns (blocks @ [p]) d'"
  shows "later d d'"
proof -
  have rows: "db_token_transfers d' = db_token_transfers d @ map transfer_entry (ex_transfers (extracted fns p))"
    using assms by (simp add: represents_def)
  have new: "tf_block_number r = number_of p" if "r \<in> set (ex_transfers (extracted fns p))" for r
    using that by (auto simp: extracted_def ex_transfers_extract_block number_of_def dest: tx_transfers_positions)
  have "\<exists>added. address_feed (addr_hex a) d' = added @ address_feed (addr_hex a) d" for a
    using feed_grows [OF assms] by blast
  then show ?thesis
    unfolding later_def
  proof (intro allI impI conjI)
    fix n i
    assume "below_cursor d n"
    then have n: "blocks \<noteq> []" "n \<le> number_of (last blocks)" using below_last [OF assms(1)] by auto
    moreover have "number_of (last blocks) < number_of p"
      using n(1) assms(2) by (auto simp: represents_def sorted_wrt_append)
    ultimately have lt: "n < number_of p" by simp
    then show "below_cursor d' n" using below_last [OF assms(2)] by simp
    have "filter (\<lambda>r. tf_block_number r = n \<and> tf_tx_index r = i) (ex_transfers (extracted fns p)) = []"
      using new lt by (auto simp: filter_empty_conv)
    then have "filter (\<lambda>r. st_block_number r = n \<and> st_tx_index r = i) (map transfer_entry (ex_transfers (extracted fns p))) = []"
      by (simp add: filter_map comp_def transfer_entry_def)
    then show "tx_transfer_feed n i d' = tx_transfer_feed n i d"
      by (simp add: tx_transfer_feed_def rows)
  qed
qed

text \<open>Publishing a height adds no other.\<close>

lemma published_set: "status_last_indexed (set_last_indexed n s) = Some m \<Longrightarrow> m \<le> n \<or> status_last_indexed s = Some m"
proof (cases "is_last_indexed_plus_one s < saturating_add n 1")
  case True
  assume "status_last_indexed (set_last_indexed n s) = Some m"
  with True have m: "m = saturating_add n 1 - 1"
    by (auto simp: status_last_indexed_def set_last_indexed_def max_def split: if_splits)
  have "unat (saturating_add n 1) \<noteq> 0" using True by (auto simp: word_less_nat_alt)
  then have "unat m \<le> unat n" unfolding m by (simp add: unat_pred unat_saturating_add)
  then show ?thesis by (simp add: word_le_nat_alt)
next
  case False
  then have "set_last_indexed n s = s" by (simp add: set_last_indexed_def max_def linorder_not_less)
  moreover assume "status_last_indexed (set_last_indexed n s) = Some m"
  ultimately show ?thesis by simp
qed

lemma reads_Inr:
  assumes "updates m (\<lambda>d. (d, f d))" "pooled s c" "m c = (Inr x, c')"
  shows "x = f (sv_db s)"
  using updatesD [OF assms(1,3)] assms(2) by (simp add: pooled_def view_def)

lemma updates_transfers_read:
  "updates (transfers_for_tx_page b i l o') (\<lambda>d. (d, limit_offset l o' (tx_transfer_feed b i d)))"
  unfolding transfers_for_tx_page_def
  by (rule updates_cong [OF updates_andthen [OF updates_prepare reads_query [unfolded reads_def]]]) simp

lemma updates_transfers_count: "updates (count_transfers_for_tx b i) (\<lambda>d. (d, count_rows (tx_transfer_feed b i d)))"
  unfolding count_transfers_for_tx_def
  by (rule updates_cong [OF updates_andthen [OF updates_prepare reads_query [unfolded reads_def]]])
    (simp add: tx_transfer_feed_def count_rows_def)

lemma updates_address_page:
  "updates (address_txs_page a limit offset) (\<lambda>d. (d, limit_offset limit offset (address_feed a d)))"
  unfolding address_txs_page_def
  by (rule updates_cong [OF updates_andthen [OF updates_prepare reads_query [unfolded reads_def]]]) simp

lemma updates_address_count: "updates (count_address_txs a) (\<lambda>d. (d, count_rows (address_feed a d)))"
  unfolding count_address_txs_def
  by (rule updates_cong [OF updates_andthen [OF updates_prepare reads_query [unfolded reads_def]]])
    (simp add: address_feed_def count_rows_def)

lemmas address_page_read = reads_Inr [OF updates_address_page]
lemmas address_count_read = reads_Inr [OF updates_address_count]
lemmas transfers_read = reads_Inr [OF updates_transfers_read]
lemmas transfers_count = reads_Inr [OF updates_transfers_count]

text \<open>The pooled read of \<open>tx_transfer_page\<close>, with nothing in between, is two steps of its request.\<close>

lemma pooled_after:
  assumes "pooled s c" "updates m (\<lambda>d. (d, f d))" "frames m" "m c = (Inr x, c')"
  shows "pooled s c'"
  using assms(1) updatesD [OF assms(2,4)] framesD [OF assms(3,4)]
  by (auto simp: pooled_def view_def same_session_def split: option.splits)

lemma tx_transfer_page_serves:
  assumes "tx_transfer_page data MAX_PER_PAGE 0 st = Inr (items, n)"
    and "pooled s (as_pool st)" and "sv_requests s rid = Some (Reading data)"
  shows "\<exists>rs. (serve fns)\<^sup>*\<^sup>* s (s\<lparr>sv_requests := (sv_requests s)(rid \<mapsto> Answered data (Some (rs, n)))\<rparr>) \<and> length items = length rs"
proof -
  let ?rows = "transfers_for_tx_page (td_block_number data) (td_tx_index data) MAX_PER_PAGE 0"
  let ?count = "count_transfers_for_tx (td_block_number data) (td_tx_index data)"
  let ?s1 = "\<lambda>rs. s\<lparr>sv_requests := (sv_requests s)(rid \<mapsto> Counting data rs)\<rparr>"
  from assms(1) obtain rs c1 c2 where r: "?rows (as_pool st) = (Inr rs, c1)" "?count c1 = (Inr n, c2)" "length items = length rs"
    by (auto simp: tx_transfer_page_def Let_def with_conn_def from_report_def transfer_page_def andthen_def ret_def try_bind_Inr_iff
        split: prod.splits sum.splits)
  have "frames ?rows" unfolding transfers_for_tx_page_def by (intro sql_frame)
  from pooled_after [OF assms(2) updates_transfers_read this r(1)] have c1: "pooled (?s1 rs) c1"
    by (simp add: pooled_def sv_db_def)
  have "serve fns s (?s1 rs)" by (rule serve.rows [OF assms(3,2) r(1)])
  moreover have "serve fns (?s1 rs) (s\<lparr>sv_requests := (sv_requests s)(rid \<mapsto> Answered data (Some (rs, n)))\<rparr>)"
    using serve.count [of "?s1 rs" rid data rs c1 n c2 fns] c1 r(2) by simp
  ultimately show ?thesis using r(3) by (intro exI [of _ rs]) (simp add: rtranclp.rtrancl_into_rtrancl)
qed

lemma below_cursor_mono: "below_cursor d n \<Longrightarrow> m \<le> n \<Longrightarrow> below_cursor d m"
  by (auto simp: below_cursor_def)


text \<open>Above the cursor there is nothing to read.\<close>

lemma no_transfers_above:
  assumes "represents fns blocks d" and "\<not> below_cursor d n"
  shows "tx_transfer_feed n i d = []"
proof -
  have "st_block_number r \<noteq> n" if "r \<in> set (db_token_transfers d)" for r
  proof -
    from that assms(1) obtain p t where p: "p \<in> set blocks" "t \<in> set (ex_transfers (extracted fns p))" "r = transfer_entry t"
      by (auto simp: represents_def)
    then have "tf_block_number t = number_of p"
      by (auto simp: extracted_def ex_transfers_extract_block number_of_def dest: tx_transfers_positions)
    moreover have "blocks \<noteq> []" using p(1) by auto
    moreover from this have "p \<in> set (butlast blocks) \<or> p = last blocks"
      using p(1) append_butlast_last_id [of blocks] in_set_butlast_appendI by (metis Un_iff empty_iff insert_iff list.set set_append)
    then have "number_of p \<le> number_of (last blocks)"
      using represents_order [of fns "butlast blocks" "[last blocks]" d p "last blocks"] assms(1) \<open>blocks \<noteq> []\<close> by auto
    ultimately show ?thesis using assms(2) below_last [OF assms(1)] p(3) by (auto simp: transfer_entry_def)
  qed
  then show ?thesis by (simp add: tx_transfer_feed_def filter_empty_conv sort_key_def)
qed

lemma rows_read_now:
  assumes "represents fns blocks d" and "settled d data"
  shows "rows_read d data (take 100 (feed_of d data))"
  using assms no_transfers_above [OF assms(1)] by (auto simp: rows_read_def settled_def feed_of_def)

lemma total_read_now:
  assumes "represents fns blocks d" and "rows_read d data rs"
  shows "total_read d data rs (count_rows (feed_of d data))"
  using assms no_transfers_above [OF assms(1), of 0]
  by (cases "below_cursor d 0") (auto simp: rows_read_def total_read_def feed_of_def count_rows_def)

text \<open>A step that leaves the database, the requests and the published height alone.\<close>

lemma server_ok_phase:
  assumes "server_ok fns s" "sv_db s' = sv_db s" "cn_tx (sv_conn s') = None" "sv_blocks s' = sv_blocks s" "sv_requests s' = sv_requests s"
    and "\<And>n. sv_phase s' = Publishing True n \<Longrightarrow> below_cursor (sv_db s) n"
    and "\<And>m. status_last_indexed (sv_status s') = Some m \<Longrightarrow> below_cursor (sv_db s) m"
  shows "server_ok fns s'"
  using assms unfolding server_ok_def by metis

lemma server_ok_request:
  assumes "server_ok fns s" "request_ok (sv_db s) r"
  shows "server_ok fns (s\<lparr>sv_requests := (sv_requests s)(rid \<mapsto> r)\<rparr>)"
  using assms by (auto simp: server_ok_def sv_db_def)

lemma server_ok_commit:
  assumes ok: "server_ok fns s" and p: "block_sizes_ok (fst p) (snd p)" and i: "index_block (extracted fns p) ts (sv_conn s) = (Inr b, c)"
  shows "server_ok fns (s\<lparr>sv_conn := c, sv_phase := Publishing b (number_of p), sv_blocks := (if b then sv_blocks s @ [p] else sv_blocks s)\<rparr>)"
proof -
  from ok have rep: "represents fns (sv_blocks s) (cn_committed (sv_conn s))" and idle: "cn_tx (sv_conn s) = None"
    by (simp_all add: server_ok_def sv_db_def)
  let ?blocks = "if b then sv_blocks s @ [p] else sv_blocks s"
  from represents_index_block [OF rep idle p i]
  have r: "cn_tx c = None" "b = fst (spec_index_block p (sv_blocks s))" "represents fns (snd (spec_index_block p (sv_blocks s))) (cn_committed c)"
    by simp_all
  have "snd (spec_index_block p (sv_blocks s)) = ?blocks"
    using r(2) spec_index_block_True [of p "sv_blocks s"] spec_index_block_False [of p "sv_blocks s"] by auto
  with r(3) have rep': "represents fns ?blocks (cn_committed c)" by simp
  have same: "cn_committed c = cn_committed (sv_conn s)" if "\<not> b"
    using index_block_outcome [OF idle i] that by auto
  have later: "later (sv_db s) (cn_committed c)"
    using later_append [OF rep] rep' same by (cases b) (simp_all add: sv_db_def)
  have "below_cursor (cn_committed c) (number_of p)" if b
    using below_last [OF rep'] that by simp
  with ok r(1) rep' later request_ok_later [OF later] show ?thesis
    by (auto simp: server_ok_def sv_db_def later_def)
qed

lemma last_indexed_node_tip [simp]: "status_last_indexed (set_node_tip n s) = status_last_indexed s"
  by (simp add: set_node_tip_def status_last_indexed_def)

lemma server_ok_step: "serve fns s s' \<Longrightarrow> server_ok fns s \<Longrightarrow> server_ok fns s'"
proof (induction rule: serve.induct)
  case (states s candidates r c)
  then have "cn_tx (sv_conn s) = None" by (simp add: server_ok_def)
  with tripleD [OF triple_token_fetch_states [of "sv_db s" candidates] this _ _ states(2)]
  have "cn_tx c = None" "cn_committed c = sv_db s" by (auto simp: sv_db_def split: sum.splits)
  with states show ?case by (intro server_ok_phase [OF states(3)]) (auto simp: sv_db_def server_ok_def split: sum.splits)
next
  case (index s p ts b c)
  then show ?case by (intro server_ok_commit)
next
  case (index_fails s p ts e c)
  then have "cn_tx (sv_conn s) = None" by (simp add: server_ok_def)
  from index_block_outcome [OF this index_fails(3)] have "cn_tx c = None" "cn_committed c = sv_db s" by (auto simp: sv_db_def)
  with index_fails show ?case by (intro server_ok_phase [OF index_fails(4)]) (auto simp: sv_db_def server_ok_def)
next
  case (publish s b n)
  then show ?case
    by (intro server_ok_phase [OF publish(2)])
      (auto simp: sv_db_def server_ok_def dest!: published_set intro: below_cursor_mono split: if_splits)
next
  case (tip s n)
  then show ?case
    by (intro server_ok_phase [OF tip(2)]) (auto simp: sv_db_def server_ok_def)
next
  case (ask s rid data)
  then show ?case by (intro server_ok_request) (simp_all add: request_ok_def)
next
  case (check s rid data)
  have "settled (sv_db s) data" if "td_block_number data \<le> unwrap_or (status_last_indexed (sv_status s)) 0"
  proof (cases "status_last_indexed (sv_status s)")
    case None
    with that show ?thesis by (simp add: settled_def unwrap_or_def)
  next
    case (Some m)
    with that check(2) show ?thesis by (auto simp: settled_def unwrap_or_def server_ok_def intro: below_cursor_mono)
  qed
  with check show ?case by (intro server_ok_request) (auto simp: request_ok_def)
next
  case (rows s rid data c rs c')
  then have "request_ok (sv_db s) (Reading data)" "represents fns (sv_blocks s) (sv_db s)" by (auto simp: server_ok_def)
  then have "represents fns (sv_blocks s) (sv_db s)" "settled (sv_db s) data" by (simp_all add: request_ok_def)
  from rows_read_now [OF this] transfers_read [OF rows(2,3)] rows show ?case
    by (intro server_ok_request) (auto simp: request_ok_def feed_of_def limit_offset_def MAX_PER_PAGE_def)
next
  case (count s rid data rs c n c')
  then have "request_ok (sv_db s) (Counting data rs)" "represents fns (sv_blocks s) (sv_db s)" by (auto simp: server_ok_def)
  then have "represents fns (sv_blocks s) (sv_db s)" "rows_read (sv_db s) data rs" by (simp_all add: request_ok_def)
  from total_read_now [OF this] transfers_count [OF count(2,3)] count show ?case
    by (intro server_ok_request) (auto simp: request_ok_def feed_of_def)
next
  case (ask_page s rid a limit offset)
  then show ?case by (intro server_ok_request) (simp_all add: request_ok_def)
next
  case (page_rows s rid a limit offset c ps c')
  from address_page_read [OF page_rows(2,3)] have "page_of (sv_db s) a limit offset 0 ps" by (simp add: page_of_def)
  with page_rows show ?case by (intro server_ok_request) (auto simp: request_ok_def)
next
  case (page_count s rid a limit offset ps c n c')
  then have "request_ok (sv_db s) (Page_Counting a limit offset ps)" by (auto simp: server_ok_def)
  then obtain k where "page_of (sv_db s) a limit offset k ps" by (auto simp: request_ok_def)
  with address_count_read [OF page_count(2,3)] have "request_ok (sv_db s) (Page_Answered a limit offset ps n)"
    unfolding request_ok_def request.case by (intro exI [of _ 0] exI [of _ k]) simp
  with page_count(4) show ?case by (rule server_ok_request)
next
  case (drop s rid)
  then show ?case by (auto simp: server_ok_def sv_db_def)
qed

lemma served_ok: "served fns s \<Longrightarrow> server_ok fns s"
proof (induction rule: served.induct)
  case (start s)
  have "status_last_indexed default_status = None" by (simp add: status_last_indexed_def default_status_def)
  with start show ?case
    by (auto simp: server_start_def server_ok_def below_cursor_def dest!: published_set split: option.splits)
next
  case (step s s')
  then show ?case by (blast intro: server_ok_step)
qed

section \<open>Properties\<close>

text \<open>C9: no interleaving makes a transaction detail stale or partial. In every reachable state of the loop and
  the requests the published height is at or below the committed cursor. A request that was answered with
  transfers, its check, its rows and its total each read at a different moment, shows for a transaction of an indexed
  block the first hundred of exactly the transfers that the block has for it, and their full number. The one exception is
  block 0: while nothing is indexed the code takes 0 for the height, so a request for a transaction of block 0 may have
  read its rows, or both, before that block was committed, and then shows no transfers; its total is then 0 or the right one.
  An answer with transfers for any other block means that the block was committed, whether or not it is in the list.\<close>

theorem detail_under_interleaving:
  assumes "served fns s"
  shows "(\<forall>m. status_last_indexed (sv_status s) = Some m \<longrightarrow> below_cursor (sv_db s) m) \<and>
    (\<forall>rid data rows n. sv_requests s rid = Some (Answered data (Some (rows, n))) \<longrightarrow>
       (td_block_number data = 0 \<or> below_cursor (sv_db s) (td_block_number data)) \<and>
       (\<forall>(b, rs) \<in> set (sv_blocks s). \<forall>i < length (rb_transactions_with_sender b).
          td_block_number data = eh_number (rb_header b) \<longrightarrow> td_tx_index data = of_nat i \<longrightarrow>
          (let transfers = map transfer_entry (tx_transfers (eh_number (rb_header b)) rs i); total = of_nat (length transfers)
           in rows = take 100 transfers \<and> n = total \<or>
              td_block_number data = 0 \<and> rows = [] \<and> (n = 0 \<or> n = total))))"
proof -
  note ok = served_ok [OF assms]
  from ok have rep: "represents fns (sv_blocks s) (sv_db s)" by (simp add: server_ok_def)
  have read: "total_read (sv_db s) data rows n" if "sv_requests s rid = Some (Answered data (Some (rows, n)))" for rid data rows n
    using ok that by (fastforce simp: server_ok_def request_ok_def)
  have feed: "feed_of (sv_db s) data = map transfer_entry (tx_transfers (eh_number (rb_header b)) rs i)"
    if "(b, rs) \<in> set (sv_blocks s)" "i < length (rb_transactions_with_sender b)"
      "td_block_number data = eh_number (rb_header b)" "td_tx_index data = of_nat i" for data b rs i
    unfolding feed_of_def that(3,4)
    by (rule tx_transfer_feed_rows [OF _ _ _ that(1,2), where fns = fns])
      (use rep that(1) in \<open>auto simp: represents_def number_of_def list_all_iff extracted_def case_prod_beta'\<close>)
  show ?thesis
    using ok by (auto simp: server_ok_def total_read_def feed count_rows_def Let_def dest!: read)
qed

lemma sample_represents:
  "\<exists>c. ready c \<and> cn_tx c = None \<and> cursor_of (cn_committed c) = Some 1 \<and>
     represents sample_fns [(sample_block 1, sample_receipts)] (cn_committed c)"
proof -
  have p: "extracted sample_fns (sample_block 1, sample_receipts) = sample_extracted 1"
    by (simp add: extracted_def sample_extract)
  obtain c where i: "index_block (sample_extracted 1) [] sample_conn = (Inr True, c)" "ready c" "cursor_of (cn_committed c) = Some 1"
    using index_block_succeeds [OF sample_ready, of "sample_extracted 1" "[]"] sample_fits [of 1]
    by (auto simp: sample_conn_def sample_db_def empty_db_def cursor_readable_def fits_i64_def at_or_below_cursor_def cursor_of_def)
  have "represents sample_fns [] (cn_committed sample_conn)"
    by (rule represents_blank) (simp add: sample_conn_def sample_db_def blank_def empty_db_def)
  from represents_index_block [OF this _ _ i(1) [folded p]] i(2,3) show ?thesis
    by (auto simp: sample_conn_def block_sizes_ok_def sample_block_def sample_receipts_def spec_index_block_def spec_cursor_def)
qed

lemma detail_served:
  assumes "served fns s0" "sv_requests s0 rid = None" "td_block_number data \<le> unwrap_or (status_last_indexed (sv_status s0)) 0"
    and "ready c" "pooled s0 c" "fits_i64 (td_block_number data)" "fits_i64 (td_tx_index data)"
  obtains rs n where "served fns (s0\<lparr>sv_requests := (sv_requests s0)(rid \<mapsto> Answered data (Some (rs, n)))\<rparr>)"
proof -
  let ?at = "\<lambda>r. s0\<lparr>sv_requests := (sv_requests s0)(rid \<mapsto> r)\<rparr>"
  have ask: "served fns (?at (Asked data))"
    using serve.ask [OF assms(2)] assms(1) by (blast intro: served.step)
  have check: "served fns (?at (Reading data))"
    using serve.check [of "?at (Asked data)" rid data fns] ask assms(3) by (auto intro: served.step)
  have c: "pooled (?at r) c" for r using assms(5) by (simp add: pooled_def sv_db_def)
  obtain rs where rs: "transfers_for_tx_page (td_block_number data) (td_tx_index data) MAX_PER_PAGE 0 c = (Inr rs, c)"
    using assms(4,6,7) by (simp add: page_queries page_statement_ready SCHEMA_TABLES_def MAX_PER_PAGE_def fits_i64_def)
  have rows: "served fns (?at (Counting data rs))"
    using serve.rows [of "?at (Reading data)" rid data c rs c fns] check c rs by (auto intro: served.step)
  obtain n where n: "count_transfers_for_tx (td_block_number data) (td_tx_index data) c = (Inr n, c)"
    unfolding count_transfers_for_tx_def
    using query_prepared [OF assms(4), of "''token_transfers''" "[td_block_number data, td_tx_index data]"] assms(6,7)
    by (auto simp: SCHEMA_TABLES_def)
  have "served fns (?at (Answered data (Some (rs, n))))"
    using serve.count [of "?at (Counting data rs)" rid data rs c n c fns] rows c n by (auto intro: served.step)
  then show ?thesis by (rule that)
qed

lemma detail_under_interleaving_witness:
  "\<exists>s. served sample_fns s \<and> sv_requests s 7 = Some (Answered sample_tx_data (Some ([], 0)))"
proof -
  let ?p = "(sample_block 1, sample_receipts)"
  obtain c where c: "ready c" "cn_tx c = None" "cursor_of (cn_committed c) = Some 1" "represents sample_fns [?p] (cn_committed c)"
    using sample_represents by blast
  define s0 where "s0 = \<lparr>sv_conn = c, sv_status = set_last_indexed 1 default_status, sv_phase = Ready, sv_blocks = [?p],
    sv_requests = Map.empty\<rparr>"
  have "served sample_fns s0"
    by (rule served.start) (use c in \<open>simp add: server_start_def s0_def sv_db_def\<close>)
  then obtain rs n where d: "served sample_fns (s0\<lparr>sv_requests := (sv_requests s0)(7 \<mapsto> Answered sample_tx_data (Some (rs, n)))\<rparr>)"
    by (rule detail_served [where rid = 7 and c = c and data = sample_tx_data])
      (use c in \<open>simp_all add: s0_def sample_status unwrap_or_def sample_tx_data_def pooled_def sv_db_def fits_i64_def\<close>)
  then have "rs = [] \<and> n = 0"
    using detail_under_interleaving [OF d, THEN conjunct2, rule_format, of 7 sample_tx_data rs n]
    by (simp add: s0_def sample_tx_data_def sample_block_def sample_header_def tx_transfers_def sample_receipts_def slice_get_def log_transfers_def)
  with d show ?thesis by (intro exI [of _ "s0\<lparr>sv_requests := (sv_requests s0)(7 \<mapsto> Answered sample_tx_data (Some (rs, n)))\<rparr>"]) simp
qed

text \<open>The exception does occur: with nothing indexed, a transaction of block 0 is answered with no transfers and a total
  of 0, where the documentation of the route has both fields absent.\<close>

theorem detail_before_block_zero:
  assumes "td_block_number data = 0" and "fits_i64 (td_tx_index data)"
  shows "\<exists>s. served fns s \<and> sv_blocks s = [] \<and> status_last_indexed (sv_status s) = None \<and>
    sv_requests s rid = Some (Answered data (Some ([], 0)))"
proof -
  define s0 where "s0 = \<lparr>sv_conn = sample_conn, sv_status = default_status, sv_phase = Ready, sv_blocks = [], sv_requests = Map.empty\<rparr>"
  have blank: "represents fns [] (cn_committed sample_conn)" "cursor_of (cn_committed sample_conn) = None"
    by (rule represents_blank, simp_all add: sample_conn_def sample_db_def blank_def empty_db_def cursor_of_def)
  have none: "status_last_indexed default_status = None" by (simp add: status_last_indexed_def default_status_def)
  have "served fns s0"
    by (rule served.start) (use blank in \<open>simp add: server_start_def s0_def sv_db_def sample_empty\<close>)
  then obtain rs n where d: "served fns (s0\<lparr>sv_requests := (sv_requests s0)(rid \<mapsto> Answered data (Some (rs, n)))\<rparr>)"
    by (rule detail_served [where rid = rid and c = sample_conn and data = data])
      (use assms sample_ready in \<open>simp_all add: s0_def pooled_def sv_db_def sample_empty fits_i64_def\<close>)
  let ?s = "s0\<lparr>sv_requests := (sv_requests s0)(rid \<mapsto> Answered data (Some (rs, n)))\<rparr>"
  have "sv_requests ?s rid = Some (Answered data (Some (rs, n)))" by simp
  with served_ok [OF d] have "request_ok (sv_db ?s) (Answered data (Some (rs, n)))" unfolding server_ok_def by blast
  then have "rs = [] \<and> n = 0"
    using blank(2) by (auto simp: request_ok_def total_read_def below_cursor_def s0_def sv_db_def)
  with d none show ?thesis by (intro exI [of _ ?s]) (simp add: s0_def)
qed

text \<open>C10: a page of an address read while blocks are indexed is never wrong, only of its moment. In every reachable
  state of the loop and the requests, the rows of an answered page are the window of the present feed without
  its \<open>k\<close> newest transactions, and the total is the length of the present feed without its \<open>j\<close> newest, with \<open>j\<close> at
  most \<open>k\<close>: the total is never older than the rows. The feed is newest first, and its members are exactly the
  transactions of the address in the blocks committed so far.\<close>

theorem page_under_interleaving:
  assumes "served fns s" and "sv_requests s rid = Some (Page_Answered a limit offset ps n)"
  shows "let feed = address_feed (addr_hex a) (sv_db s)
    in newest_first feed \<and> set feed = pointers_in fns a (sv_blocks s) \<and>
       (\<exists>j k. j \<le> k \<and> k \<le> length feed \<and> ps = take (unat limit) (drop (k + unat offset) feed) \<and> n = of_nat (length feed - j))"
proof -
  let ?feed = "address_feed (addr_hex a) (sv_db s)"
  note ok = served_ok [OF assms(1)]
  from ok have rep: "represents fns (sv_blocks s) (sv_db s)" by (simp add: server_ok_def)
  from ok assms(2) have "request_ok (sv_db s) (Page_Answered a limit offset ps n)" unfolding server_ok_def by blast
  then obtain j k where jk: "j \<le> k" "page_of (sv_db s) a limit offset k ps" "n = count_rows (drop j ?feed)"
    by (auto simp: request_ok_def)
  then have "j \<le> k \<and> k \<le> length ?feed \<and> ps = take (unat limit) (drop (k + unat offset) ?feed) \<and> n = of_nat (length ?feed - j)"
    by (simp add: page_of_def limit_offset_def count_rows_def add.commute)
  moreover have "newest_first ?feed" using rep newest_first_address by (simp add: represents_def)
  ultimately show ?thesis using feed_pointers [OF rep, of a] unfolding Let_def by blast
qed

lemma page_under_interleaving_witness:
  "\<exists>s ps n. served sample_fns s \<and> sv_requests s 7 = Some (Page_Answered 5 25 0 ps n) \<and>
     newest_first (address_feed (addr_hex 5) (sv_db s))"
proof -
  let ?p = "(sample_block 1, sample_receipts)"
  obtain c where c: "ready c" "cn_tx c = None" "cursor_of (cn_committed c) = Some 1" "represents sample_fns [?p] (cn_committed c)"
    using sample_represents by blast
  define s0 where "s0 = \<lparr>sv_conn = c, sv_status = set_last_indexed 1 default_status, sv_phase = Ready, sv_blocks = [?p],
    sv_requests = Map.empty\<rparr>"
  let ?at = "\<lambda>r. s0\<lparr>sv_requests := (sv_requests s0)(7 \<mapsto> r)\<rparr>"
  have start: "served sample_fns s0"
    by (rule served.start) (use c in \<open>simp add: server_start_def s0_def sv_db_def\<close>)
  have ask: "served sample_fns (?at (Page_Asked 5 25 0))"
    using serve.ask_page [of s0 7 sample_fns 5 25 0] start by (auto simp: s0_def intro: served.step)
  obtain ps where ps: "address_txs_page (addr_hex 5) 25 0 c = (Inr ps, c)"
    using address_txs_page_ready [OF c(1)] by (simp add: fits_i64_def)
  have rows: "served sample_fns (?at (Page_Counting 5 25 0 ps))"
    using serve.page_rows [of "?at (Page_Asked 5 25 0)" 7 5 25 0 c ps c sample_fns] ask c(2) ps
    by (auto simp: s0_def pooled_def sv_db_def intro: served.step)
  obtain n where n: "count_address_txs (addr_hex 5) c = (Inr n, c)"
    using count_address_txs_ready [OF c(1)] by blast
  have count: "served sample_fns (?at (Page_Answered 5 25 0 ps n))"
    using serve.page_count [of "?at (Page_Counting 5 25 0 ps)" 7 5 25 0 ps c n c sample_fns] rows c(2) n
    by (auto simp: s0_def pooled_def sv_db_def intro: served.step)
  from page_under_interleaving [OF count, of 7 5 25 0 ps n] count show ?thesis
    by (intro exI [of _ "?at (Page_Answered 5 25 0 ps n)"] exI [of _ ps] exI [of _ n]) (simp add: Let_def)
qed

end
