(* ===== verification/Api_Consensus_Properties.thy ===== *)
theory Api_Consensus_Properties
  imports Api_Properties
begin

text \<open>
  The properties of the epoch and consensus handlers: the epoch list, the block ranges of
  consecutive epochs, the certificates and the execution blocks of a consensus output.
\<close>

section \<open>Boundary timestamps\<close>

lemma timestamps_loop_headers:
  assumes "\<And>n. n \<in> set ns \<Longrightarrow> re_header_by_number env n = Inr (header n)" "bt_wf m"
  shows "\<exists>m'. timestamps_loop env ns m = Inr m' \<and>
    (\<forall>k. bt_get k m' = (if k \<in> set ns \<and> header k \<noteq> None then map_option eh_timestamp (header k) else bt_get k m))"
  using assms
proof (induction ns arbitrary: m)
  case Nil
  then show ?case by simp
next
  case (Cons n ns)
  let ?m = "case header n of Some h \<Rightarrow> bt_insert n (eh_timestamp h) m | None \<Rightarrow> m"
  have "bt_wf ?m" using Cons.prems(2) by (auto simp: bt_wf_insert split: option.split)
  moreover have "timestamps_loop env (n # ns) m = timestamps_loop env ns ?m" using Cons.prems(1) [of n] by simp
  moreover have "bt_get k ?m = (if k = n \<and> header k \<noteq> None then map_option eh_timestamp (header k) else bt_get k m)" for k
    using Cons.prems(2) by (auto simp: bt_get_insert split: option.split)
  ultimately show ?case using Cons.IH [of ?m] Cons.prems(1) by fastforce
qed

lemma end_times_headers:
  assumes "\<And>n. re_header_by_number (nr_reth reader) n = Inr (header n)"
  shows "\<exists>m. end_times reader ns = Inr m \<and> (\<forall>n \<in> set ns. bt_get n m = map_option eh_timestamp (header n))"
proof -
  from timestamps_loop_headers [of ns "nr_reth reader" header bt_empty] assms obtain m
    where m: "timestamps_loop (nr_reth reader) ns bt_empty = Inr m"
      "\<forall>k. bt_get k m = (if k \<in> set ns \<and> header k \<noteq> None then map_option eh_timestamp (header k) else bt_get k bt_empty)"
    using bt.wf_empty by blast
  then have "bt_get n m = map_option eh_timestamp (header n)" if "n \<in> set ns" for n
    using that by (cases "header n") simp_all
  with m(1) show ?thesis
    by (cases "ns = []") (simp_all add: end_times_def header_timestamps_def node_read_def from_report_def)
qed

section \<open>Epoch rows\<close>

lemma epoch_row_plain:
  "\<exists>item. epoch_row w reader k newest False = Inr item \<and> wep_epoch item = k \<and> wep_end_time item = None"
  by (auto simp: epoch_row_def api_certificate_def Let_def split: prod.splits option.splits)

definition epoch_item :: "wire_fns \<Rightarrow> node_reader \<Rightarrow> u64 \<Rightarrow> u64 \<Rightarrow> api_epoch" where
  "epoch_item w reader newest k = (case epoch_row w reader k newest False of Inr item \<Rightarrow> item | Inl _ \<Rightarrow> undefined)"

lemma epoch_item: "epoch_row w reader k newest False = Inr (epoch_item w reader newest k)"
  "wep_epoch (epoch_item w reader newest k) = k" "wep_end_time (epoch_item w reader newest k) = None"
  using epoch_row_plain [of w reader k newest] by (auto simp: epoch_item_def)

text \<open>The end time a row shows: the timestamp of its end block, when the node still has the header.\<close>

definition timed :: "(u64 \<Rightarrow> exec_header option) \<Rightarrow> api_epoch \<Rightarrow> api_epoch" where
  "timed header item = item\<lparr>wep_end_time := Option.bind (wep_end_block item) (\<lambda>n. map_option eh_timestamp (header n))\<rparr>"

lemma timed_open: "wep_end_block item = None \<Longrightarrow> wep_end_time item = None \<Longrightarrow> timed header item = item"
  by (simp add: timed_def)

lemma set_map_filter: "set (List.map_filter f xs) = {y. \<exists>x \<in> set xs. f x = Some y}"
  by (induction xs) (auto simp: map_filter_simps split: option.splits)

text \<open>C35: the epoch list is dense: when the header reads succeed, page \<open>p\<close> of size \<open>n\<close> holds exactly one row
  for each epoch of the \<open>p\<close>-th window of \<open>current, current - 1, ..., 0\<close>, with the timestamp of its end
  block when it is closed and the node has that header, and the total is \<open>current + 1\<close>; a missing
  record or header fails no row.\<close>

theorem epochs_list_window:
  assumes "\<forall>k. re_header_by_number (nr_reth (as_reader st)) k = Inr (header k)"
    and "page_params q = (p, n, offset)"
  shows "epochs_list q st =
    (let newest = ucast (latest_consensus_epoch (as_reader st))
     in Inr \<lparr>en_items = map (\<lambda>k. timed header (epoch_item (af_wire (as_fns st)) (as_reader st) newest k))
               (take (unat n) (drop (unat p * unat n) (dense_desc (newest + 1)))),
             en_total = newest + 1, en_page = p, en_per_page = n\<rparr>)"
proof -
  let ?r = "as_reader st"
  let ?newest = "ucast (latest_consensus_epoch ?r) :: u64"
  let ?item = "epoch_item (af_wire (as_fns st)) ?r ?newest"
  let ?window = "take (unat n) (drop (unat p * unat n) (dense_desc (?newest + 1)))"
  let ?items = "map ?item ?window"
  let ?ends = "List.map_filter wep_end_block ?items"
  have "unat ?newest < 2 ^ 64 - 1"
    using unat_lt2p [of "latest_consensus_epoch ?r"] by (simp add: unsigned_ucast_eq take_bit_nat_eq_self)
  then have t: "saturating_add ?newest 1 = ?newest + 1" using plus_one_unat by blast
  note n = page_params_bounds(1) [OF assms(2)]
  from end_times_headers [of ?r header ?ends] assms(1) obtain m
    where m: "end_times ?r ?ends = Inr m" "\<And>k. k \<in> set ?ends \<Longrightarrow> bt_get k m = map_option eh_timestamp (header k)" by blast
  have each: "x\<lparr>wep_end_time := end_time m (wep_end_block x)\<rparr> = timed header x" if "x \<in> set ?items" for x
  proof (cases "wep_end_block x")
    case None
    then show ?thesis by (simp add: timed_def end_time_def)
  next
    case (Some a)
    with that have "a \<in> set ?ends" unfolding set_map_filter by blast
    with Some m(2) show ?thesis by (simp add: timed_def end_time_def)
  qed
  have "map (\<lambda>x. x\<lparr>wep_end_time := end_time m (wep_end_block x)\<rparr>) ?items = map (timed header) ?items"
    using each by (intro map_cong) auto
  moreover have "?items = map (timed header) ?items" if "?ends = []"
  proof (rule map_idI [symmetric])
    fix x
    assume x: "x \<in> set ?items"
    then have "wep_end_block x = None" using that by (cases "wep_end_block x") (auto simp: set_map_filter set_empty [symmetric] simp del: set_empty)
    moreover have "wep_end_time x = None" using x epoch_item(3) by auto
    ultimately show "timed header x = x" by (rule timed_open)
  qed
  moreover have "try_map (\<lambda>k. epoch_row (af_wire (as_fns st)) ?r k ?newest False) (desc_page_items (?newest + 1) p n) = Inr ?items"
    unfolding desc_page_items_window [OF n] by (rule try_map_all_Inr) (rule epoch_item(1))
  ultimately show ?thesis
    using m(1) assms(2) unfolding epochs_list_def Let_def by (simp add: t envelope_of_def comp_def)
qed

lemma epochs_list_window_witness:
  "\<exists>items. epochs_list \<lparr>pq_page = None, pq_per_page = Some 2\<rparr> (sample_api sample_conn) =
     Inr \<lparr>en_items = items, en_total = 3, en_page = 0, en_per_page = 2\<rparr> \<and> map wep_epoch items = [2, 1]"
proof -
  have h: "\<forall>k. re_header_by_number (nr_reth (as_reader (sample_api sample_conn))) k = Inr (Some (sample_header k))"
    by (simp add: sample_api_def sample_lookup_def sample_reader_def sample_env_def)
  have q: "page_params \<lparr>pq_page = None, pq_per_page = Some 2\<rparr> = (0, 2, 0)"
    by (simp add: page_params_def Let_def clamp_per_page_def clamp_def MAX_PER_PAGE_def saturating_mul_def)
  have l: "latest_consensus_epoch (as_reader (sample_api sample_conn)) = 2"
    by (simp add: latest_consensus_epoch_def sample_api_def sample_lookup_def sample_reader_def sample_consensus_def)
  have "wep_epoch (timed header x) = wep_epoch x" for header x by (simp add: timed_def)
  then show ?thesis
    unfolding epochs_list_window [OF h q] l by (simp add: Let_def epoch_item(2) dense_desc_def upt_rec)
qed

text \<open>The boundaries of a row, from the record it shows and the record before it.\<close>

lemma epoch_row_boundaries:
  assumes "epoch_row w reader e c v = Inr x"
    and "epoch_record_pair (epoch_u32 e) reader = (this, previous)" and "shown_record (e = c) this = (shown, cert)"
  shows "wep_start_block x = (case previous of None \<Rightarrow> 0 | Some r \<Rightarrow> saturating_add (nh_number (er_final_state r)) 1) \<and>
    wep_end_block x = map_option (\<lambda>r. nh_number (er_final_state r)) shown \<and>
    (shown = None \<longrightarrow> wep_record x = None \<and> wep_certificate x = None \<and> \<not> wep_certified x)"
  using assms(1) unfolding epoch_row_def Let_def assms(2) prod.case assms(3) try_bind_Inr_iff by (auto split: option.splits)

lemma consensus_epoch_row_boundaries:
  assumes "consensus_epoch_row w reader e c v = Inr x"
    and "epoch_record_pair e reader = (this, previous)" and "shown_record (e = c) this = (shown, cert)"
  shows "wce_exec_range x = \<lparr>wra_first = epoch_first e 0 er_final_state previous,
           wra_last = map_option (\<lambda>r. nh_number (er_final_state r)) shown\<rparr> \<and>
    wce_consensus_range x = \<lparr>wra_first = epoch_first e 1 er_final_consensus previous,
           wra_last = map_option (\<lambda>r. nh_number (er_final_consensus r)) shown\<rparr>"
  using assms(1) unfolding consensus_epoch_row_def Let_def assms(2) prod.case assms(3) try_bind_Inr_iff by (auto split: if_splits)

text \<open>C27: consecutive epochs tile the chain: on a node whose two record reads agree, the blocks of an epoch start
  right after the end block of the one before, in the epoch list and in both ranges of the consensus
  epochs, and the current epoch shows no end, record or certificate.\<close>

theorem epochs_tile:
  assumes "\<forall>k. cc_record_by_epoch (nr_consensus reader) k = map_option fst (cc_get_epoch_by_number (nr_consensus reader) k)"
    and "k < newest" and "cc_get_epoch_by_number (nr_consensus reader) k = Some (record, certificate)"
    and "epoch_row w reader (ucast k) (ucast newest) v = Inr x" and "epoch_row w reader (ucast (k + 1)) (ucast newest) v = Inr y"
    and "consensus_epoch_row w reader k newest v = Inr cx" and "consensus_epoch_row w reader (k + 1) newest v = Inr cy"
  shows "wep_end_block x = Some (nh_number (er_final_state record)) \<and>
    wep_start_block y = saturating_add (nh_number (er_final_state record)) 1 \<and>
    wra_last (wce_exec_range cx) = wep_end_block x \<and> wra_first (wce_exec_range cy) = Some (wep_start_block y) \<and>
    wra_last (wce_consensus_range cx) = Some (nh_number (er_final_consensus record)) \<and>
    wra_first (wce_consensus_range cy) = Some (saturating_add (nh_number (er_final_consensus record)) 1) \<and>
    (k + 1 = newest \<longrightarrow> wep_end_block y = None \<and> wep_record y = None \<and> wep_certificate y = None \<and> \<not> wep_certified y)"
proof -
  have u: "unat (k + 1) = unat k + 1"
    using assms(2) unat_lt2p [of newest] by (simp add: unat_word_ariths word_less_nat_alt)
  then have pos: "k + 1 \<noteq> 0" and prev: "checked_sub (k + 1) 1 = Some k"
    by (auto simp: word_unat_eq_iff checked_sub_def word_less_nat_alt)
  have narrow: "epoch_u32 (ucast j) = j" for j :: u32
    using unat_lt2p [of j] by (simp add: epoch_u32_def saturating_narrow_def unsigned_ucast_eq take_bit_nat_eq_self)
  have wide: "(ucast i :: u64) = ucast j \<longleftrightarrow> i = j" for i j :: u32
    by (metis narrow)
  have before: "cc_record_by_epoch (nr_consensus reader) k = Some record" using assms(1,3) by simp
  obtain shown0 cert0 where s0: "shown_record (k = newest) (cc_get_epoch_by_number (nr_consensus reader) k) = (shown0, cert0)" by fastforce
  obtain shown1 cert1 where s1: "shown_record (k + 1 = newest) (cc_get_epoch_by_number (nr_consensus reader) (k + 1)) = (shown1, cert1)" by fastforce
  have pair0: "epoch_record_pair k reader = (cc_get_epoch_by_number (nr_consensus reader) k, snd (epoch_record_pair k reader))"
    by (simp add: epoch_record_pair_def Let_def)
  have pair1: "epoch_record_pair (k + 1) reader = (cc_get_epoch_by_number (nr_consensus reader) (k + 1), Some record)"
    by (simp add: epoch_record_pair_def Let_def prev before)
  have x: "wep_end_block x = map_option (\<lambda>r. nh_number (er_final_state r)) shown0"
    using epoch_row_boundaries [OF assms(4), unfolded narrow wide, OF pair0 s0] by simp
  have y: "wep_start_block y = saturating_add (nh_number (er_final_state record)) 1"
    "shown1 = None \<longrightarrow> wep_record y = None \<and> wep_certificate y = None \<and> \<not> wep_certified y"
    "wep_end_block y = map_option (\<lambda>r. nh_number (er_final_state r)) shown1"
    using epoch_row_boundaries [OF assms(5), unfolded narrow wide, OF pair1 s1] by simp_all
  have cx: "wra_last (wce_exec_range cx) = map_option (\<lambda>r. nh_number (er_final_state r)) shown0"
    "wra_last (wce_consensus_range cx) = map_option (\<lambda>r. nh_number (er_final_consensus r)) shown0"
    using consensus_epoch_row_boundaries [OF assms(6) pair0 s0] by simp_all
  have cy: "wra_first (wce_exec_range cy) = Some (saturating_add (nh_number (er_final_state record)) 1)"
    "wra_first (wce_consensus_range cy) = Some (saturating_add (nh_number (er_final_consensus record)) 1)"
    using consensus_epoch_row_boundaries [OF assms(7) pair1 s1] pos by (simp_all add: epoch_first_def)
  have "shown0 = Some record" using s0 assms(2,3) by (auto simp: shown_record_def split: if_splits)
  moreover have "shown1 = None" if "k + 1 = newest" using s1 that by (auto simp: shown_record_def split: option.splits)
  ultimately show ?thesis using x y cx cy by simp
qed

lemma epochs_tile_witness:
  "\<exists>x y. epoch_row sample_wire sample_reader 1 2 True = Inr x \<and> epoch_row sample_wire sample_reader 2 2 True = Inr y \<and>
     wep_end_block x = Some 1 \<and> wep_start_block y = 2 \<and> wep_record y = None"
proof -
  have c: "cc_get_epoch_by_number (nr_consensus sample_reader) 1 =
      Some (sample_record 1, Some \<lparr>ec_epoch_hash = 11, ec_signature = [9], ec_signed_authorities = [0, 2]\<rparr>)"
    "\<forall>k. cc_record_by_epoch (nr_consensus sample_reader) k = map_option fst (cc_get_epoch_by_number (nr_consensus sample_reader) k)"
    by (simp_all add: sample_reader_def sample_consensus_def)
  have v: "verify_epoch_certificate r e sample_reader = Inr True" for r e
    by (simp add: verify_epoch_certificate_def node_read_def sample_reader_def sample_consensus_def)
  have "\<exists>x. epoch_row sample_wire sample_reader k 2 True = Inr x" for k
    by (auto simp: epoch_row_def Let_def api_certificate_def from_report_def v split: prod.split option.split)
  then obtain x y where xy: "epoch_row sample_wire sample_reader 1 2 True = Inr x" "epoch_row sample_wire sample_reader 2 2 True = Inr y" by blast
  have "\<exists>x. consensus_epoch_row sample_wire sample_reader k 2 True = Inr x" for k
    by (auto simp: consensus_epoch_row_def Let_def api_certificate_def from_report_def v split: prod.split option.split)
  then obtain cx cy where "consensus_epoch_row sample_wire sample_reader 1 2 True = Inr cx" "consensus_epoch_row sample_wire sample_reader 2 2 True = Inr cy" by blast
  from epochs_tile [OF c(2) _ c(1), of 2 sample_wire True x y cx cy] xy this show ?thesis
    by (auto simp: sample_record_def saturating_add_def)
qed

section \<open>Certificates and execution blocks\<close>

text \<open>A certificate accounts for every signer: each index of the bitmap is either resolved to the committee key
  at that position, in the bitmap's order, or counted as unresolved, so that the signers and the
  unresolved ones add up to the signer count, and nothing is unresolved exactly when every index is
  within the committee.\<close>

theorem certificate_accounts:
  assumes "length (ec_signed_authorities c) < 2 ^ 32"
  shows "let api = build_epoch_certificate w r c verified;
             resolved = filter (\<lambda>i. unat i < length (er_committee r)) (ec_signed_authorities c)
    in wec_signers api = map (\<lambda>i. bls_display w (er_committee r ! unat i)) resolved \<and>
       unat (wec_signer_count api) = length (wec_signers api) + unat (wec_unresolved_signers api) \<and>
       (wec_unresolved_signers api = 0 \<longleftrightarrow> set (ec_signed_authorities c) \<subseteq> {i. unat i < length (er_committee r)})"
proof -
  let ?is = "ec_signed_authorities c"
  let ?in = "\<lambda>i :: u32. unat i < length (er_committee r)"
  have signers: "List.map_filter (\<lambda>i. map_option (bls_display w) (slice_get (er_committee r) (unat i))) is =
      map (\<lambda>i. bls_display w (er_committee r ! unat i)) (filter ?in is)" for "is"
    by (induction "is") (auto simp: map_filter_simps slice_get_def)
  have none: "(slice_get (er_committee r) (unat i) = None) = (\<not> ?in i)" for i by (simp add: slice_get_def)
  have bound: "length (filter (\<lambda>i. \<not> ?in i) ?is) < 2 ^ 32"
    using assms length_filter_le [of "\<lambda>i. \<not> ?in i" ?is] by linarith
  then have u: "unat (of_nat (length (filter (\<lambda>i. \<not> ?in i) ?is)) :: u32) = length (filter (\<lambda>i. \<not> ?in i) ?is)"
    by (intro unat_of_nat_small) simp
  have n: "unat (of_nat (length ?is) :: u64) = length ?is" using assms by (intro unat_of_nat_small) simp
  have "length (filter ?in ?is) + length (filter (\<lambda>i. \<not> ?in i) ?is) = length ?is" by (rule sum_length_filter_compl)
  moreover have "(of_nat (length (filter (\<lambda>i. \<not> ?in i) ?is)) :: u32) = 0 \<longleftrightarrow> set ?is \<subseteq> {i. ?in i}"
    using u by (auto simp: word_unat_eq_iff filter_empty_conv)
  ultimately show ?thesis
    by (simp add: build_epoch_certificate_def expand_signers_eq signers none Let_def u n)
qed

lemma certificate_accounts_witness:
  "let api = build_epoch_certificate sample_wire (sample_record 4) \<lparr>ec_epoch_hash = 11, ec_signature = [], ec_signed_authorities = [0, 2, 7]\<rparr> (Some True)
   in length (wec_signers api) = 2 \<and> unat (wec_signer_count api) = 2 + unat (wec_unresolved_signers api)"
  using certificate_accounts [of "\<lparr>ec_epoch_hash = 11, ec_signature = [], ec_signed_authorities = [0, 2, 7]\<rparr>" sample_wire "sample_record 4" "Some True"]
  by (simp add: Let_def sample_record_def)

lemma map_filter_map_cong: "map f xs = map g ys \<Longrightarrow> List.map_filter f xs = List.map_filter g ys"
proof -
  have "List.map_filter h zs = List.map_filter id (map h zs)" for h :: "'x \<Rightarrow> 'y option" and zs
    by (induction zs) (auto simp: map_filter_simps split: option.split)
  then show "map f xs = map g ys \<Longrightarrow> List.map_filter f xs = List.map_filter g ys" by metis
qed

lemma map_filter_if: "List.map_filter (\<lambda>x. if P x then Some (f x) else None) xs = map f (filter P xs)"
  by (induction xs) (auto simp: map_filter_simps)

definition sample_output :: consensus_output where
  "sample_output = (let b = \<lparr>ba_transactions = [[1]], ba_digest = 4, ba_worker_id = 0, ba_beneficiary = 1, ba_base_fee_per_gas = 7, ba_size = 1\<rparr>
     in \<lparr>co_consensus_header = sample_output_header 1, co_consensus_header_hash = 1, co_number = 1, co_sub_dag = sample_dag,
         co_batches = [\<lparr>ce_address = 1, ce_batches = [b, b, b]\<rparr>], co_flatten_batches = [(0, 0), (0, 1), (0, 2)],
         co_get_batch_digest = (\<lambda>_. Some 4)\<rparr>)"

lemma batch_block_unat:
  assumes "fits_i64 (wxr_first exec)" "length (co_flatten_batches out) \<le> 2 ^ 63" "k < length (co_flatten_batches out)"
  shows "unat (wxr_first exec + of_nat k) = unat (wxr_first exec) + k"
  using assms unat_of_nat_small [of k, where 'a = 64] by (simp add: unat_word_ariths fits_i64_def)

lemma batch_block_numbers:
  assumes "fits_i64 (wxr_first exec)" "length (co_flatten_batches out) \<le> 2 ^ 63"
  shows "map wcb_exec_block_number (build_consensus_batches w out (Some exec) hashes) =
    map (\<lambda>k. if unat (wxr_first exec) + k \<le> unat (wxr_last exec) then Some (wxr_first exec + of_nat k) else None)
      [0..<length (co_flatten_batches out)]"
proof -
  have "map wcb_exec_block_number (build_consensus_batches w out (Some exec) hashes) =
      map (\<lambda>k. exec_block_number (Some exec) (of_nat k)) (map fst (enumerate 0 (co_flatten_batches out)))"
    unfolding build_consensus_batches_def Let_def map_map by (intro map_cong) auto
  also have "\<dots> = map (\<lambda>k. if unat (wxr_first exec) + k \<le> unat (wxr_last exec) then Some (wxr_first exec + of_nat k) else None)
      [0..<length (co_flatten_batches out)]"
    using batch_block_unat [OF assms] by (simp add: exec_block_number_def Let_def word_le_nat_alt)
  finally show ?thesis .
qed

text \<open>C29: the execution block of a batch stays within the indexed range: batch \<open>k\<close> of an output is numbered
  \<open>first + k\<close> when that is at most \<open>last\<close> and has no number otherwise, without wrap-around, and
  every block of the range that has a batch belongs to exactly one.\<close>

theorem batch_blocks_in_range:
  assumes "fits_i64 (wxr_first exec)" and "length (co_flatten_batches out) \<le> 2 ^ 63"
  shows "map wcb_exec_block_number (build_consensus_batches w out (Some exec) hashes) =
      map (\<lambda>k. if unat (wxr_first exec) + k \<le> unat (wxr_last exec) then Some (wxr_first exec + of_nat k) else None)
        [0..<length (co_flatten_batches out)] \<and>
    distinct (List.map_filter wcb_exec_block_number (build_consensus_batches w out (Some exec) hashes)) \<and>
    set (List.map_filter wcb_exec_block_number (build_consensus_batches w out (Some exec) hashes)) =
      {b. wxr_first exec \<le> b \<and> b \<le> wxr_last exec \<and> unat b < unat (wxr_first exec) + length (co_flatten_batches out)}"
proof -
  let ?bs = "build_consensus_batches w out (Some exec) hashes"
  let ?n = "length (co_flatten_batches out)"
  let ?first = "wxr_first exec"
  let ?P = "\<lambda>k. unat ?first + k \<le> unat (wxr_last exec)"
  note u = batch_block_unat [OF assms]
  note numbers = batch_block_numbers [OF assms, of w hashes]
  have "List.map_filter wcb_exec_block_number ?bs = map (\<lambda>k. ?first + of_nat k) (filter ?P [0..<?n])"
    by (simp add: map_filter_map_cong [OF numbers] map_filter_if)
  moreover have "distinct (map (\<lambda>k. ?first + of_nat k) (filter ?P [0..<?n]))"
  proof -
    have "inj_on (\<lambda>k. ?first + of_nat k) (set (filter ?P [0..<?n]))"
    proof (rule inj_onI)
      fix i j
      assume ij: "i \<in> set (filter ?P [0..<?n])" "j \<in> set (filter ?P [0..<?n])" and e: "?first + of_nat i = ?first + of_nat j"
      from ij have "i < ?n" "j < ?n" by simp_all
      from u [OF this(1)] u [OF this(2)] have "unat ?first + i = unat ?first + j" unfolding e by (rule trans [OF sym])
      then show "i = j" by simp
    qed
    then show ?thesis by (simp add: distinct_map)
  qed
  moreover have "(\<lambda>k. ?first + of_nat k) ` {k. k < ?n \<and> ?P k} =
      {b. ?first \<le> b \<and> b \<le> wxr_last exec \<and> unat b < unat ?first + ?n}"
  proof (intro equalityI subsetI)
    fix b assume "b \<in> {b. ?first \<le> b \<and> b \<le> wxr_last exec \<and> unat b < unat ?first + ?n}"
    then have b: "unat ?first \<le> unat b" "unat b \<le> unat (wxr_last exec)" "unat b < unat ?first + ?n"
      by (simp_all add: word_le_nat_alt)
    then have "?first + of_nat (unat b - unat ?first) = b"
      using u [of "unat b - unat ?first"] by (simp add: word_unat_eq_iff)
    with b show "b \<in> (\<lambda>k. ?first + of_nat k) ` {k. k < ?n \<and> ?P k}"
      by (intro image_eqI [of _ _ "unat b - unat ?first"]) auto
  qed (auto simp: word_le_nat_alt u)
  ultimately show ?thesis using numbers by (simp add: conj_commute)
qed

lemma batch_blocks_in_range_witness:
  "map wcb_exec_block_number (build_consensus_batches sample_wire sample_output (Some \<lparr>wxr_first = 100, wxr_last = 101\<rparr>) False) =
     [Some 100, Some 101, None]"
proof -
  have n: "length (co_flatten_batches sample_output) = 3" by (simp add: sample_output_def Let_def)
  have "fits_i64 (wxr_first \<lparr>wxr_first = 100, wxr_last = 101\<rparr>)" by (simp add: fits_i64_def)
  from batch_blocks_in_range [OF this, of sample_output sample_wire False, unfolded n, THEN conjunct1] show ?thesis
    by (simp add: upt_rec)
qed

end
