(* ===== verification/Http.thy ===== *)
theory Http
  imports Api_Consensus
begin

text \<open>
  The HTTP side of \<open>src/api.rs\<close>: the route table, the dispatch of a request to its handler, the answer of
  every handler as status and body, the CORS layer, and the start of \<open>serve\<close>. Matching a path against the
  table, extracting and rejecting parameters and answering a wrong method is \<open>axum\<close>'s; checking header
  values and origin lists is that of \<open>http\<close> and \<open>tower_http\<close>: all are fields of \<open>http_fns\<close>.
\<close>

section \<open>Requests, responses and the libraries\<close>

datatype http_method = GET | HEAD | POST | OPTIONS | OtherMethod string

record http_request =
  rq_method :: http_method
  rq_path :: string
  rq_query :: "string option"
  rq_headers :: "(string \<times> string) list"
  rq_body :: bytes

record leaders_query =
  lq_window :: "u64 option"

text \<open>The bodies: the JSON of a response type, \<open>{"error": ...}\<close>, a text of the framework, or nothing.\<close>

datatype body =
    Health_Body health_response
  | Stats_Body api_stats
  | Tx_Page "api_transaction envelope"
  | Tx_Body api_transaction
  | Transfer_Page "api_token_transfer envelope"
  | Block_Page "api_block envelope"
  | Block_Body api_block
  | Address_Body api_address
  | Token_Body api_token_info
  | Epoch_Page "api_epoch envelope"
  | Epoch_Data_Body api_epoch_data
  | Epoch_Body api_epoch
  | Validators_Body "api_validator list"
  | Leaders_Body leaders_response
  | Consensus_Latest_Body api_consensus_latest
  | Consensus_Page "api_consensus_header envelope"
  | Consensus_Block_Body api_consensus_block
  | Consensus_Batches_Body api_consensus_batches
  | Consensus_Epoch_Page "api_consensus_epoch envelope"
  | Consensus_Epoch_Body api_consensus_epoch
  | Call_Body call_response
  | Error_Body string
  | Rejection_Body string
  | No_Body

type_synonym response = "nat \<times> body"
type_synonym rejection = "nat \<times> string"

datatype allow_origin = Any_Origin | Origins "string list"

text \<open>
  The matcher gets the patterns of the table and a path and gives the index of a pattern with the raw
  segments captured. \<open>AllowOrigin::list\<close> is \<open>None\<close> where it panics.
\<close>

record http_fns =
  hf_match :: "string list \<Rightarrow> string \<Rightarrow> (nat \<times> string list) option"
  hf_allows :: "http_method \<Rightarrow> http_method \<Rightarrow> bool"
  hf_not_allowed :: nat
  hf_path :: "string list \<Rightarrow> rejection + string"
  hf_page_query :: "string option \<Rightarrow> rejection + page_query"
  hf_txs_query :: "string option \<Rightarrow> rejection + txs_query"
  hf_leaders_query :: "string option \<Rightarrow> rejection + leaders_query"
  hf_call_request :: "(string \<times> string) list \<Rightarrow> bytes \<Rightarrow> rejection + call_request"
  hf_header_value :: "string \<Rightarrow> string option"
  hf_origin_list :: "string list \<Rightarrow> allow_origin option"
  hf_bind :: "string \<Rightarrow> report + unit"

section \<open>The route table\<close>

datatype handler =
    H_health | H_stats | H_txs_list | H_tx_by_hash | H_tx_transfers | H_blocks_list | H_block_by_number
  | H_address_summary | H_address_txs | H_address_transfers | H_token_info | H_token_transfers
  | H_epochs_list | H_epoch_current | H_epoch_by_number | H_validators | H_leaders
  | H_consensus_latest | H_consensus_blocks_list | H_consensus_block | H_consensus_block_batches
  | H_consensus_epochs_list | H_consensus_epoch | H_call

definition ROUTES :: "(string \<times> http_method \<times> handler) list" where
  "ROUTES =
     [(''/health'', GET, H_health),
      (''/stats'', GET, H_stats),
      (''/txs'', GET, H_txs_list),
      (''/txs/{hash}'', GET, H_tx_by_hash),
      (''/txs/{hash}/transfers'', GET, H_tx_transfers),
      (''/blocks'', GET, H_blocks_list),
      (''/blocks/{number}'', GET, H_block_by_number),
      (''/address/{addr}'', GET, H_address_summary),
      (''/address/{addr}/txs'', GET, H_address_txs),
      (''/address/{addr}/transfers'', GET, H_address_transfers),
      (''/tokens/{addr}'', GET, H_token_info),
      (''/tokens/{addr}/transfers'', GET, H_token_transfers),
      (''/epochs'', GET, H_epochs_list),
      (''/epochs/current'', GET, H_epoch_current),
      (''/epochs/{n}'', GET, H_epoch_by_number),
      (''/validators'', GET, H_validators),
      (''/validators/leaders'', GET, H_leaders),
      (''/consensus/latest'', GET, H_consensus_latest),
      (''/consensus/blocks'', GET, H_consensus_blocks_list),
      (''/consensus/blocks/{number}'', GET, H_consensus_block),
      (''/consensus/blocks/{number}/batches'', GET, H_consensus_block_batches),
      (''/consensus/epochs'', GET, H_consensus_epochs_list),
      (''/consensus/epochs/{n}'', GET, H_consensus_epoch),
      (''/call'', POST, H_call)]"

section \<open>Running a handler\<close>

definition error_response :: "api_error \<Rightarrow> response" where
  "error_response e = (case into_response e of (status, message) \<Rightarrow> (status, Error_Body message))"

definition respond :: "('a \<Rightarrow> body) \<Rightarrow> api_error + 'a \<Rightarrow> response" where
  "respond f r = (case r of Inr x \<Rightarrow> (200, f x) | Inl e \<Rightarrow> error_response e)"

text \<open>An extractor that rejects answers the request without running the handler.\<close>

definition extracting :: "rejection + 'a \<Rightarrow> ('a \<Rightarrow> response) \<Rightarrow> response" where
  "extracting r k = (case r of Inl (status, message) \<Rightarrow> (status, Rejection_Body message) | Inr x \<Rightarrow> k x)"

text \<open>\<open>stats\<close> alone changes the state: \<open>now\<close> and \<open>later\<close> are its two looks at the clock.\<close>

definition run_handler ::
  "http_fns \<Rightarrow> handler \<Rightarrow> string list \<Rightarrow> http_request \<Rightarrow> nat \<Rightarrow> nat \<Rightarrow> api_state \<Rightarrow> response \<times> api_state" where
  "run_handler fns h captured rq now later st =
     (let keep = (\<lambda>r. (r, st));
          path = extracting (hf_path fns captured);
          page = extracting (hf_page_query fns (rq_query rq));
          txs = extracting (hf_txs_query fns (rq_query rq))
      in case h of
           H_health \<Rightarrow> keep (200, Health_Body (health st))
         | H_stats \<Rightarrow> (case stats now later st of (r, st') \<Rightarrow> (respond Stats_Body r, st'))
         | H_txs_list \<Rightarrow> keep (txs (\<lambda>q. respond Tx_Page (txs_list q st)))
         | H_tx_by_hash \<Rightarrow> keep (path (\<lambda>raw. respond Tx_Body (tx_by_hash_handler raw st)))
         | H_tx_transfers \<Rightarrow> keep (path (\<lambda>raw. page (\<lambda>q. respond Transfer_Page (tx_transfers_handler raw q st))))
         | H_blocks_list \<Rightarrow> keep (page (\<lambda>q. respond Block_Page (blocks_list q st)))
         | H_block_by_number \<Rightarrow> keep (path (\<lambda>raw. respond Block_Body (block_by_number_handler raw st)))
         | H_address_summary \<Rightarrow> keep (path (\<lambda>raw. respond Address_Body (address_summary raw st)))
         | H_address_txs \<Rightarrow> keep (path (\<lambda>raw. txs (\<lambda>q. respond Tx_Page (address_txs raw q st))))
         | H_address_transfers \<Rightarrow> keep (path (\<lambda>raw. page (\<lambda>q. respond Transfer_Page (address_transfers raw q st))))
         | H_token_info \<Rightarrow> keep (path (\<lambda>raw. respond Token_Body (token_info raw st)))
         | H_token_transfers \<Rightarrow> keep (path (\<lambda>raw. page (\<lambda>q. respond Transfer_Page (token_transfers raw q st))))
         | H_epochs_list \<Rightarrow> keep (page (\<lambda>q. respond Epoch_Page (epochs_list q st)))
         | H_epoch_current \<Rightarrow> keep (respond Epoch_Data_Body (epoch_current st))
         | H_epoch_by_number \<Rightarrow> keep (path (\<lambda>raw. respond Epoch_Body (epoch_by_number raw st)))
         | H_validators \<Rightarrow> keep (respond Validators_Body (validators st))
         | H_leaders \<Rightarrow> keep (extracting (hf_leaders_query fns (rq_query rq)) (\<lambda>q. respond Leaders_Body (leaders (lq_window q) st)))
         | H_consensus_latest \<Rightarrow> keep (respond Consensus_Latest_Body (consensus_latest st))
         | H_consensus_blocks_list \<Rightarrow> keep (page (\<lambda>q. respond Consensus_Page (consensus_blocks_list q st)))
         | H_consensus_block \<Rightarrow> keep (path (\<lambda>raw. respond Consensus_Block_Body (consensus_block_handler raw st)))
         | H_consensus_block_batches \<Rightarrow> keep (path (\<lambda>raw. respond Consensus_Batches_Body (consensus_block_batches raw st)))
         | H_consensus_epochs_list \<Rightarrow> keep (page (\<lambda>q. respond Consensus_Epoch_Page (consensus_epochs_list q st)))
         | H_consensus_epoch \<Rightarrow> keep (path (\<lambda>raw. respond Consensus_Epoch_Body (consensus_epoch raw st)))
         | H_call \<Rightarrow> keep (extracting (hf_call_request fns (rq_headers rq) (rq_body rq)) (\<lambda>q. respond Call_Body (call q st))))"

section \<open>The router\<close>

text \<open>A path of the table with the wrong method is answered by the framework, any other path by the fallback.\<close>

definition router :: "http_fns \<Rightarrow> http_request \<Rightarrow> nat \<Rightarrow> nat \<Rightarrow> api_state \<Rightarrow> response \<times> api_state" where
  "router fns rq now later st =
     (case hf_match fns (map fst ROUTES) (rq_path rq) of
        None \<Rightarrow> (error_response NotFound, st)
      | Some (i, captured) \<Rightarrow>
          (case ROUTES ! i of (_, method, h) \<Rightarrow>
             if hf_allows fns method (rq_method rq) then run_handler fns h captured rq now later st
             else ((hf_not_allowed fns, No_Body), st)))"

section \<open>CORS and the listener\<close>

record cors_layer =
  cl_allow_methods :: "http_method list"
  cl_allow_headers :: "string list"
  cl_allow_origin :: allow_origin

datatype 'a outcome = Panicked | Returned "report + 'a"

definition build_cors :: "http_fns \<Rightarrow> string list \<Rightarrow> cors_layer outcome" where
  "build_cors fns origins =
     (let cors = (\<lambda>allowed. \<lparr>cl_allow_methods = [GET, POST], cl_allow_headers = [''content-type''], cl_allow_origin = allowed\<rparr>)
      in if origins = [] then Returned (Inr (cors Any_Origin))
         else case try_map (\<lambda>origin. ok_or (InvalidCorsOrigin origin) (hf_header_value fns origin)) origins of
                Inl e \<Rightarrow> Returned (Inl e)
              | Inr values \<Rightarrow>
                  (case hf_origin_list fns values of None \<Rightarrow> Panicked | Some allowed \<Rightarrow> Returned (Inr (cors allowed))))"

text \<open>
  \<open>serve\<close> up to the point where it listens: the layer is built before the address is bound. It then answers
  requests with \<open>router\<close> under the layer until the token is cancelled.
\<close>

definition serve_start :: "http_fns \<Rightarrow> string \<Rightarrow> string list \<Rightarrow> cors_layer outcome" where
  "serve_start fns addr origins =
     (case build_cors fns origins of
        Returned (Inr layer) \<Rightarrow> Returned (map_result (\<lambda>_. layer) (hf_bind fns addr))
      | unlistening \<Rightarrow> unlistening)"

end
