(* ===== verification/Http_Properties.thy ===== *)
theory Http_Properties
  imports Http Api_Properties
begin

text \<open>
  The properties of the HTTP side: which handler a path reaches whatever the order of the table, the error
  contract of every answer, which routes can do without the consensus database, and how \<open>serve\<close> starts.
\<close>

section \<open>What the matcher promises\<close>

fun split_on :: "char \<Rightarrow> string \<Rightarrow> string list" where
  "split_on c [] = [[]]"
| "split_on c (x # xs) =
     (if x = c then [] # split_on c xs
      else case split_on c xs of s # ss \<Rightarrow> (x # s) # ss | [] \<Rightarrow> [[x]])"

definition segments :: "string \<Rightarrow> string list" where
  "segments path = split_on CHR ''/'' path"

definition is_capture :: "string \<Rightarrow> bool" where
  "is_capture s \<longleftrightarrow> take 1 s = ''{''"

text \<open>A capture takes any segment that is not empty.\<close>

definition fits :: "string list \<Rightarrow> string list \<Rightarrow> bool" where
  "fits pattern path \<longleftrightarrow> list_all2 (\<lambda>p s. if is_capture p then s \<noteq> [] else p = s) pattern path"

definition captures :: "string list \<Rightarrow> string list \<Rightarrow> string list" where
  "captures pattern path = map snd (filter (is_capture \<circ> fst) (zip pattern path))"

text \<open>Static segments go before captures, the leftmost first: the flags of a pattern as a binary number.\<close>

definition capture_rank :: "string list \<Rightarrow> nat" where
  "capture_rank pattern = fold (\<lambda>p n. 2 * n + of_bool (is_capture p)) pattern 0"

text \<open>
  The documented behaviour of the matcher on a table: it finds a pattern when one fits, of those that fit one
  with the most static segments from the left, and hands over the captured segments.
\<close>

definition documented_match :: "(string list \<Rightarrow> string \<Rightarrow> (nat \<times> string list) option) \<Rightarrow> string list \<Rightarrow> bool" where
  "documented_match m table \<longleftrightarrow>
     (\<forall>path. case m table path of
        None \<Rightarrow> \<forall>p \<in> set table. \<not> fits (segments p) (segments path)
      | Some (i, captured) \<Rightarrow>
          i < length table \<and> fits (segments (table ! i)) (segments path) \<and>
          captured = captures (segments (table ! i)) (segments path) \<and>
          (\<forall>p \<in> set table. fits (segments p) (segments path) \<longrightarrow> capture_rank (segments (table ! i)) \<le> capture_rank (segments p)))"

text \<open>A matcher that behaves so, for any table.\<close>

definition best_match :: "string list \<Rightarrow> string \<Rightarrow> (nat \<times> string list) option" where
  "best_match table path =
     (case sort_key (\<lambda>i. capture_rank (segments (table ! i))) (filter (\<lambda>i. fits (segments (table ! i)) (segments path)) [0..<length table]) of
        [] \<Rightarrow> None
      | i # _ \<Rightarrow> Some (i, captures (segments (table ! i)) (segments path)))"

lemma best_match_documented: "documented_match best_match table"
  unfolding documented_match_def
proof
  fix path
  let ?key = "\<lambda>i. capture_rank (segments (table ! i))"
  let ?fits = "\<lambda>i. fits (segments (table ! i)) (segments path)"
  let ?is = "sort_key ?key (filter ?fits [0..<length table])"
  have found: "set ?is = {i. i < length table \<and> ?fits i}" by auto
  have sorted: "sorted (map ?key ?is)" by simp
  show "case best_match table path of
        None \<Rightarrow> \<forall>p \<in> set table. \<not> fits (segments p) (segments path)
      | Some (i, captured) \<Rightarrow>
          i < length table \<and> ?fits i \<and> captured = captures (segments (table ! i)) (segments path) \<and>
          (\<forall>p \<in> set table. fits (segments p) (segments path) \<longrightarrow> ?key i \<le> capture_rank (segments p))"
  proof (cases ?is)
    case Nil
    then have "best_match table path = None" by (simp add: best_match_def)
    with found [unfolded Nil] show ?thesis by (auto simp: in_set_conv_nth)
  next
    case (Cons i rest)
    then have "best_match table path = Some (i, captures (segments (table ! i)) (segments path))" by (simp add: best_match_def)
    moreover have "i < length table" "?fits i" using found [unfolded Cons] by auto
    moreover have "?key i \<le> ?key j" if "j < length table" "?fits j" for j
    proof -
      from that found have "j \<in> set ?is" by blast
      with sorted show ?thesis unfolding Cons by auto
    qed
    ultimately show ?thesis by (auto simp: in_set_conv_nth)
  qed
qed

section \<open>The routes\<close>

text \<open>The endpoints of the interface as one function of the segments of a path.\<close>

fun endpoint :: "string list \<Rightarrow> (handler \<times> string list) option" where
  "endpoint [[], a] =
     (if a = ''health'' then Some (H_health, [])
      else if a = ''stats'' then Some (H_stats, [])
      else if a = ''txs'' then Some (H_txs_list, [])
      else if a = ''blocks'' then Some (H_blocks_list, [])
      else if a = ''epochs'' then Some (H_epochs_list, [])
      else if a = ''validators'' then Some (H_validators, [])
      else if a = ''call'' then Some (H_call, [])
      else None)"
| "endpoint [[], a, b] =
     (if a = ''validators'' then (if b = ''leaders'' then Some (H_leaders, []) else None)
      else if a = ''consensus'' then
        (if b = ''latest'' then Some (H_consensus_latest, [])
         else if b = ''blocks'' then Some (H_consensus_blocks_list, [])
         else if b = ''epochs'' then Some (H_consensus_epochs_list, [])
         else None)
      else if b = [] then None
      else if a = ''txs'' then Some (H_tx_by_hash, [b])
      else if a = ''blocks'' then Some (H_block_by_number, [b])
      else if a = ''address'' then Some (H_address_summary, [b])
      else if a = ''tokens'' then Some (H_token_info, [b])
      else if a = ''epochs'' then (if b = ''current'' then Some (H_epoch_current, []) else Some (H_epoch_by_number, [b]))
      else None)"
| "endpoint [[], a, b, c] =
     (if a = ''consensus'' then
        (if c = [] then None
         else if b = ''blocks'' then Some (H_consensus_block, [c])
         else if b = ''epochs'' then Some (H_consensus_epoch, [c])
         else None)
      else if b = [] then None
      else if a = ''txs'' then (if c = ''transfers'' then Some (H_tx_transfers, [b]) else None)
      else if a = ''address'' then
        (if c = ''txs'' then Some (H_address_txs, [b])
         else if c = ''transfers'' then Some (H_address_transfers, [b])
         else None)
      else if a = ''tokens'' then (if c = ''transfers'' then Some (H_token_transfers, [b]) else None)
      else None)"
| "endpoint [[], a, b, c, d] =
     (if a = ''consensus'' \<and> b = ''blocks'' \<and> c \<noteq> [] \<and> d = ''batches'' then Some (H_consensus_block_batches, [c]) else None)"
| "endpoint _ = None"

definition patterns :: "string list" where
  "patterns = map fst ROUTES"

lemma length_ROUTES [simp]: "length ROUTES = 24"
  by (simp add: ROUTES_def)

definition pattern_segments :: "string list list" where
  "pattern_segments =
     [[[], ''health''], [[], ''stats''], [[], ''txs''], [[], ''txs'', ''{hash}''], [[], ''txs'', ''{hash}'', ''transfers''],
      [[], ''blocks''], [[], ''blocks'', ''{number}''], [[], ''address'', ''{addr}''], [[], ''address'', ''{addr}'', ''txs''],
      [[], ''address'', ''{addr}'', ''transfers''], [[], ''tokens'', ''{addr}''], [[], ''tokens'', ''{addr}'', ''transfers''],
      [[], ''epochs''], [[], ''epochs'', ''current''], [[], ''epochs'', ''{n}''], [[], ''validators''], [[], ''validators'', ''leaders''],
      [[], ''consensus'', ''latest''], [[], ''consensus'', ''blocks''], [[], ''consensus'', ''blocks'', ''{number}''],
      [[], ''consensus'', ''blocks'', ''{number}'', ''batches''], [[], ''consensus'', ''epochs''],
      [[], ''consensus'', ''epochs'', ''{n}''], [[], ''call'']]"

lemma pattern_segments: "map segments patterns = pattern_segments"
  by (simp add: patterns_def ROUTES_def segments_def pattern_segments_def)

lemma all_less_24:
  "(\<forall>i < (24 :: nat). P i) \<longleftrightarrow> list_all P [0, 1, 2, 3, 4, 5, 6, 7, 8, 9, 10, 11, 12, 13, 14, 15, 16, 17, 18, 19, 20, 21, 22, 23]"
proof -
  have "(\<forall>i < (24 :: nat). P i) \<longleftrightarrow> list_all P [0..<24]" by (auto simp: list_all_iff)
  then show ?thesis by (simp add: upt_rec [of 0] upt_rec [of "Suc 0"] flip: numeral_2_eq_2)
qed

text \<open>A route whose pattern fits is the endpoint of the path, but for \<open>{n}\<close> beside \<open>current\<close>.\<close>

lemma route_endpoint:
  "\<forall>i < 24. fits (pattern_segments ! i) segs \<longrightarrow>
     endpoint segs = Some (snd (snd (ROUTES ! i)), captures (pattern_segments ! i) segs) \<or> i = 14 \<and> segs = [[], ''epochs'', ''current'']"
  unfolding all_less_24
  by (auto simp: pattern_segments_def ROUTES_def fits_def captures_def is_capture_def list_all2_Cons1 split: if_splits)

lemma endpoint_fits: "endpoint segs = Some h \<Longrightarrow> list_ex (\<lambda>p. fits p segs) pattern_segments"
  by (induction segs rule: endpoint.induct)
    (auto simp: pattern_segments_def fits_def is_capture_def split: if_splits)

lemma current_epoch_first:
  "fits (pattern_segments ! 13) [[], ''epochs'', ''current'']" "capture_rank (pattern_segments ! 13) < capture_rank (pattern_segments ! 14)"
  by (simp_all add: pattern_segments_def fits_def is_capture_def capture_rank_def)

lemma matched_endpoint:
  assumes "documented_match m patterns"
  shows "case m patterns path of
      None \<Rightarrow> endpoint (segments path) = None
    | Some (i, captured) \<Rightarrow> i < 24 \<and> endpoint (segments path) = Some (snd (snd (ROUTES ! i)), captured)"
proof -
  have len: "length patterns = 24" by (simp add: patterns_def)
  have nth: "segments (patterns ! i) = pattern_segments ! i" if "i < 24" for i
    using that len pattern_segments by (metis nth_map)
  have fits_all: "(\<forall>p \<in> set patterns. P (segments p)) \<longleftrightarrow> list_all P pattern_segments" for P
    unfolding pattern_segments [symmetric] by (simp add: list_all_iff)
  show ?thesis
  proof (cases "m patterns path")
    case None
    with assms [unfolded documented_match_def, rule_format, of path] have "list_all (\<lambda>p. \<not> fits p (segments path)) pattern_segments"
      unfolding fits_all [symmetric] by simp
    then have "\<not> list_ex (\<lambda>p. fits p (segments path)) pattern_segments" by (simp add: list_ex_iff list_all_iff)
    with None endpoint_fits [of "segments path"] show ?thesis by (cases "endpoint (segments path)") auto
  next
    case (Some r)
    then obtain i captured where r: "m patterns path = Some (i, captured)" by (cases r) auto
    from assms [unfolded documented_match_def, rule_format, of path] r
    have i: "i < 24" "fits (pattern_segments ! i) (segments path)" "captured = captures (pattern_segments ! i) (segments path)"
      and best: "\<forall>p \<in> set patterns. fits (segments p) (segments path) \<longrightarrow> capture_rank (pattern_segments ! i) \<le> capture_rank (segments p)"
      by (auto simp: len nth)
    from best nth [of 13] len have "\<not> (i = 14 \<and> segments path = [[], ''epochs'', ''current''])"
      using current_epoch_first by (metis (no_types, lifting) leD nth_mem numeral_less_iff semiring_norm(76,77,78,80,81))
    with route_endpoint [rule_format, OF i(1), of "segments path"] i r show ?thesis by auto
  qed
qed

lemma routed:
  assumes "documented_match (hf_match fns) patterns"
  shows "router fns rq now later st =
    (case endpoint (segments (rq_path rq)) of
       None \<Rightarrow> ((404, Error_Body ''not found''), st)
     | Some (h, captured) \<Rightarrow>
         if hf_allows fns (if h = H_call then POST else GET) (rq_method rq) then run_handler fns h captured rq now later st
         else ((hf_not_allowed fns, No_Body), st))"
proof -
  have "\<forall>i < 24. fst (snd (ROUTES ! i)) = (if snd (snd (ROUTES ! i)) = H_call then POST else GET)"
    unfolding all_less_24 by (simp add: ROUTES_def)
  then show ?thesis
    using matched_endpoint [OF assms, of "rq_path rq"]
    by (auto simp: router_def error_response_def into_response_def simp flip: patterns_def split: option.splits prod.splits)
qed

text \<open>C20: every path reaches its own handler, whatever the order of the table: with a matcher that behaves as
  documented, a request is answered by the endpoint its segments name, with the captured segment as its
  parameter (\<open>/epochs/current\<close> is never taken for a number), if the method is the endpoint's; by 404
  when they name none; and by the framework when the method is another.\<close>

theorem router_endpoints:
  assumes "documented_match (hf_match fns) patterns"
  shows "router fns rq now later st =
    (case endpoint (segments (rq_path rq)) of
       None \<Rightarrow> ((404, Error_Body ''not found''), st)
     | Some (h, captured) \<Rightarrow>
         if hf_allows fns (if h = H_call then POST else GET) (rq_method rq) then run_handler fns h captured rq now later st
         else ((hf_not_allowed fns, No_Body), st))"
  by (rule routed [OF assms])

definition sample_http :: http_fns where
  "sample_http = \<lparr>hf_match = best_match, hf_allows = (\<lambda>m r. m = r \<or> m = GET \<and> r = HEAD), hf_not_allowed = 405,
     hf_path = (\<lambda>captured. case captured of [s] \<Rightarrow> Inr s | _ \<Rightarrow> Inl (500, ''wrong number of path arguments'')),
     hf_page_query = (\<lambda>_. Inr \<lparr>pq_page = None, pq_per_page = None\<rparr>),
     hf_txs_query = (\<lambda>_. Inr \<lparr>tq_page = None, tq_per_page = None, tq_tx_type = None\<rparr>),
     hf_leaders_query = (\<lambda>_. Inr \<lparr>lq_window = None\<rparr>),
     hf_call_request = (\<lambda>_ _. Inl (415, ''Expected request with `Content-Type: application/json`'')),
     hf_header_value = (\<lambda>s. if list_all (\<lambda>c. 32 \<le> (of_char c :: nat) \<and> (of_char c :: nat) < 127) s then Some s else None),
     hf_origin_list = (\<lambda>l. if ''*'' \<in> set l then None else Some (Origins l)),
     hf_bind = (\<lambda>_. Inr ())\<rparr>"

definition sample_request :: "string \<Rightarrow> http_request" where
  "sample_request path = \<lparr>rq_method = GET, rq_path = path, rq_query = None, rq_headers = [], rq_body = []\<rparr>"

lemma router_endpoints_witness:
  "\<forall>st. router sample_http (sample_request ''/blocks/x'') 0 0 st = ((400, Error_Body ''invalid block number: x''), st) \<and>
     router sample_http (sample_request ''/epochs/current'') 0 0 st =
       run_handler sample_http H_epoch_current [] (sample_request ''/epochs/current'') 0 0 st \<and>
     router sample_http (sample_request ''/block'') 0 0 st = ((404, Error_Body ''not found''), st)"
proof -
  have m: "documented_match (hf_match sample_http) patterns" by (simp add: sample_http_def best_match_documented)
  show ?thesis
    unfolding router_endpoints [OF m]
    by (simp add: sample_http_def sample_request_def segments_def run_handler_def extracting_def respond_def is_ascii_digit_def
        error_response_def into_response_def block_by_number_handler_def parse_number_def parse_u64_def parse_uint_def ok_or_def Let_def)
qed

section \<open>The error contract\<close>

text \<open>The framework rejects a request with a client error, once a route captured the one segment it names.\<close>

definition rejecting :: "rejection + 'a \<Rightarrow> bool" where
  "rejecting r \<longleftrightarrow> (\<forall>status message. r = Inl (status, message) \<longrightarrow> 400 \<le> status \<and> status < 500)"

definition rejects_clients :: "http_fns \<Rightarrow> bool" where
  "rejects_clients fns \<longleftrightarrow>
     (\<forall>s. rejecting (hf_path fns [s])) \<and>
     (\<forall>q. rejecting (hf_page_query fns q) \<and> rejecting (hf_txs_query fns q) \<and> rejecting (hf_leaders_query fns q)) \<and>
     (\<forall>headers bs. rejecting (hf_call_request fns headers bs))"

definition contract :: "response \<Rightarrow> bool" where
  "contract r \<longleftrightarrow>
     (case snd r of
        Error_Body message \<Rightarrow>
          fst r = 400 \<or> fst r = 404 \<and> message = ''not found'' \<or> fst r = 500 \<and> message = ''internal error''
      | Rejection_Body _ \<Rightarrow> 400 \<le> fst r \<and> fst r < 500
      | No_Body \<Rightarrow> False
      | _ \<Rightarrow> fst r = 200)"

lemma contract_respond: "(\<And>x. contract (200, f x)) \<Longrightarrow> contract (respond f r)"
  by (auto simp: respond_def contract_def error_response_def into_response_def split: sum.splits api_error.splits)

lemma contract_extracting: "rejecting r \<Longrightarrow> (\<And>x. contract (k x)) \<Longrightarrow> contract (extracting r k)"
  by (auto simp: extracting_def contract_def rejecting_def split: sum.splits)

lemma contract_ok: "(\<And>m. b \<noteq> Error_Body m) \<Longrightarrow> (\<And>m. b \<noteq> Rejection_Body m) \<Longrightarrow> b \<noteq> No_Body \<Longrightarrow> contract (200, b)"
  by (cases b) (auto simp: contract_def)

definition with_segment :: "handler set" where
  "with_segment = {H_tx_by_hash, H_tx_transfers, H_block_by_number, H_address_summary, H_address_txs, H_address_transfers, H_token_info,
     H_token_transfers, H_epoch_by_number, H_consensus_block, H_consensus_block_batches, H_consensus_epoch}"

lemma endpoint_captures: "endpoint segs = Some (h, captured) \<Longrightarrow> h \<in> with_segment \<Longrightarrow> \<exists>s. captured = [s]"
  by (induction segs rule: endpoint.induct) (auto simp: with_segment_def split: if_splits)

lemma endpoint_stats: "endpoint segs = Some (H_stats, captured) \<Longrightarrow> segs = [[], ''stats'']"
  by (induction segs rule: endpoint.induct) (auto split: if_splits)

lemma contract_run_handler:
  assumes "rejects_clients fns" and "h \<in> with_segment \<Longrightarrow> \<exists>s. captured = [s]"
  shows "contract (fst (run_handler fns h captured rq now later st))"
proof -
  note rejects = assms(1) [unfolded rejects_clients_def]
  then have queries: "rejecting (hf_page_query fns q)" "rejecting (hf_txs_query fns q)" "rejecting (hf_leaders_query fns q)"
    "rejecting (hf_call_request fns headers bs)" for q headers bs by simp_all
  have path: "rejecting (hf_path fns captured)" if "h \<in> with_segment"
    using assms(2) [OF that] rejects by auto
  show ?thesis
    by (cases h)
      (auto simp: run_handler_def Let_def with_segment_def intro!: contract_extracting contract_respond contract_ok queries path split: prod.split)
qed

lemma run_handler_state:
  assumes "run_handler fns h captured rq now later st = (r, st')"
  shows "st' = st\<lparr>as_stats_cache := as_stats_cache st'\<rparr> \<and>
     (as_stats_cache st' \<noteq> as_stats_cache st \<longrightarrow> h = H_stats \<and> (\<exists>s. r = (200, Stats_Body s) \<and> as_stats_cache st' = Some (later, s)))"
proof -
  have same: "st = st\<lparr>as_stats_cache := as_stats_cache st\<rparr>" by simp
  show ?thesis
    using assms same
    by (cases h) (auto simp: run_handler_def Let_def stats_def respond_def split: option.splits sum.splits if_splits)
qed

text \<open>C21: the error contract of the whole interface: whatever the request, the answer is 200 with the body of its
  endpoint, 404 \<open>not found\<close>, 400 with a message, 500 that says \<open>internal error\<close> and nothing of the cause, a
  4xx of the framework, or its refusal of the method; and nothing but the cache of \<open>/stats\<close> ever changes,
  that one only by an answer 200 of \<open>/stats\<close>, which it stores.\<close>

theorem response_contract:
  assumes "documented_match (hf_match fns) patterns" and "rejects_clients fns"
    and "router fns rq now later st = (r, st')"
  shows "(contract r \<or> r = (hf_not_allowed fns, No_Body)) \<and>
    st' = st\<lparr>as_stats_cache := as_stats_cache st'\<rparr> \<and>
    (as_stats_cache st' \<noteq> as_stats_cache st \<longrightarrow>
       segments (rq_path rq) = [[], ''stats''] \<and> (\<exists>s. r = (200, Stats_Body s) \<and> as_stats_cache st' = Some (later, s)))"
proof (cases "endpoint (segments (rq_path rq))")
  case None
  with routed [OF assms(1)] assms(3) show ?thesis by (auto simp: contract_def)
next
  case (Some e)
  then obtain h captured where e: "endpoint (segments (rq_path rq)) = Some (h, captured)" by (cases e) auto
  show ?thesis
  proof (cases "hf_allows fns (if h = H_call then POST else GET) (rq_method rq)")
    case True
    with routed [OF assms(1)] assms(3) e have run: "run_handler fns h captured rq now later st = (r, st')" by simp
    with contract_run_handler [OF assms(2) endpoint_captures [OF e]] have "contract r" by (metis fst_conv)
    with run_handler_state [OF run] e endpoint_stats show ?thesis by auto
  next
    case False
    with routed [OF assms(1)] assms(3) e show ?thesis by auto
  qed
qed

lemma sample_http_laws: "documented_match (hf_match sample_http) patterns" "rejects_clients sample_http"
  by (simp_all add: sample_http_def best_match_documented rejects_clients_def rejecting_def)

lemma response_contract_witness:
  "\<forall>st. \<exists>r. router sample_http (sample_request ''/blocks/x'') 0 0 st = (r, st) \<and> contract r"
proof
  fix st
  have m: "router sample_http (sample_request ''/blocks/x'') 0 0 st = ((400, Error_Body ''invalid block number: x''), st)"
    unfolding routed [OF sample_http_laws(1)]
    by (simp add: sample_http_def sample_request_def segments_def run_handler_def extracting_def respond_def is_ascii_digit_def
        error_response_def into_response_def block_by_number_handler_def parse_number_def parse_u64_def parse_uint_def ok_or_def Let_def)
  with response_contract [OF sample_http_laws m] have "contract (400, Error_Body ''invalid block number: x'')"
    by (simp add: sample_http_def)
  with m show "\<exists>r. router sample_http (sample_request ''/blocks/x'') 0 0 st = (r, st) \<and> contract r" by blast
qed

section \<open>What the routes depend on\<close>

definition swap_consensus :: "consensus_chain \<Rightarrow> api_state \<Rightarrow> api_state" where
  "swap_consensus chain st = st\<lparr>as_reader := (as_reader st)\<lparr>nr_consensus := chain\<rparr>\<rparr>"

definition swap_pool :: "conn \<Rightarrow> api_state \<Rightarrow> api_state" where
  "swap_pool c st = st\<lparr>as_pool := c\<rparr>"

text \<open>The routes of the execution chain, and those that never read the index.\<close>

definition execution_routes :: "handler set" where
  "execution_routes =
     {H_health, H_txs_list, H_tx_by_hash, H_tx_transfers, H_blocks_list, H_address_summary, H_address_txs, H_address_transfers,
      H_token_info, H_token_transfers, H_validators, H_leaders, H_call}"

definition direct_routes :: "handler set" where
  "direct_routes =
     {H_health, H_stats, H_blocks_list, H_block_by_number, H_epochs_list, H_epoch_current, H_epoch_by_number, H_validators, H_leaders,
      H_consensus_latest, H_consensus_epochs_list, H_consensus_epoch, H_call}"

definition without_number :: "body \<Rightarrow> body" where
  "without_number b =
     (case b of
        Block_Body item \<Rightarrow> Block_Body (item\<lparr>wbl_consensus := map_option (\<lambda>c. c\<lparr>wbc_consensus_number := None\<rparr>) (wbl_consensus item)\<rparr>)
      | _ \<Rightarrow> b)"

lemma swap_consensus_fields [simp]:
  "as_fns (swap_consensus chain st) = as_fns st" "as_pool (swap_consensus chain st) = as_pool st"
  "as_status (swap_consensus chain st) = as_status st" "as_stats_cache (swap_consensus chain st) = as_stats_cache st"
  "nr_reth (as_reader (swap_consensus chain st)) = nr_reth (as_reader st)" "nr_abi (as_reader (swap_consensus chain st)) = nr_abi (as_reader st)"
  by (simp_all add: swap_consensus_def)

lemma with_conn_swap_consensus: "with_conn f (swap_consensus chain st) = with_conn f st"
  by (simp add: with_conn_def)

lemma node_read_swap_consensus: "node_read f (as_reader (swap_consensus chain st)) = node_read f (as_reader st)"
  by (simp add: node_read_def)

text \<open>The readers of the execution handle do not see the consensus database.\<close>

lemma reading_swap_consensus:
  "reading (latest_txs_page page per_page) (swap_consensus chain st) = reading (latest_txs_page page per_page) st"
  "reading (hydrate_pointers pointers) (swap_consensus chain st) = reading (hydrate_pointers pointers) st"
  "reading (tx_by_hash hash) (swap_consensus chain st) = reading (tx_by_hash hash) st"
  "reading (blocks_page page per_page) (swap_consensus chain st) = reading (blocks_page page per_page) st"
  "reading (block_by_number number) (swap_consensus chain st) = reading (block_by_number number) st"
  "reading (account_summary address) (swap_consensus chain st) = reading (account_summary address) st"
  "reading (token_supply address) (swap_consensus chain st) = reading (token_supply address) st"
  "reading (token_metadata_and_supply address) (swap_consensus chain st) = reading (token_metadata_and_supply address) st"
  "reading current_committee_validators (swap_consensus chain st) = reading current_committee_validators st"
  "reading (leader_counts window) (swap_consensus chain st) = reading (leader_counts window) st"
  "reading (read_call address data) (swap_consensus chain st) = reading (read_call address data) st"
  by (simp_all add: reading_def node_read_swap_consensus latest_txs_page_def hydrate_pointers_def tx_by_hash_def blocks_page_def block_by_number_def
      account_summary_def token_supply_def token_metadata_and_supply_def current_committee_validators_def leader_counts_def read_call_def)

lemma execution_route_swap_consensus:
  "h \<in> execution_routes \<Longrightarrow> fst (run_handler fns h captured rq now later (swap_consensus chain st)) = fst (run_handler fns h captured rq now later st)"
  unfolding execution_routes_def
  by (elim insertE emptyE; clarify;
      simp add: run_handler_def Let_def reading_swap_consensus with_conn_swap_consensus health_def txs_list_def hydrate_tx_page_def
        tx_by_hash_handler_def tx_transfers_handler_def tx_transfer_page_def blocks_list_def address_summary_def address_txs_def
        address_transfers_def hydrate_transfers_def token_info_def token_transfers_def validators_def leaders_def call_def
        cong del: option.case_cong_weak call_outcome.case_cong_weak if_weak_cong)

lemma block_route_swap_consensus:
  assumes "h = H_block_by_number"
  shows "(let (status, b) = fst (run_handler fns h captured rq now later (swap_consensus chain st));
       (status', b') = fst (run_handler fns h captured rq now later st)
   in status = status' \<and> without_number b = without_number b')"
proof -
  have same: "rel_sum (=) (\<lambda>x y. without_number (Block_Body x) = without_number (Block_Body y))
      (block_by_number_handler raw (swap_consensus chain st)) (block_by_number_handler raw st)" for raw
  proof (cases "parse_number raw ''block number''")
    case (Inr n)
    then show ?thesis
      by (cases "reading (block_by_number n) st")
        (auto simp: block_by_number_handler_def reading_swap_consensus Let_def without_number_def split: option.splits sum.splits)
  qed (simp add: block_by_number_handler_def)
  show ?thesis
  proof (cases "hf_path fns captured")
    case (Inr raw)
    with same [of raw] show ?thesis
      by (cases "block_by_number_handler raw (swap_consensus chain st)"; cases "block_by_number_handler raw st")
        (auto simp: assms run_handler_def Let_def extracting_def respond_def split: prod.split)
  qed (auto simp: assms run_handler_def Let_def extracting_def split: prod.split)
qed

lemma direct_route_swap_pool:
  "h \<in> direct_routes \<Longrightarrow> fst (run_handler fns h captured rq now later (swap_pool c st)) = fst (run_handler fns h captured rq now later st)"
  unfolding direct_routes_def
  by (elim insertE emptyE; clarify;
      simp add: run_handler_def Let_def swap_pool_def reading_def health_def stats_def blocks_list_def block_by_number_handler_def epochs_list_def
        epoch_current_def epoch_by_number_def validators_def leaders_def consensus_latest_def consensus_epochs_list_def consensus_epoch_def call_def
        split: option.split sum.split prod.split
        cong del: option.case_cong_weak call_outcome.case_cong_weak if_weak_cong)

text \<open>C22: no route depends on a database it does not document: the answers of the execution routes are the same
  whatever the consensus database answers or fails with, and \<open>/blocks/{number}\<close> keeps its status and its body
  but for the consensus number; the routes that read the node directly answer the same whatever the state of
  the SQLite file.\<close>

theorem routes_isolated:
  "(h \<in> execution_routes \<longrightarrow> fst (run_handler fns h captured rq now later (swap_consensus chain st)) = fst (run_handler fns h captured rq now later st)) \<and>
   (h = H_block_by_number \<longrightarrow>
      (let (status, b) = fst (run_handler fns h captured rq now later (swap_consensus chain st));
           (status', b') = fst (run_handler fns h captured rq now later st)
       in status = status' \<and> without_number b = without_number b')) \<and>
   (h \<in> direct_routes \<longrightarrow> fst (run_handler fns h captured rq now later (swap_pool c st)) = fst (run_handler fns h captured rq now later st))"
  by (intro conjI impI) (fact execution_route_swap_consensus block_route_swap_consensus direct_route_swap_pool)+

lemma routes_isolated_witness:
  "\<forall>chain c. fst (run_handler sample_http H_leaders [] (sample_request ''/validators/leaders'') 0 0 (swap_consensus chain (sample_api c))) =
     fst (run_handler sample_http H_leaders [] (sample_request ''/validators/leaders'') 0 0 (sample_api c))"
  using routes_isolated [of H_leaders] by (simp add: execution_routes_def)

section \<open>Starting the server\<close>

text \<open>
  The documented behaviour of the CORS library: an origin list that holds the wildcard panics, and a checked
  header value is the text it was made from.
\<close>

definition documented_cors :: "http_fns \<Rightarrow> bool" where
  "documented_cors fns \<longleftrightarrow>
     (\<forall>l. hf_origin_list fns l = (if ''*'' \<in> set l then None else Some (Origins l))) \<and>
     (\<forall>s v. hf_header_value fns s = Some v \<longrightarrow> v = s)"

text \<open>C31: how the API task starts: with no origin configured it allows any, else exactly the configured ones; the
  methods it allows include that of every route and the header that \<open>POST /call\<close> needs. It does not start, and
  nothing is bound, on an origin that is no header value; an address that cannot be bound ends it with that
  error; and the wildcard \<open>*\<close> among the origins makes it panic.\<close>

theorem serve_starts:
  assumes "documented_cors fns"
  shows "case serve_start fns addr origins of
      Panicked \<Rightarrow> ''*'' \<in> set origins \<and> (\<forall>origin \<in> set origins. hf_header_value fns origin \<noteq> None)
    | Returned (Inl e) \<Rightarrow>
        (\<exists>origin \<in> set origins. hf_header_value fns origin = None \<and> e = InvalidCorsOrigin origin) \<or>
        (''*'' \<notin> set origins \<and> hf_bind fns addr = Inl e)
    | Returned (Inr layer) \<Rightarrow>
        hf_bind fns addr = Inr () \<and> ''*'' \<notin> set origins \<and>
        cl_allow_origin layer = (if origins = [] then Any_Origin else Origins origins) \<and>
        (\<forall>(_, method, _) \<in> set ROUTES. method \<in> set (cl_allow_methods layer)) \<and> ''content-type'' \<in> set (cl_allow_headers layer)"
proof -
  have vs: "vs = origins" if "try_map (\<lambda>origin. ok_or (InvalidCorsOrigin origin) (hf_header_value fns origin)) origins = Inr vs" for vs
    using that assms by (auto simp: try_map_Inr_iff documented_cors_def list_all2_conv_all_nth intro!: nth_equalityI [of vs])
  have valid: "\<forall>origin \<in> set origins. hf_header_value fns origin \<noteq> None"
    if "try_map (\<lambda>origin. ok_or (InvalidCorsOrigin origin) (hf_header_value fns origin)) origins = Inr vs" for vs
    using that by (auto simp: try_map_Inr_iff list_all2_conv_all_nth in_set_conv_nth)
  have methods: "\<forall>(_, method, _) \<in> set ROUTES. method \<in> {GET, POST}"
    by (simp add: ROUTES_def)
  have origin_list: "hf_origin_list fns l = (if ''*'' \<in> set l then None else Some (Origins l))" for l
    using assms by (simp add: documented_cors_def)
  show ?thesis
  proof (cases "origins = []")
    case True
    with methods show ?thesis by (cases "hf_bind fns addr") (auto simp: serve_start_def build_cors_def)
  next
    case False
    show ?thesis
    proof (cases "try_map (\<lambda>origin. ok_or (InvalidCorsOrigin origin) (hf_header_value fns origin)) origins")
      case (Inl e)
      with False try_map_Inl [OF Inl] show ?thesis by (auto simp: serve_start_def build_cors_def)
    next
      case (Inr vs)
      with False vs [OF Inr] valid [OF Inr] methods show ?thesis
        by (cases "hf_bind fns addr") (auto simp: serve_start_def build_cors_def origin_list)
    qed
  qed
qed

lemma serve_starts_witness:
  "serve_start sample_http ''127.0.0.1:8560'' [''*''] = Panicked \<and>
   (\<exists>layer. serve_start sample_http ''127.0.0.1:8560'' [''http://localhost:8080''] = Returned (Inr layer) \<and>
     cl_allow_origin layer = Origins [''http://localhost:8080''])"
proof -
  have "documented_cors sample_http" by (simp add: documented_cors_def sample_http_def)
  from serve_starts [OF this, where addr = "''127.0.0.1:8560''" and origins = "[''http://localhost:8080'']"] show ?thesis
    by (simp add: serve_start_def build_cors_def sample_http_def ok_or_def)
qed

section \<open>A request from end to end\<close>

lemma split_on_append: "c \<notin> set s \<Longrightarrow> split_on c (s @ c # rest) = s # split_on c rest"
  by (induction s) auto

lemma segments_address_txs:
  assumes "CHR ''/'' \<notin> set seg"
  shows "segments (''/address/'' @ seg @ ''/txs'') = [[], ''address'', seg, ''txs'']"
  using split_on_append [OF assms, of "''txs''"] by (simp add: segments_def)

text \<open>C12: the transaction list of an address works from the request to the node: \<open>GET /address/{addr}/txs\<close> for any page whose
  offset fits SQLite's integers is answered, over an index built from the chain and against a node that still
  replays the indexed blocks, with 200 and the transactions at that window of the address's feed, in the feed's
  order, each one in which the address takes part, and the length of the feed as the total.\<close>

theorem address_txs_served:
  assumes "documented_match (hf_match fns) patterns" and "hf_allows fns GET GET"
    and "rq_method rq = GET" and "rq_path rq = ''/address/'' @ seg @ ''/txs''" and "seg \<noteq> []" and "CHR ''/'' \<notin> set seg"
    and "hf_path fns [seg] = Inr raw" and "hf_txs_query fns (rq_query rq) = Inr q"
    and "address_from_str (as_fns st) raw = Some a" and "tq_tx_type q = None"
    and "indexed_chain chain blocks (as_pool st)" and "ready (as_pool st)" and "holds_blocks (as_reader st) blocks"
    and "page_params (paging q) = (p, n, offset)" and "fits_i64 offset"
  shows "\<exists>rows. router fns rq now later st =
      ((200, Tx_Page \<lparr>en_items = map (\<lambda>data. build_api_transaction data input_mode.List) rows,
          en_total = of_nat (length (address_feed (addr_hex a) (cn_committed (as_pool st)))), en_page = p, en_per_page = n\<rparr>), st) \<and>
    list_all2 (hydrated_from chain blocks a)
      (take (unat n) (drop (unat p * unat n) (address_feed (addr_hex a) (cn_committed (as_pool st))))) rows"
proof -
  have "endpoint (segments (rq_path rq)) = Some (H_address_txs, [seg])"
    unfolding assms(4) segments_address_txs [OF assms(6)] using assms(5) by simp
  with assms(2,3,7,8) have "router fns rq now later st = (respond Tx_Page (address_txs raw q st), st)"
    unfolding routed [OF assms(1)] by (simp add: run_handler_def extracting_def)
  with address_txs_handler [OF assms(11-13,9,10,14,15)] show ?thesis by (auto simp: respond_def)
qed

lemma address_txs_served_witness:
  "\<exists>c items tot. router sample_http (sample_request ''/address/five/txs'') 0 0 (sample_api c) =
     ((200, Tx_Page \<lparr>en_items = items, en_total = tot, en_page = 0, en_per_page = 25\<rparr>), sample_api c)"
proof -
  from sample_indexed obtain c where c: "indexed_chain sample_fns [(sample_block 1, sample_receipts)] c" "ready c" by blast
  let ?q = "\<lparr>tq_page = None, tq_per_page = None, tq_tx_type = None\<rparr>"
  have st: "as_pool (sample_api c) = c" "as_reader (sample_api c) = sample_lookup" "address_from_str (as_fns (sample_api c)) ''five'' = Some 5"
    by (simp_all add: sample_api_def sample_api_fns_def)
  from address_txs_served [of sample_http "sample_request ''/address/five/txs''" "''five''" "''five''" ?q "sample_api c" 5
      sample_fns "[(sample_block 1, sample_receipts)]" 0 25 0 0 0] c sample_lookup_holds sample_page st sample_http_laws(1)
  show ?thesis by (auto simp: fits_i64_def sample_http_def sample_request_def)
qed

end
