(* ===== verification/Host.thy ===== *)
theory Host
  imports Http_Properties Exex_Properties
begin

text \<open>
  The binary around the parts: \<open>main\<close> of \<open>src/main.rs\<close>, and the life of the task it installs, \<open>indexer_exex\<close> of
  \<open>src/exex.rs\<close> together with the API task it spawns between loading the cursor and catching up. The node's
  command line, builder and launcher are the parameters of \<open>node_cli\<close>.
\<close>

section \<open>The command line\<close>

text \<open>A path is the list of its components; \<open>join\<close> with a relative component appends it.\<close>

type_synonym path = "string list"

record indexer_args =
  ia_db_path :: "path option"
  ia_api_addr :: string
  ia_cors_origins :: "string list"

text \<open>
  \<open>nc_parse\<close> ends the process itself when the arguments do not parse, with its own code and text. \<open>nc_run\<close> runs
  the closure on the builder, the extension's arguments, the data directory, the keys and the version it prepares.
\<close>

record ('cli, 'pass, 'secret, 'builder, 'key, 'version) node_cli =
  nc_passphrase_from_env :: "'pass option"
  nc_parse :: "(nat \<times> string) + 'cli"
  nc_resolve_passphrase :: "'cli \<Rightarrow> 'pass option \<Rightarrow> string + 'secret"
  nc_run :: "'cli \<Rightarrow> 'secret \<Rightarrow> ('builder \<Rightarrow> indexer_args \<Rightarrow> path \<Rightarrow> 'key \<Rightarrow> 'version \<Rightarrow> string + unit) \<Rightarrow> string + unit"
  nc_install_exex :: "string \<Rightarrow> indexer_args \<times> path \<Rightarrow> 'builder \<Rightarrow> 'builder"
  nc_launch_node :: "'builder \<Rightarrow> path \<Rightarrow> 'key \<Rightarrow> 'version \<Rightarrow> string + unit"

definition db_path_of :: "indexer_args \<Rightarrow> path \<Rightarrow> path" where
  "db_path_of args datadir = unwrap_or (ia_db_path args) (datadir @ [''explorer-indexer''] @ [''explorer.sqlite''])"

definition launch ::
  "('cli, 'pass, 'secret, 'builder, 'key, 'version) node_cli \<Rightarrow> 'builder \<Rightarrow> indexer_args \<Rightarrow> path \<Rightarrow> 'key \<Rightarrow> 'version \<Rightarrow> string + unit" where
  "launch cli builder args tn_datadir key_config version =
     nc_launch_node cli (nc_install_exex cli ''explorer-indexer'' (args, db_path_of args tn_datadir) builder) tn_datadir key_config version"

text \<open>The exit code and the lines on standard error.\<close>

definition main :: "('cli, 'pass, 'secret, 'builder, 'key, 'version) node_cli \<Rightarrow> nat \<times> string list" where
  "main cli =
     (let preloaded = nc_passphrase_from_env cli
      in case nc_parse cli of
           Inl (code, message) \<Rightarrow> (code, [message])
         | Inr parsed \<Rightarrow>
             (case nc_resolve_passphrase cli parsed preloaded of
                Inl err \<Rightarrow> (1, [err])
              | Inr passphrase \<Rightarrow>
                  (case nc_run cli parsed passphrase (launch cli) of
                     Inl err \<Rightarrow> (1, [''Error: '' @ err])
                   | Inr _ \<Rightarrow> (0, []))))"

section \<open>The installed task and its API\<close>

datatype api_task = Not_Spawned | Api_Panicked | Api_Failed report | Listening cors_layer | Api_Stopped

record host =
  ho_world :: world
  ho_api :: api_task

type_synonym 'a host_step = "(host, 'a) act"

definition on_world :: "'a step \<Rightarrow> 'a host_step" where
  "on_world m h = (case m (ho_world h) of (r, w) \<Rightarrow> (r, h\<lparr>ho_world := w\<rparr>))"

text \<open>Opening the writer and the read pool and loading the cursor; and the loop under the liveness guard, without an API.\<close>

definition exex_start :: "u64 \<Rightarrow> report + unit \<Rightarrow> unit step" where
  "exex_start chain_id read_pool =
     andthen (on_writer (writer_open chain_id)) (\<lambda>_.
     andthen (from_result read_pool) (\<lambda>_.
     andthen (\<lambda>w. (Inr (), w\<lparr>wo_status := default_status\<rparr>)) (\<lambda>_.
     andthen (on_writer last_indexed) (\<lambda>cursor.
       case cursor of Some c \<Rightarrow> on_status (set_last_indexed c) | None \<Rightarrow> ret ()))))"

definition exex_loop :: "node_view \<Rightarrow> (node_view \<times> notification) list \<Rightarrow> unit step" where
  "exex_loop nv events = with_live_guard (andthen (catch_up nv) (\<lambda>_. for_each on_notification events))"

text \<open>The spawned task logs an error of \<open>serve\<close> and ends; nobody looks at it before the shutdown.\<close>

definition spawn_api :: "http_fns \<Rightarrow> indexer_args \<Rightarrow> unit host_step" where
  "spawn_api fns args h =
     (Inr (), h\<lparr>ho_api :=
        case serve_start fns (ia_api_addr args) (ia_cors_origins args) of
          Panicked \<Rightarrow> Api_Panicked
        | Returned (Inl e) \<Rightarrow> Api_Failed e
        | Returned (Inr layer) \<Rightarrow> Listening layer\<rparr>)"

definition stop_api :: "unit host_step" where
  "stop_api h = (Inr (), h\<lparr>ho_api := (case ho_api h of Listening _ \<Rightarrow> Api_Stopped | ended \<Rightarrow> ended)\<rparr>)"

text \<open>The guard lives until the task returns: at shutdown it is dropped after the API has been stopped.\<close>

definition with_task_guard :: "'a host_step \<Rightarrow> 'a host_step" where
  "with_task_guard =
     live_guarded (\<lambda>h. h\<lparr>ho_world := (ho_world h)\<lparr>wo_status := set_live True (wo_status (ho_world h))\<rparr>\<rparr>)
       (\<lambda>h. h\<lparr>ho_world := (ho_world h)\<lparr>wo_status := set_live False (wo_status (ho_world h))\<rparr>\<rparr>)"

definition indexer_task ::
  "http_fns \<Rightarrow> indexer_args \<Rightarrow> u64 \<Rightarrow> report + unit \<Rightarrow> node_view \<Rightarrow> (node_view \<times> notification) list \<Rightarrow> unit host_step" where
  "indexer_task fns args chain_id read_pool nv events =
     andthen (on_world (exex_start chain_id read_pool)) (\<lambda>_.
     andthen (spawn_api fns args) (\<lambda>_.
       with_task_guard
         (andthen (on_world (andthen (catch_up nv) (\<lambda>_. for_each on_notification events))) (\<lambda>_. stop_api))))"

section \<open>The task is the loop\<close>

lemma andthen_assoc: "andthen (andthen m f) g = andthen m (\<lambda>x. andthen (f x) g)"
  by (rule ext) (auto simp: andthen_def split: sum.splits prod.splits)

lemma indexer_exex_split:
  "indexer_exex chain_id read_pool nv events = andthen (exex_start chain_id read_pool) (\<lambda>_. exex_loop nv events)"
  by (simp add: indexer_exex_def exex_start_def exex_loop_def andthen_assoc)

text \<open>Stopping the API neither fails nor reads the status, so the loop may as well end its guard first.\<close>

lemma task_guard:
  "with_task_guard (andthen (on_world m) (\<lambda>_. stop_api)) = andthen (on_world (with_live_guard m)) (\<lambda>_. stop_api)"
  by (rule ext)
    (simp add: with_task_guard_def with_live_guard_def live_guarded_def on_world_def andthen_def stop_api_def split: prod.split sum.split)

lemma indexer_task_eq:
  "indexer_task fns args chain_id read_pool nv events =
     andthen (on_world (exex_start chain_id read_pool)) (\<lambda>_.
     andthen (spawn_api fns args) (\<lambda>_.
     andthen (on_world (exex_loop nv events)) (\<lambda>_. stop_api)))"
  by (simp add: indexer_task_def task_guard exex_loop_def)

text \<open>Forgetting the API the task is \<open>indexer_exex\<close>, and how it ended tells what became of the API.\<close>

lemma indexer_task_outcome:
  assumes "indexer_task fns args chain_id read_pool nv events h = (r, h')"
  obtains w where "exex_start chain_id read_pool (ho_world h) = (r, w)" "h' = h\<lparr>ho_world := w\<rparr>" "r \<noteq> Inr ()"
      "indexer_exex chain_id read_pool nv events (ho_world h) = (r, w)"
  | w where "exex_start chain_id read_pool (ho_world h) = (Inr (), w)"
      "exex_loop nv events w = (r, ho_world h')" "indexer_exex chain_id read_pool nv events (ho_world h) = (r, ho_world h')"
      "ho_api h' = (let api = ho_api (snd (spawn_api fns args h))
         in case r of Inl _ \<Rightarrow> api | Inr _ \<Rightarrow> (case api of Listening _ \<Rightarrow> Api_Stopped | _ \<Rightarrow> api))"
proof (cases "exex_start chain_id read_pool (ho_world h)")
  case (Pair r1 w1)
  show ?thesis
  proof (cases r1)
    case (Inl e)
    with Pair assms have "r = Inl e" "h' = h\<lparr>ho_world := w1\<rparr>" by (auto simp: indexer_task_eq andthen_def on_world_def)
    with Inl Pair show ?thesis by (intro that(1)) (simp_all add: indexer_exex_split andthen_def)
  next
    case (Inr u)
    obtain r2 w2 where "exex_loop nv events w1 = (r2, w2)" by (cases "exex_loop nv events w1")
    with Inr Pair assms show ?thesis
      by (intro that(2) [of w1])
        (auto simp: indexer_task_eq indexer_exex_split andthen_def on_world_def spawn_api_def stop_api_def Let_def
          split: sum.splits api_task.splits)
  qed
qed

section \<open>What a client sees when the loop has ended\<close>

lemma health_routed:
  assumes "documented_match (hf_match fns) patterns" and "hf_allows fns GET GET"
  shows "router fns (sample_request ''/health'') now later st = ((200, Health_Body (health st)), st)"
  unfolding routed [OF assms(1)] using assms(2) by (simp add: sample_request_def segments_def run_handler_def Let_def)

text \<open>C13: the API outlives the loop and degrades honestly: when the loop ends with an error the task leaves the API
  as it was spawned, and if it listens, \<open>GET /health\<close> is answered with 200, \<open>degraded\<close>, not live, and a
  height at or below the committed cursor; an error before the spawn leaves no API; and when the node shuts
  down the task ends with no API listening.\<close>

theorem loop_death_degrades:
  assumes "indexer_task fns args chain_id read_pool nv events h = (r, h')"
    and "start_ok (ho_world h)" and "ho_api h = Not_Spawned"
    and "documented_match (hf_match fns) patterns" and "hf_allows fns GET GET"
  shows "case r of
      Inr _ \<Rightarrow> \<forall>layer. ho_api h' \<noteq> Listening layer
    | Inl _ \<Rightarrow>
        ho_api h' = (if fst (exex_start chain_id read_pool (ho_world h)) = Inr () then ho_api (snd (spawn_api fns args h)) else Not_Spawned) \<and>
        (\<forall>st now later. as_status st = wo_status (ho_world h') \<longrightarrow>
           (\<exists>b. router fns (sample_request ''/health'') now later st = ((200, Health_Body b), st) \<and>
              whe_status b = ''degraded'' \<and> \<not> whe_indexing_live b \<and>
              (whe_last_indexed b = 0 \<or> (\<exists>c. cursor_of (cn_committed (wo_conn (ho_world h'))) = Some c \<and> whe_last_indexed b \<le> c))))"
proof -
  from assms(1) have run: "indexer_exex chain_id read_pool nv events (ho_world h) = (r, ho_world h')"
    by (rule indexer_task_outcome) simp_all
  have api: "ho_api h' = (if fst (exex_start chain_id read_pool (ho_world h)) = Inr ()
      then (let api = ho_api (snd (spawn_api fns args h)) in case r of Inl _ \<Rightarrow> api | Inr _ \<Rightarrow> (case api of Listening _ \<Rightarrow> Api_Stopped | _ \<Rightarrow> api))
      else Not_Spawned)"
    using assms(1) by (rule indexer_task_outcome) (use assms(3) in auto)
  note honest = indexer_exex_honest [OF assms(2) run]
  show ?thesis
  proof (cases r)
    case (Inl e)
    have "\<exists>b. router fns (sample_request ''/health'') now later st = ((200, Health_Body b), st) \<and>
        whe_status b = ''degraded'' \<and> \<not> whe_indexing_live b \<and>
        (whe_last_indexed b = 0 \<or> (\<exists>c. cursor_of (cn_committed (wo_conn (ho_world h'))) = Some c \<and> whe_last_indexed b \<le> c))"
      if "as_status st = wo_status (ho_world h')" for st now later
      using honest that unfolding health_routed [OF assms(4,5)]
      by (auto simp: health_def Let_def live_def unwrap_or_def honest_def below_cursor_def split: option.splits)
    with Inl api show ?thesis by (simp add: Let_def)
  next
    case (Inr u)
    with api show ?thesis by (auto simp: Let_def split: api_task.splits if_splits)
  qed
qed

lemma sample_writer_open: "writer_open 2017 sample_conn = (Inr (), sample_conn)"
proof -
  have "parse_u64 ''2017'' = Some 2017"
    by (simp add: parse_u64_def parse_uint_def is_ascii_digit_def dec_value_def Let_def)
  then show ?thesis
    by (simp add: writer_open_def configure_def migrate_def table_exists_def query_def execute_def charge_def sample_conn_def sample_db_def
        empty_db_def andthen_def ret_def view_def set_view_def SCHEMA_TABLES_def read_meta_def prepare_def DDL_def create_table_def
        put_meta_if_absent_def put_meta_def check_chain_id_def SCHEMA_VERSION_def)
qed

lemma sample_exex_start: "exex_start 2017 (Inr ()) sample_world = (Inr (), sample_world)"
proof -
  have "last_indexed sample_conn = (Inr None, sample_conn)"
    by (simp add: last_indexed_def read_cursor_def read_meta_def prepare_def query_def andthen_def charge_def ret_def view_def sample_conn_def
        sample_db_def empty_db_def SCHEMA_TABLES_def)
  then show ?thesis
    by (simp add: exex_start_def on_writer_def andthen_def from_result_def ret_def sample_world_def sample_writer_open)
qed

text \<open>A node that fails when it is asked for its tip, at a server that listens.\<close>

lemma loop_death_degrades_witness:
  "\<exists>e h'. indexer_task sample_http \<lparr>ia_db_path = None, ia_api_addr = ''127.0.0.1:8560'', ia_cors_origins = []\<rparr> 2017 (Inr ())
      (sample_node\<lparr>nv_last_block_number := Inl (NodeError ''gone'')\<rparr>) [] \<lparr>ho_world = sample_world, ho_api = Not_Spawned\<rparr> = (Inl e, h') \<and>
    (\<exists>layer. ho_api h' = Listening layer) \<and>
    (\<exists>b. router sample_http (sample_request ''/health'') 0 0 ((sample_api sample_conn)\<lparr>as_status := wo_status (ho_world h')\<rparr>) =
       ((200, Health_Body b), (sample_api sample_conn)\<lparr>as_status := wo_status (ho_world h')\<rparr>) \<and> whe_status b = ''degraded'')"
proof -
  let ?args = "\<lparr>ia_db_path = None, ia_api_addr = ''127.0.0.1:8560'', ia_cors_origins = []\<rparr>"
  let ?node = "sample_node\<lparr>nv_last_block_number := Inl (NodeError ''gone'')\<rparr>"
  let ?h = "\<lparr>ho_world = sample_world, ho_api = Not_Spawned\<rparr>"
  obtain r h' where run: "indexer_task sample_http ?args 2017 (Inr ()) ?node [] ?h = (r, h')"
    by (cases "indexer_task sample_http ?args 2017 (Inr ()) ?node [] ?h")
  have "\<exists>e. r = Inl e"
    using run by (cases rule: indexer_task_outcome)
      (auto simp: sample_exex_start exex_loop_def with_live_guard_def live_guarded_def andthen_def catch_up_def from_result_def Let_def
        split: sum.splits prod.splits)
  then obtain e where e: "r = Inl e" ..
  have ok: "start_ok (ho_world ?h)" "ho_api ?h = Not_Spawned" "hf_allows sample_http GET GET"
    by (simp_all add: start_ok_def sample_world_def sample_conn_def sample_http_def)
  have spawned: "ho_api (snd (spawn_api sample_http ?args ?h)) =
      Listening \<lparr>cl_allow_methods = [GET, POST], cl_allow_headers = [''content-type''], cl_allow_origin = Any_Origin\<rparr>"
    by (simp add: spawn_api_def serve_start_def build_cors_def sample_http_def)
  let ?st = "(sample_api sample_conn)\<lparr>as_status := wo_status (ho_world h')\<rparr>"
  note dead = loop_death_degrades [OF run ok(1,2) sample_http_laws(1) ok(3), unfolded e sum.case]
  have "\<exists>layer. ho_api h' = Listening layer" using dead spawned by (simp add: sample_exex_start)
  moreover obtain b where "router sample_http (sample_request ''/health'') 0 0 ?st = ((200, Health_Body b), ?st) \<and> whe_status b = ''degraded''"
    using dead [THEN conjunct2, rule_format, of ?st 0 0] by auto
  ultimately show ?thesis using run e by blast
qed

end
