(* ===== verification/Lifetimes.thy ===== *)
theory Lifetimes
  imports Host
begin

text \<open>
  The program across restarts: the SQLite file outlives the process, everything else starts afresh. A life of the
  process is one run of \<open>indexer_exex\<close> that stops of itself, or at any statement (its budget), or after any
  notification (its list of events).
\<close>

section \<open>Lives of the process\<close>

record life =
  li_budget :: "nat option"
  li_chain_id :: u64
  li_read_pool :: "report + unit"
  li_node :: node_view
  li_events :: "(node_view \<times> notification) list"

text \<open>A new process finds what was committed; an open transaction is gone. Its connection binds what SQLite can hold.\<close>

definition new_process :: "nat option \<Rightarrow> conn \<Rightarrow> world" where
  "new_process budget c =
     \<lparr>wo_conn = \<lparr>cn_committed = cn_committed c, cn_tx = None, cn_binds = fits_i64, cn_budget = budget\<rparr>, wo_status = default_status, wo_reported = []\<rparr>"

definition live_once :: "life \<Rightarrow> conn \<Rightarrow> conn" where
  "live_once l c =
     wo_conn (snd (indexer_exex (li_chain_id l) (li_read_pool l) (li_node l) (li_events l) (new_process (li_budget l) c)))"

definition delivers :: "life \<Rightarrow> bool" where
  "delivers l \<longleftrightarrow> (\<exists>t. replays_to (li_node l) t \<and> seamless t (li_events l))"

section \<open>Databases with the same rows\<close>

text \<open>The same rows, and for the same chain when that is recorded.\<close>

definition same_file :: "db \<Rightarrow> db \<Rightarrow> bool" where
  "same_file d d' \<longleftrightarrow> same_rows d d' \<and> (\<forall>s. db_meta d ''chain_id'' = Some s \<longrightarrow> db_meta d' ''chain_id'' = Some s)"

lemma same_file_refl [simp]: "same_file d d"
  by (simp add: same_file_def)

lemma same_rows_trans: "same_rows d e \<Longrightarrow> same_rows e f \<Longrightarrow> same_rows d f"
  by (simp add: same_rows_def)

lemma same_rows_cursor: "same_rows d e \<Longrightarrow> cursor_of e = cursor_of d \<and> next_block e = next_block d"
  by (simp add: same_rows_def cursor_of_def next_block_def)

lemma same_rows_block_effect: "same_rows d e \<Longrightarrow> same_rows (block_effect x ts d) (block_effect x ts e)"
  by (simp add: same_rows_def block_effect_def split: option.split)

lemma same_rows_replay: "same_rows d e \<Longrightarrow> same_rows (replay_db acc d) (replay_db acc e)"
proof (induction acc d arbitrary: e rule: accepted.induct)
  case (2 x ts h d)
  from "2.IH" [OF same_rows_block_effect [OF "2.prems"]] show ?case by simp
qed simp

lemma same_rows_accepted: "same_rows d e \<Longrightarrow> accepted acc e = accepted acc d"
proof (induction acc d arbitrary: e rule: accepted.induct)
  case (2 x ts h d)
  from "2.IH" [OF same_rows_block_effect [OF "2.prems"]] same_rows_cursor [OF "2.prems"] show ?case
    by (simp add: at_or_below_cursor_def)
qed simp

lemma same_file_next: "same_file d e \<Longrightarrow> next_block e = next_block d"
  using same_rows_cursor by (simp add: same_file_def)

lemma same_file_accepted: "same_file d e \<Longrightarrow> accepted acc e = accepted acc d"
  by (auto simp: same_file_def same_rows_accepted)

lemma same_file_trans: "same_file d e \<Longrightarrow> same_file e f \<Longrightarrow> same_file d f"
  by (auto simp: same_file_def intro: same_rows_trans)

lemma chain_id_replay: "db_meta (replay_db acc d) ''chain_id'' = db_meta d ''chain_id''"
  by (induction acc d rule: accepted.induct) (simp_all add: block_effect_def)

lemma same_file_replay: "same_file d e \<Longrightarrow> same_file (replay_db acc d) (replay_db acc e)"
  by (simp add: same_file_def same_rows_replay chain_id_replay)

lemma current_block_effect: "current (block_effect x ts d) = current d"
  by (simp add: current_def has_v1_def block_effect_def)

lemma current_replay: "current (replay_db acc d) = current d"
  by (induction acc d rule: accepted.induct) (simp_all add: current_block_effect)

section \<open>One life\<close>

text \<open>What a life leaves: the file it found, current and with the same rows, and then consecutive blocks.\<close>

definition found :: "db \<Rightarrow> world \<Rightarrow> bool" where
  "found d w \<longleftrightarrow> cn_tx (wo_conn w) = None \<and> same_file d (wo_db w) \<and> current (wo_db w)"

definition extended :: "extracted_block set \<Rightarrow> db \<Rightarrow> world \<Rightarrow> bool" where
  "extended S d w \<longleftrightarrow> (\<exists>d1. same_file d d1 \<and> current d1 \<and> contiguous S d1 w)"

lemma found_extended: "found d w \<Longrightarrow> extended S d w"
  using contiguous_start by (auto simp: found_def extended_def)

lemma found_open: "hoare (found d) (on_writer (writer_open chain_id)) (\<lambda>_. found d) (found d)"
  unfolding hoare_def
proof (intro allI impI)
  fix w r w'
  assume w: "found d w" and run: "on_writer (writer_open chain_id) w = (r, w')"
  obtain r1 c1 where o: "writer_open chain_id (wo_conn w) = (r1, c1)" by (cases "writer_open chain_id (wo_conn w)")
  have "current (wo_db w)" and idle: "cn_tx (wo_conn w) = None" using w by (simp_all add: found_def)
  then have "unchanged (wo_db w) (wo_db w) \<and> \<not> has_v1 (wo_db w)" by (simp add: unchanged_def current_def)
  from tripleD [OF triple_open_unchanged [of False] idle _ this o] run o w
  show "case r of Inr _ \<Rightarrow> found d w' | Inl _ \<Rightarrow> found d w'"
    by (cases r1) (auto simp: on_writer_def found_def unchanged_def opened_def current_def same_file_def intro: same_rows_trans)
qed

lemma found_last_indexed: "hoare (found d) (on_writer last_indexed) (\<lambda>_. found d) (found d)"
  unfolding hoare_def
proof (intro allI impI)
  fix w r w'
  assume w: "found d w" and run: "on_writer last_indexed w = (r, w')"
  obtain r1 c1 where t: "read_cursor (wo_conn w) = (r1, c1)" by (cases "read_cursor (wo_conn w)")
  have "cn_tx (wo_conn w) = None" using w by (simp add: found_def)
  from tripleD [OF triple_read_cursor this _ refl t] run t w
  show "case r of Inr _ \<Rightarrow> found d w' | Inl _ \<Rightarrow> found d w'"
    by (cases r1) (auto simp: on_writer_def last_indexed_def found_def)
qed

lemma found_start: "hoare (found d) (exex_start chain_id read_pool) (\<lambda>_. found d) (found d)"
  unfolding exex_start_def
proof (intro hoare_andthen [where Q = "\<lambda>_. found d"] found_open found_last_indexed)
  show "hoare (found d) (from_result read_pool) (\<lambda>_. found d) (found d)" by (rule hoare_from_result)
  show "hoare (found d) (\<lambda>w. (Inr (), w\<lparr>wo_status := default_status\<rparr>)) (\<lambda>_. found d) (found d)"
    by (simp add: hoare_def found_def)
  show "hoare (found d) (case c of Some n \<Rightarrow> on_status (set_last_indexed n) | None \<Rightarrow> ret ()) (\<lambda>_. found d) (found d)" for c
    by (cases c) (simp_all add: hoare_def found_def on_status_def ret_def)
qed

lemma extended_loop:
  assumes "replays_to nv t" and "seamless t events"
  shows "hoare (found d) (exex_loop nv events) (\<lambda>_. extended (delivered nv events) d) (extended (delivered nv events) d)"
  unfolding hoare_def
proof (intro allI impI)
  fix w r w'
  assume w: "found d w" and run: "exex_loop nv events w = (r, w')"
  let ?S = "delivered nv events"
  let ?w = "w\<lparr>wo_status := set_live True (wo_status w)\<rparr>"
  obtain r1 w1 where b: "andthen (catch_up nv) (\<lambda>_. for_each on_notification events) ?w = (r1, w1)"
    by (cases "andthen (catch_up nv) (\<lambda>_. for_each on_notification events) ?w")
  have "contiguous ?S (wo_db w) ?w" using w contiguous_start [of ?w] by (simp add: found_def)
  from hoareD [OF contiguous_loop [OF assms] this b] have "contiguous ?S (wo_db w) w1" by (auto split: sum.splits)
  moreover have "w' = w1\<lparr>wo_status := set_live False (wo_status w1)\<rparr>"
    using run b by (simp add: exex_loop_def with_live_guard_def live_guarded_def)
  ultimately have "contiguous ?S (wo_db w) w'" by (simp add: contiguous_def)
  with w have "extended ?S d w'" unfolding found_def extended_def by blast
  then show "case r of Inr _ \<Rightarrow> extended ?S d w' | Inl _ \<Rightarrow> extended ?S d w'" by (cases r) simp_all
qed

lemma one_life:
  assumes "delivers l" and "current (cn_committed c)"
  shows "extended (delivered (li_node l) (li_events l)) (cn_committed c)
    (snd (indexer_exex (li_chain_id l) (li_read_pool l) (li_node l) (li_events l) (new_process (li_budget l) c)))"
proof -
  let ?S = "delivered (li_node l) (li_events l)"
  let ?m = "indexer_exex (li_chain_id l) (li_read_pool l) (li_node l) (li_events l)"
  obtain r w where run: "?m (new_process (li_budget l) c) = (r, w)" by (cases "?m (new_process (li_budget l) c)")
  from assms(1) obtain t where t: "replays_to (li_node l) t" "seamless t (li_events l)" by (auto simp: delivers_def)
  have "hoare (found (cn_committed c)) ?m (\<lambda>_. extended ?S (cn_committed c)) (extended ?S (cn_committed c))"
    unfolding indexer_exex_split
    by (rule hoare_andthen [OF hoare_weaken [OF found_start] extended_loop [OF t]]) (auto intro: found_extended)
  from hoareD [OF this _ run] assms(2) have "extended ?S (cn_committed c) w"
    by (auto simp: found_def new_process_def split: sum.splits)
  with run show ?thesis by simp
qed

section \<open>Any number of lives\<close>

text \<open>What any number of lives leaves: the rows of consecutive accepted blocks over those that were there.\<close>

definition grown :: "extracted_block set \<Rightarrow> db \<Rightarrow> db \<Rightarrow> bool" where
  "grown S d0 d \<longleftrightarrow> current d \<and> (\<exists>acc. same_file (replay_db acc d0) d \<and> accepted acc d0 \<and> fst ` set acc \<subseteq> S \<and>
     map (\<lambda>x. unat (ex_number (fst x))) acc = [next_block d0..<next_block d])"

lemma next_block_accepted: "accepted acc d \<Longrightarrow> next_block d \<le> next_block (replay_db acc d)"
proof (induction acc d rule: accepted.induct)
  case (2 x ts h d)
  then have "next_block d \<le> unat (ex_number x)" by (auto dest: above_next)
  with 2 show ?case by simp
qed simp

lemma upt_joined: "i \<le> j \<Longrightarrow> j \<le> k \<Longrightarrow> [i..<j] @ [j..<k] = [i..<k]"
  using upt_add_eq_append [of i j "k - j"] by simp

lemma grown_life:
  assumes "grown S d0 (cn_committed c)" and "delivers l" and "delivered (li_node l) (li_events l) \<subseteq> S"
  shows "grown S d0 (cn_committed (live_once l c))"
proof -
  let ?d = "cn_committed c"
  let ?d' = "cn_committed (live_once l c)"
  from assms(1) obtain acc where cur: "current ?d" and acc: "same_file (replay_db acc d0) ?d" "accepted acc d0" "fst ` set acc \<subseteq> S"
    "map (\<lambda>x. unat (ex_number (fst x))) acc = [next_block d0..<next_block ?d]" unfolding grown_def by blast
  from one_life [OF assms(2) cur] obtain d1 more where d1: "same_file ?d d1" "current d1" and more: "?d' = replay_db more d1" "accepted more d1" "fst ` set more \<subseteq> S"
    "map (\<lambda>x. unat (ex_number (fst x))) more = [next_block d1..<next_block ?d']"
    using assms(3) unfolding extended_def contiguous_def live_once_def by auto
  have base: "same_file (replay_db acc d0) d1" using same_file_trans [OF acc(1) d1(1)] .
  have next1: "next_block d1 = next_block ?d" "next_block (replay_db acc d0) = next_block d1"
    using same_file_next [OF d1(1)] same_file_next [OF base] by simp_all
  have "same_file (replay_db (acc @ more) d0) ?d'"
    unfolding replay_db_append more(1) by (rule same_file_replay [OF base])
  moreover have "accepted (acc @ more) d0"
    using acc(2) more(2) same_file_accepted [OF base] by (simp add: accepted_append)
  moreover have "next_block d0 \<le> next_block ?d" "next_block ?d \<le> next_block ?d'"
    using next_block_accepted [OF acc(2)] next_block_accepted [OF more(2)] next1 more(1) by simp_all
  then have "map (\<lambda>x. unat (ex_number (fst x))) (acc @ more) = [next_block d0..<next_block ?d']"
    using acc(4) more(4) next1 upt_joined by simp
  moreover have "fst ` set (acc @ more) \<subseteq> S" using acc(3) more(3) by auto
  moreover have "current ?d'" using d1(2) by (simp add: more(1) current_replay)
  ultimately show ?thesis unfolding grown_def by blast
qed

text \<open>What the nodes deliver to a sequence of lives.\<close>

definition delivered_to :: "life list \<Rightarrow> extracted_block set" where
  "delivered_to ls = (\<Union>l \<in> set ls. delivered (li_node l) (li_events l))"

lemma grown_lives: "list_all delivers ls \<Longrightarrow> delivered_to ls \<subseteq> S \<Longrightarrow> grown S d0 (cn_committed c) \<Longrightarrow> grown S d0 (cn_committed (fold live_once ls c))"
  by (induction ls arbitrary: c) (auto simp: delivered_to_def intro: grown_life)

text \<open>C5: the index survives any number of restarts: over every sequence of processes on a current file, each with any
  chain id, any node whose replays and notifications join, and a stop at any statement or notification, the
  file ends with exactly the rows it had and then those of the consecutive blocks from its first cursor on up to
  the last one, each written once and in order, whatever process wrote it, and each the extraction of a block that
  a node delivered.\<close>

theorem lives_leave_no_gap:
  assumes "current (cn_committed c)" and "list_all delivers ls"
  shows "\<exists>acc. same_rows (replay_db acc (cn_committed c)) (cn_committed (fold live_once ls c)) \<and> accepted acc (cn_committed c) \<and> fst ` set acc \<subseteq> delivered_to ls \<and>
    map (\<lambda>x. unat (ex_number (fst x))) acc =
      [next_block (cn_committed c)..<next_block (cn_committed (fold live_once ls c))]"
proof -
  have "grown (delivered_to ls) (cn_committed c) (cn_committed c)"
    using assms(1) by (auto simp: grown_def intro!: exI [of _ "[]"])
  from grown_lives [OF assms(2) subset_refl this] show ?thesis unfolding grown_def same_file_def by blast
qed

definition sample_life :: "nat option \<Rightarrow> (node_view \<times> notification) list \<Rightarrow> life" where
  "sample_life budget events = \<lparr>li_budget = budget, li_chain_id = 2017, li_read_pool = Inr (), li_node = sample_node, li_events = events\<rparr>"

lemma lives_leave_no_gap_witness:
  "let d = cn_committed (fold live_once [sample_life (Some 40) [], sample_life None [(sample_node, Lagged 7)]] sample_conn)
   in \<exists>acc. same_rows (replay_db acc sample_db) d \<and> map (\<lambda>x. unat (ex_number (fst x))) acc = [0..<next_block d]"
proof -
  have "seamless 2 []" "seamless 2 [(sample_node, Lagged 7)]"
    by (intro seamless_lagged [OF sample_replays] seamless_end)+
  then have ls: "list_all delivers [sample_life (Some 40) [], sample_life None [(sample_node, Lagged 7)]]"
    using sample_replays by (auto simp: delivers_def sample_life_def)
  have "current (cn_committed sample_conn)"
    by (simp add: sample_empty current_def has_v1_def) (simp add: sample_db_def SCHEMA_TABLES_def SCHEMA_VERSION_def)
  from lives_leave_no_gap [OF this ls] show ?thesis
    unfolding sample_empty sample_start Let_def by blast
qed

end
