(* ===== verification/Recovery.thy ===== *)
theory Recovery
  imports Lifetimes
begin

text \<open>
  Recovery: after any lives of the process, crashes included, one undisturbed run against a node that holds
  the whole chain completes the index. The run is composed of what is known of its parts: opening keeps a current file
  and makes the connection ready, the status starts at the cursor, and \<open>catch_up\<close> reaches the tip.
\<close>

section \<open>Opening leaves a ready connection\<close>

lemma frames_run_ddl [sql_frame]: "frames (run_ddl s)"
  by (cases s) (auto intro: sql_frame)

lemma frames_fail: "frames (fail e)"
  by (simp add: frames_def fail_def)

lemma frames_if: "frames m \<Longrightarrow> frames m' \<Longrightarrow> frames (if b then m else m')"
  by simp

lemma frames_check_chain_id: "frames (check_chain_id chain_id)"
  unfolding check_chain_id_def
  by (intro sql_frame frames_read_meta) (auto intro: frames_put_meta frames_fail sql_frame split: option.split)

lemma frames_writer_open: "frames (writer_open chain_id)"
  unfolding writer_open_def configure_def migrate_def drop_outdated_def table_exists_def put_meta_if_absent_def
  by (intro sql_frame frames_if frames_read_meta frames_put_meta frames_check_chain_id)

lemma clean_open:
  assumes "current d" and "db_meta d ''chain_id'' = Some s" and "parse_u64 s = Some chain_id"
    and "cn_committed c = d" and "cn_tx c = None" and "cn_binds c = fits_i64" and "cn_budget c = None"
  obtains c' where "writer_open chain_id c = (Inr (), c')" "ready c'" "cn_tx c' = None" "same_rows d (cn_committed c')"
proof -
  obtain r c' where o: "writer_open chain_id c = (r, c')" by (cases "writer_open chain_id c")
  have u: "unchanged d (cn_committed c) \<and> \<not> has_v1 (cn_committed c)" using assms(1,4) by (simp add: unchanged_def current_def)
  have h: "True \<longrightarrow> healthy c" using assms(7) by (simp add: healthy_def)
  note t = tripleD [OF triple_open_unchanged [of True] assms(5) h u o]
  have "r = Inr ()"
  proof (cases r)
    case (Inl e)
    with t assms(2,3) show ?thesis by (auto simp: unchanged_def)
  qed simp
  moreover have "cn_binds c' = fits_i64"
    using framesD [OF frames_writer_open o] assms(6) by (simp add: same_session_def)
  ultimately show ?thesis
    using t o that [of c'] by (auto simp: ready_def view_def opened_def unchanged_def)
qed

lemma clean_start:
  assumes "current (cn_committed c)" and "cursor_readable (cn_committed c)"
    and "db_meta (cn_committed c) ''chain_id'' = Some s" and "parse_u64 s = Some chain_id"
  obtains w where "exex_start chain_id (Inr ()) (new_process None c) = (Inr (), w)" "poised 0 w" "same_rows (cn_committed c) (wo_db w)"
    "wo_reported w = []"
proof -
  let ?w0 = "new_process None c"
  obtain c1 where o: "writer_open chain_id (wo_conn ?w0) = (Inr (), c1)" "ready c1" "cn_tx c1 = None" "same_rows (cn_committed c) (cn_committed c1)"
    by (rule clean_open [OF assms(1,3,4), of "wo_conn ?w0"]) (simp_all add: new_process_def)
  have readable: "cursor_readable (view c1)"
    using assms(2) o(3,4) by (simp add: cursor_readable_def same_rows_def view_def)
  from completes_read_cursor [OF o(2) this] obtain x c2 where r: "read_cursor c1 = (Inr x, c2)" "ready c2" by (auto simp: completes_def)
  from tripleD [OF triple_read_cursor o(3) _ refl r(1)] have c2: "cn_tx c2 = None" "cn_committed c2 = cn_committed c1" "x = cursor_of (cn_committed c1)"
    by auto
  define w where "w = ?w0\<lparr>wo_conn := c2, wo_status := (case x of Some n \<Rightarrow> set_last_indexed n default_status | None \<Rightarrow> default_status)\<rparr>"
  have "exex_start chain_id (Inr ()) ?w0 = (Inr (), w)"
    using o(1) r(1)
    by (cases x)
      (simp_all add: exex_start_def andthen_def on_writer_def from_result_def last_indexed_def on_status_def ret_def w_def new_process_def)
  moreover have "poised 0 w"
    using r(2) c2(1,2) readable o(3)
    by (auto simp: poised_def mirrors_def w_def c2(3) new_process_def view_def cursor_plus_one_def default_status_def set_last_indexed_def node_tip_def split: option.splits)
  ultimately show ?thesis using that [of w] c2(2) o(4) by (simp add: w_def new_process_def)
qed

section \<open>A node that holds the chain delivers it\<close>

lemma all_join_singletons: "map pair_number ps = [n..<m] \<Longrightarrow> all_join n (map (\<lambda>p. [p]) ps)"
proof (induction ps arbitrary: n)
  case (Cons p ps)
  then have n: "n < m" "pair_number p = n" "map pair_number ps = [Suc n..<m]"
    by (auto simp: upt_rec [of n] split: if_splits)
  then have "joins n [p]" "after n [p] = Suc n" by (simp_all add: joins_def segment_def after_def)
  with Cons.IH [OF n(3)] show ?case by simp
qed simp

lemma replay_segments_singletons: "replay_segments (map (\<lambda>p. Inr (ChainExecuted [p])) ps) = map (\<lambda>p. [p]) ps"
  by (induction ps) (simp_all add: replay_segments_def map_filter_simps)

lemma full_node_replays:
  assumes "full_node nv blocks tip"
  shows "replays_to nv 0"
  unfolding replays_to_def
proof (intro allI impI)
  fix start items
  assume "nv_replay_from nv start = Inr items"
  with assms have items: "items = map (\<lambda>p. Inr (ChainExecuted [p])) (drop (unat start) blocks)" by (simp add: full_node_def)
  have "replay_segments items = map (\<lambda>p. [p]) (drop (unat start) blocks)"
    unfolding items by (rule replay_segments_singletons)
  moreover have "map pair_number (drop (unat start) blocks) = [unat start..<Suc (unat tip)]"
    using assms by (simp add: full_node_def drop_map [symmetric] drop_upt del: upt_Suc)
  ultimately show "all_join (unat start) (replay_segments items) \<and> 0 \<le> reach (unat start) (replay_segments items)"
    using all_join_singletons by (simp del: upt_Suc)
qed

section \<open>Recovery\<close>

text \<open>The undisturbed run: no fault, no notification after the catch-up.\<close>

definition clean_life :: "u64 \<Rightarrow> node_view \<Rightarrow> life" where
  "clean_life chain_id nv = \<lparr>li_budget = None, li_chain_id = chain_id, li_read_pool = Inr (), li_node = nv, li_events = []\<rparr>"

lemma clean_run:
  assumes "current (cn_committed c)" and "cursor_readable (cn_committed c)"
    and "db_meta (cn_committed c) ''chain_id'' = Some s" and "parse_u64 s = Some chain_id"
    and node: "full_node nv blocks tip" and tip: "next_block (cn_committed c) \<le> Suc (unat tip)" "unat tip < 2 ^ 64 - 1"
  shows "\<exists>w. indexer_exex chain_id (Inr ()) nv [] (new_process None c) = (Inr (), w) \<and> cursor_of (wo_db w) = Some tip \<and> wo_reported w = [tip]"
proof -
  obtain w where w: "exex_start chain_id (Inr ()) (new_process None c) = (Inr (), w)" "poised 0 w" "same_rows (cn_committed c) (wo_db w)"
    "wo_reported w = []"
    by (rule clean_start [OF assms(1-4)])
  let ?w = "w\<lparr>wo_status := set_live True (wo_status w)\<rparr>"
  have live: "poised 0 ?w" using w(2) by (simp add: poised_def mirrors_def set_live_def node_tip_def)
  have "next_block (wo_db ?w) \<le> Suc (unat tip)" using tip(1) same_rows_cursor [OF w(3)] by simp
  from catch_up_reaches_tip [OF node live this _ tip(2)] obtain w1
    where w1: "catch_up nv ?w = (Inr (), w1)" "cursor_of (wo_db w1) = Some tip" "wo_reported w1 = [tip]"
    using w(4) by auto
  then have "exex_loop nv [] w = (Inr (), w1\<lparr>wo_status := set_live False (wo_status w1)\<rparr>)"
    by (simp add: exex_loop_def with_live_guard_def live_guarded_def andthen_def ret_def)
  with w(1) w1(2,3) show ?thesis by (simp add: indexer_exex_split andthen_def)
qed

lemma readable_replay: "cursor_readable d \<Longrightarrow> cursor_readable (replay_db acc d)"
  by (induction acc d rule: accepted.induct) (simp_all add: readable_effect)

text \<open>Crashes are harmless in the end. After any sequence of processes on a current file of this chain, each one stopped
  at any statement or notification, one undisturbed run against a node that holds the chain up to its tip
  succeeds, with the cursor at the tip and the tip reported; and the file then has the rows it had at first and those of
  exactly the blocks from its first cursor to the tip, each once and in order.\<close>

theorem recovers_after_crashes:
  assumes "current (cn_committed c)" and "cursor_readable (cn_committed c)"
    and "db_meta (cn_committed c) ''chain_id'' = Some s" and "parse_u64 s = Some chain_id"
    and "list_all delivers ls" and "full_node nv blocks tip"
    and "next_block (cn_committed (fold live_once ls c)) \<le> Suc (unat tip)" and "unat tip < 2 ^ 64 - 1"
  shows "\<exists>w acc. indexer_exex chain_id (Inr ()) nv [] (new_process None (fold live_once ls c)) = (Inr (), w) \<and>
    cursor_of (wo_db w) = Some tip \<and> wo_reported w = [tip] \<and>
    same_rows (replay_db acc (cn_committed c)) (wo_db w) \<and> fst ` set acc \<subseteq> delivered_to (ls @ [clean_life chain_id nv]) \<and>
    map (\<lambda>x. unat (ex_number (fst x))) acc = [next_block (cn_committed c)..<Suc (unat tip)]"
proof -
  let ?d = "cn_committed (fold live_once ls c)"
  have g0: "grown S (cn_committed c) (cn_committed c)" for S
    using assms(1) by (auto simp: grown_def intro!: exI [of _ "[]"])
  from grown_lives [OF assms(5) subset_refl g0] obtain acc0
    where "current ?d" and kept: "same_file (replay_db acc0 (cn_committed c)) ?d" unfolding grown_def by blast
  moreover from kept readable_replay [OF assms(2), of acc0] have "cursor_readable ?d"
    by (simp add: same_file_def same_rows_def cursor_readable_def)
  moreover from kept assms(3) have "db_meta ?d ''chain_id'' = Some s" by (simp add: same_file_def chain_id_replay)
  ultimately obtain w where w: "indexer_exex chain_id (Inr ()) nv [] (new_process None (fold live_once ls c)) = (Inr (), w)"
    "cursor_of (wo_db w) = Some tip" "wo_reported w = [tip]"
    using clean_run [OF _ _ _ assms(4,6-8)] by blast
  have last: "cn_committed (fold live_once (ls @ [clean_life chain_id nv]) c) = wo_db w"
    using w(1) by (simp add: live_once_def clean_life_def)
  have "list_all delivers (ls @ [clean_life chain_id nv])"
    using assms(5) full_node_replays [OF assms(6)] by (auto simp: delivers_def clean_life_def intro: seamless_end)
  from grown_lives [OF this subset_refl g0] obtain acc
    where "same_file (replay_db acc (cn_committed c)) (wo_db w)" "fst ` set acc \<subseteq> delivered_to (ls @ [clean_life chain_id nv])"
      "map (\<lambda>x. unat (ex_number (fst x))) acc = [next_block (cn_committed c)..<next_block (wo_db w)]"
    unfolding grown_def last by blast
  moreover have "next_block (wo_db w) = Suc (unat tip)" using w(2) next_block_tip by blast
  ultimately show ?thesis using w unfolding same_file_def by auto
qed

lemma recovers_after_crashes_witness:
  "\<exists>w. indexer_exex 2017 (Inr ()) sample_node [] (new_process None (live_once (sample_life (Some 3) []) sample_conn)) = (Inr (), w) \<and>
     cursor_of (wo_db w) = Some 1"
proof -
  have found: "current (cn_committed sample_conn)" "cursor_readable (cn_committed sample_conn)"
    "db_meta (cn_committed sample_conn) ''chain_id'' = Some ''2017''"
    by (simp_all add: sample_empty current_def has_v1_def) (simp_all add: sample_db_def empty_db_def cursor_readable_def SCHEMA_TABLES_def SCHEMA_VERSION_def)
  have chain: "parse_u64 ''2017'' = Some 2017"
    by (simp add: parse_u64_def parse_uint_def is_ascii_digit_def dec_value_def Let_def)
  have life: "list_all delivers [sample_life (Some 3) []]"
    using sample_replays by (auto simp: delivers_def sample_life_def intro: seamless_end)
  have "next_block (cn_committed (fold live_once [sample_life (Some 3) []] sample_conn)) \<le> Suc (unat (1 :: u64))"
    by (simp add: live_once_def sample_life_def new_process_def indexer_exex_def andthen_def on_writer_def writer_open_def configure_def execute_def
        charge_def numeral_3_eq_3 view_def set_view_def sample_start sample_empty)
  from recovers_after_crashes [OF found chain life sample_full_node this] show ?thesis by auto
qed

end
