(* ===== verification/Loop_Refinement.thy ===== *)
theory Loop_Refinement
  imports Recovery Storage_Spec "HOL-Library.Sublist"
begin

text \<open>
  The indexing loop refines an abstract program over the list of indexed blocks. The abstract program knows no
  database, no status, no token and no failure: it appends to a list the blocks that the node delivers, as
  \<open>spec_index_block\<close> appends one. The loop of \<open>src/exex.rs\<close> implements it: a run that ends well leaves a database
  that represents the list of the abstract program, a run that fails anywhere one that represents a prefix of it.
\<close>

section \<open>Refinement of an action that may fail\<close>

text \<open>
  \<open>refines rel below m f\<close>: from related states the action \<open>m\<close> either returns the result of \<open>f\<close> in a related state,
  or fails in a state that is related to one between the abstract state before and the one after.
\<close>

definition refines :: "('a \<Rightarrow> 's \<Rightarrow> bool) \<Rightarrow> ('a \<Rightarrow> 'a \<Rightarrow> bool) \<Rightarrow> ('s, 'x) act \<Rightarrow> ('a \<Rightarrow> 'x \<times> 'a) \<Rightarrow> bool" where
  "refines rel below m f \<longleftrightarrow>
     (\<forall>a. below a (snd (f a))) \<and>
     (\<forall>a s r s'. rel a s \<longrightarrow> m s = (r, s') \<longrightarrow>
        (case r of
           Inr x \<Rightarrow> x = fst (f a) \<and> rel (snd (f a)) s'
         | Inl _ \<Rightarrow> \<exists>b. below a b \<and> below b (snd (f a)) \<and> rel b s'))"

lemma refinesI:
  assumes "\<And>a. below a (snd (f a))"
    and "\<And>a s x s'. rel a s \<Longrightarrow> m s = (Inr x, s') \<Longrightarrow> x = fst (f a) \<and> rel (snd (f a)) s'"
    and "\<And>a s e s'. rel a s \<Longrightarrow> m s = (Inl e, s') \<Longrightarrow> \<exists>b. below a b \<and> below b (snd (f a)) \<and> rel b s'"
  shows "refines rel below m f"
  using assms by (auto simp: refines_def split: sum.split)

lemma refines_grows: "refines rel below m f \<Longrightarrow> below a (snd (f a))"
  by (simp add: refines_def)

lemma refines_Inr: "refines rel below m f \<Longrightarrow> rel a s \<Longrightarrow> m s = (Inr x, s') \<Longrightarrow> x = fst (f a) \<and> rel (snd (f a)) s'"
  by (fastforce simp: refines_def)

lemma refines_Inl:
  "refines rel below m f \<Longrightarrow> rel a s \<Longrightarrow> m s = (Inl e, s') \<Longrightarrow> \<exists>b. below a b \<and> below b (snd (f a)) \<and> rel b s'"
  by (fastforce simp: refines_def)

lemma refines_cong: "refines rel below m f \<Longrightarrow> (\<And>a. f a = g a) \<Longrightarrow> refines rel below m g"
  using ext [of f g] by simp

lemma refines_guarded:
  assumes "refines rel below m f" and "\<And>a s. rel a s \<Longrightarrow> rel a (acquire s)" and "\<And>a s. rel a s \<Longrightarrow> rel a (release s)"
  shows "refines rel below (live_guarded acquire release m) f"
proof (rule refinesI)
  show "below a (snd (f a))" for a by (rule refines_grows [OF assms(1)])
next
  fix a s x s'
  assume "rel a s" "live_guarded acquire release m s = (Inr x, s')"
  with refines_Inr [OF assms(1) assms(2)] assms(3) show "x = fst (f a) \<and> rel (snd (f a)) s'"
    by (auto simp: live_guarded_def split: prod.splits)
next
  fix a s e s'
  assume "rel a s" "live_guarded acquire release m s = (Inl e, s')"
  with refines_Inl [OF assms(1) assms(2)] assms(3) show "\<exists>b. below a b \<and> below b (snd (f a)) \<and> rel b s'"
    by (fastforce simp: live_guarded_def split: prod.splits)
qed

text \<open>How refinement composes, for any abstract states that only grow.\<close>

locale growing =
  fixes rel :: "'a \<Rightarrow> 's \<Rightarrow> bool" and below :: "'a \<Rightarrow> 'a \<Rightarrow> bool"
  assumes below_refl: "below a a" and below_trans: "below a b \<Longrightarrow> below b c \<Longrightarrow> below a c"
begin

lemma refines_ret: "refines rel below (ret x) (\<lambda>a. (x, a))"
  by (rule refinesI) (auto simp: ret_def below_refl)

lemma refines_from_result: "refines rel below (from_result (Inr x)) (\<lambda>a. (x, a))"
  by (rule refinesI) (auto simp: from_result_def below_refl)

text \<open>What fails at once refines whatever grows.\<close>

lemma refines_failed: "(\<And>a. below a (snd (f a))) \<Longrightarrow> refines rel below (from_result (Inl e)) f"
  by (rule refinesI) (auto simp: from_result_def intro: below_refl)

text \<open>Whatever the result, the state is related to one between the two.\<close>

lemma refines_between:
  assumes "refines rel below m f" and "rel a s" and "m s = (r, s')"
  shows "\<exists>b. below a b \<and> below b (snd (f a)) \<and> rel b s'"
proof (cases r)
  case (Inl e)
  with refines_Inl [OF assms(1,2)] assms(3) show ?thesis by blast
next
  case (Inr x)
  with refines_Inr [OF assms(1,2)] assms(3) refines_grows [OF assms(1)] below_refl show ?thesis by blast
qed

lemma refines_stutter:
  assumes "\<And>s. fst (m s) = Inr ()" and "\<And>a s. rel a s \<Longrightarrow> rel a (snd (m s))"
  shows "refines rel below m (\<lambda>a. ((), a))"
  using assms by (intro refinesI) (auto simp: below_refl prod_eq_iff dest: arg_cong [where f = snd])

lemma refines_andthen:
  assumes m: "refines rel below m f" and k: "\<And>x. refines rel below (k x) (g x)"
  shows "refines rel below (andthen m k) (\<lambda>a. g (fst (f a)) (snd (f a)))"
proof (rule refinesI)
  show "below a (snd (g (fst (f a)) (snd (f a))))" for a
    using refines_grows [OF m] refines_grows [OF k] by (rule below_trans)
next
  fix a s y s'
  assume a: "rel a s" "andthen m k s = (Inr y, s')"
  then obtain x s1 where "m s = (Inr x, s1)" "k x s1 = (Inr y, s')"
    by (auto simp: andthen_def split: prod.splits sum.splits)
  with refines_Inr [OF m a(1)] refines_Inr [OF k] show "y = fst (g (fst (f a)) (snd (f a))) \<and> rel (snd (g (fst (f a)) (snd (f a)))) s'"
    by metis
next
  fix a s e s'
  assume a: "rel a s" "andthen m k s = (Inl e, s')"
  let ?after = "snd (g (fst (f a)) (snd (f a)))"
  from a(2) consider "m s = (Inl e, s')" | x s1 where "m s = (Inr x, s1)" "k x s1 = (Inl e, s')"
    by (auto simp: andthen_def split: prod.splits sum.splits)
  then show "\<exists>b. below a b \<and> below b ?after \<and> rel b s'"
  proof cases
    case 1
    with refines_Inl [OF m a(1)] show ?thesis using refines_grows [OF k] below_trans by blast
  next
    case 2
    with refines_Inr [OF m a(1)] have "rel (snd (f a)) s1" "x = fst (f a)" by blast+
    with 2 refines_Inl [OF k] show ?thesis using refines_grows [OF m] below_trans by blast
  qed
qed

lemma refines_seq:
  "refines rel below m (\<lambda>a. ((), f a)) \<Longrightarrow> refines rel below n (\<lambda>a. ((), g a)) \<Longrightarrow>
   refines rel below (andthen m (\<lambda>_. n)) (\<lambda>a. ((), g (f a)))"
  using refines_andthen [of m "\<lambda>a. ((), f a)" "\<lambda>_. n" "\<lambda>_ a. ((), g a)"] by simp

lemma refines_for_each:
  assumes "\<And>x. x \<in> set xs \<Longrightarrow> refines rel below (h x) (\<lambda>a. ((), f x a))"
  shows "refines rel below (for_each h xs) (\<lambda>a. ((), fold f xs a))"
  using assms
proof (induction xs)
  case Nil
  show ?case by (rule refines_cong [where f = "\<lambda>a. ((), a)"]) (simp_all add: refines_ret)
next
  case (Cons x xs)
  have "refines rel below (andthen (h x) (\<lambda>_. for_each h xs)) (\<lambda>a. ((), fold f xs (f x a)))"
    using refines_andthen [OF Cons.prems [of x], of "\<lambda>_. for_each h xs" "\<lambda>_ a. ((), fold f xs a)"] Cons by simp
  then show ?case by simp
qed

end

text \<open>The relation of this development: an idle writer on a current file of a chain, whose committed database represents the list.\<close>

definition file_of :: "string \<Rightarrow> db \<Rightarrow> bool" where
  "file_of s d \<longleftrightarrow> current d \<and> cursor_readable d \<and> db_meta d ''chain_id'' = Some s"

definition indexed :: "chain_fns \<Rightarrow> string \<Rightarrow> abstract_index \<Rightarrow> world \<Rightarrow> bool" where
  "indexed fns s blocks w \<longleftrightarrow> cn_tx (wo_conn w) = None \<and> represents fns blocks (wo_db w) \<and> file_of s (wo_db w)"

lemma chain_id_block_effect: "db_meta (block_effect e ts d) ''chain_id'' = db_meta d ''chain_id''"
  by (simp add: block_effect_def)

lemma file_of_block_effect: "file_of s d \<Longrightarrow> file_of s (block_effect e ts d)"
  by (simp add: file_of_def current_block_effect readable_effect chain_id_block_effect)

lemma file_of_same_file: "file_of s d \<Longrightarrow> same_file d d' \<Longrightarrow> current d' \<Longrightarrow> file_of s d'"
  by (simp add: file_of_def same_file_def same_rows_def cursor_readable_def)

interpretation index_growth: growing "indexed fns s" prefix for fns s
  by unfold_locales auto

lemma represents_same_rows:
  assumes "same_rows d d'" and "represents fns blocks d"
  shows "represents fns blocks d'"
proof -
  have c: "cursor_of d' = cursor_of d" using same_rows_cursor [OF assms(1)] by simp
  then have "rows_below_cursor d' = rows_below_cursor d" "keys_unique d' = keys_unique d" "counts_exact d' = counts_exact d"
    using assms(1) by (simp_all add: same_rows_def rows_below_cursor_def below_cursor_def keys_unique_def counts_exact_def)
  with c assms show ?thesis by (simp add: represents_def same_rows_def)
qed

section \<open>The abstract program\<close>

definition spec_push :: "recovered_block \<times> receipt list \<Rightarrow> abstract_index \<Rightarrow> abstract_index" where
  "spec_push p blocks = snd (spec_index_block p blocks)"

definition spec_replay :: "node_view \<Rightarrow> u64 option \<Rightarrow> abstract_index \<Rightarrow> abstract_index" where
  "spec_replay nv cursor blocks =
     (case nv_replay_from nv (case cursor of None \<Rightarrow> 0 | Some c \<Rightarrow> c + 1) of
        Inr items \<Rightarrow> fold spec_push (concat (replay_segments items)) blocks
      | Inl _ \<Rightarrow> blocks)"

definition spec_catch_up :: "node_view \<Rightarrow> abstract_index \<Rightarrow> abstract_index" where
  "spec_catch_up nv blocks = spec_replay nv (spec_cursor blocks) blocks"

definition spec_notification :: "node_view \<times> notification \<Rightarrow> abstract_index \<Rightarrow> abstract_index" where
  "spec_notification event blocks =
     (case snd event of
        ChainExecuted new \<Rightarrow> fold spec_push new blocks
      | Lagged missed \<Rightarrow> spec_catch_up (fst event) blocks
      | CertificateAccepted \<Rightarrow> blocks
      | ConsensusOutputSeen \<Rightarrow> blocks)"

lemma spec_notification_simps [simp]:
  "spec_notification (nv, ChainExecuted new) blocks = fold spec_push new blocks"
  "spec_notification (nv, Lagged missed) blocks = spec_catch_up nv blocks"
  "spec_notification (nv, CertificateAccepted) blocks = blocks"
  "spec_notification (nv, ConsensusOutputSeen) blocks = blocks"
  by (simp_all add: spec_notification_def)

definition spec_indexer :: "node_view \<Rightarrow> (node_view \<times> notification) list \<Rightarrow> abstract_index \<Rightarrow> abstract_index" where
  "spec_indexer nv events blocks = fold spec_notification events (spec_catch_up nv blocks)"

text \<open>What is asked of the node: one way to decode its blocks, and blocks whose positions fit their columns.\<close>

definition sized :: "chain \<Rightarrow> bool" where
  "sized ch \<longleftrightarrow> list_all (\<lambda>p. block_sizes_ok (fst p) (snd p)) ch"

definition sized_view :: "chain_fns \<Rightarrow> node_view \<Rightarrow> bool" where
  "sized_view fns nv \<longleftrightarrow> nv_chain_fns nv = fns \<and>
     (\<forall>start items. nv_replay_from nv start = Inr items \<longrightarrow> list_all sized (replay_segments items))"

definition sized_event :: "chain_fns \<Rightarrow> node_view \<times> notification \<Rightarrow> bool" where
  "sized_event fns event \<longleftrightarrow>
     (case snd event of
        ChainExecuted new \<Rightarrow> nv_chain_fns (fst event) = fns \<and> sized new
      | Lagged missed \<Rightarrow> sized_view fns (fst event)
      | _ \<Rightarrow> True)"

section \<open>Each step refines its abstract one\<close>

lemma prefix_push: "prefix blocks (spec_push p blocks)"
  by (simp add: spec_push_def spec_index_block_def split: option.split)

lemma prefix_fold: "(\<And>x blocks. prefix blocks (f x blocks)) \<Longrightarrow> prefix blocks (fold f xs blocks)"
  by (induction xs arbitrary: blocks) (auto intro: prefix_order.trans)

lemma prefix_catch_up: "prefix blocks (spec_catch_up nv blocks)"
  by (auto simp: spec_catch_up_def spec_replay_def intro: prefix_fold prefix_push split: sum.split)

lemma prefix_notification: "prefix blocks (spec_notification event blocks)"
  by (auto simp: spec_notification_def intro: prefix_fold prefix_push prefix_catch_up split: notification.split)

lemma refines_index_pair:
  assumes "block_sizes_ok (fst p) (snd p)"
  shows "refines (indexed (nv_chain_fns nv) s) prefix (index_pair nv p) (\<lambda>blocks. ((), spec_push p blocks))"
proof -
  let ?fns = "nv_chain_fns nv"
  have step: "indexed ?fns s (spec_push p blocks) w' \<or> (\<exists>e. r = Inl e) \<and> indexed ?fns s blocks w'"
    if w: "indexed ?fns s blocks w" and run: "index_pair nv p w = (r, w')" for blocks w r w'
  proof -
    have rep: "represents ?fns blocks (wo_db w)" and idle: "cn_tx (wo_conn w) = None" and on: "file_of s (wo_db w)"
      using w by (simp_all add: indexed_def)
    note new = represents_new [OF rep, of p]
    have "index_pair nv (fst p, snd p) w = (r, w')" using run by simp
    from index_pair_outcome [OF idle this] consider
        ts where "cn_tx (wo_conn w') = None" "wo_db w' = block_effect (extracted ?fns p) ts (wo_db w)" "\<not> at_or_below_cursor (wo_db w) (number_of p)"
      | "cn_tx (wo_conn w') = None" "wo_db w' = wo_db w" "r = Inr () \<longrightarrow> at_or_below_cursor (wo_db w) (number_of p)"
      unfolding extracted_def [symmetric] number_extracted by (elim conjE disjE exE) auto
    then show ?thesis
    proof cases
      case 1
      with new have n: "fst (spec_index_block p blocks)" by simp
      from 1 represents_step [OF rep assms n, of ts] show ?thesis
        using file_of_block_effect [OF on] by (simp add: indexed_def spec_push_def spec_index_block_True [OF n])
    next
      case 2
      with new spec_index_block_False [of p blocks] rep on show ?thesis
        by (cases r) (auto simp: indexed_def spec_push_def)
    qed
  qed
  show ?thesis
  proof (rule refinesI)
    fix blocks w e w'
    assume "indexed ?fns s blocks w" "index_pair nv p w = (Inl e, w')"
    from step [OF this] have "indexed ?fns s (spec_push p blocks) w' \<or> indexed ?fns s blocks w'" by blast
    with prefix_push [of blocks p] show "\<exists>b. prefix blocks b \<and> prefix b (snd ((), spec_push p blocks)) \<and> indexed ?fns s b w'"
      by auto
  qed (use step prefix_push in \<open>auto\<close>)
qed

lemma refines_index_chain:
  "sized ch \<Longrightarrow> refines (indexed (nv_chain_fns nv) s) prefix (index_chain nv ch) (\<lambda>blocks. ((), fold spec_push ch blocks))"
  unfolding index_chain_def by (rule index_growth.refines_for_each) (auto simp: sized_def list_all_iff intro: refines_index_pair)

lemma refines_report: "refines (indexed fns s) prefix report_progress (\<lambda>blocks. ((), blocks))"
  by (rule index_growth.refines_stutter) (auto simp: report_progress_def indexed_def split: option.split)

lemma refines_status: "refines (indexed fns s) prefix (on_status f) (\<lambda>blocks. ((), blocks))"
  by (rule index_growth.refines_stutter) (simp_all add: on_status_def indexed_def)

lemma refines_last_indexed: "refines (indexed fns s) prefix (on_writer last_indexed) (\<lambda>blocks. (spec_cursor blocks, blocks))"
proof (rule refinesI)
  show "prefix blocks (snd (spec_cursor blocks, blocks))" for blocks by simp
next
  fix blocks w x w'
  assume w: "indexed fns s blocks w" and run: "on_writer last_indexed w = (Inr x, w')"
  then have "read_cursor (wo_conn w) = (Inr x, wo_conn w')"
    by (auto simp: on_writer_def last_indexed_def split: prod.splits)
  from tripleD [OF triple_read_cursor _ _ refl this] w
  show "x = fst (spec_cursor blocks, blocks) \<and> indexed fns s (snd (spec_cursor blocks, blocks)) w'"
    by (auto simp: indexed_def represents_def)
next
  fix blocks w e w'
  assume w: "indexed fns s blocks w" and run: "on_writer last_indexed w = (Inl e, w')"
  then have "read_cursor (wo_conn w) = (Inl e, wo_conn w')"
    by (auto simp: on_writer_def last_indexed_def split: prod.splits)
  from tripleD [OF triple_read_cursor _ _ refl this] w
  show "\<exists>b. prefix blocks b \<and> prefix b (snd (spec_cursor blocks, blocks)) \<and> indexed fns s b w'"
    by (auto simp: indexed_def)
qed

text \<open>A failed result ends a sequence, a good one feeds it.\<close>

lemma andthen_from_result:
  "andthen (from_result (Inr x)) k = k x"
  "andthen (from_result (Inl e)) k = from_result (Inl e)"
  by (simp_all add: fun_eq_iff andthen_def from_result_def)

lemma refines_replay_item:
  assumes "list_all sized (replay_segments [item])"
  shows "refines (indexed (nv_chain_fns nv) s) prefix (replay_item nv item)
     (\<lambda>blocks. ((), fold spec_push (concat (replay_segments [item])) blocks))"
proof (cases item)
  case (Inl e)
  show ?thesis
    unfolding Inl replay_item_def andthen_from_result
    by (rule index_growth.refines_failed) (simp add: prefix_fold prefix_push)
next
  case (Inr n)
  show ?thesis
  proof (cases n)
    case (ChainExecuted ch)
    then have "refines (indexed (nv_chain_fns nv) s) prefix (index_chain nv ch) (\<lambda>blocks. ((), fold spec_push ch blocks))"
      using assms Inr by (intro refines_index_chain) (simp add: replay_segments_def map_filter_simps)
    then show ?thesis by (simp add: Inr ChainExecuted replay_item_def andthen_from_result replay_segments_def map_filter_simps)
  qed (simp_all add: Inr replay_item_def andthen_from_result replay_segments_def map_filter_simps index_growth.refines_ret)
qed

lemma fold_replay_segments:
  "fold (\<lambda>item. fold spec_push (concat (replay_segments [item]))) items blocks = fold spec_push (concat (replay_segments items)) blocks"
proof (induction items arbitrary: blocks)
  case Nil
  show ?case by (simp add: replay_segments_def map_filter_simps)
next
  case (Cons item items)
  have "replay_segments (item # items) = replay_segments [item] @ replay_segments items"
    by (simp add: replay_segments_def map_filter_simps split: option.split)
  with Cons show ?case by simp
qed

lemma refines_catch_up:
  assumes "sized_view fns nv"
  shows "refines (indexed fns s) prefix (catch_up nv) (\<lambda>blocks. ((), spec_catch_up nv blocks))"
proof -
  have fns: "nv_chain_fns nv = fns" using assms by (simp add: sized_view_def)
  have rest: "refines (indexed fns s) prefix
     (let start = (case cursor of None \<Rightarrow> 0 | Some c \<Rightarrow> c + 1)
       in andthen (from_result (nv_last_block_number nv)) (\<lambda>tip.
          andthen (on_status (set_node_tip tip)) (\<lambda>_.
          andthen (from_result (nv_replay_from nv start)) (\<lambda>replay.
          andthen (for_each (replay_item nv) replay) (\<lambda>_. report_progress)))))
     (\<lambda>blocks. ((), spec_replay nv cursor blocks))" for cursor
  proof (cases "nv_last_block_number nv")
    case (Inl e)
    show ?thesis
      unfolding Inl Let_def andthen_from_result
      by (rule index_growth.refines_failed) (auto simp: spec_replay_def intro: prefix_fold prefix_push split: sum.split)
  next
    case tip: (Inr tip)
    let ?start = "case cursor of None \<Rightarrow> 0 | Some c \<Rightarrow> c + 1"
    show ?thesis
    proof (cases "nv_replay_from nv ?start")
      case (Inl e)
      from index_growth.refines_seq [OF refines_status index_growth.refines_failed [of "\<lambda>blocks. ((), blocks)"]]
      show ?thesis by (simp add: tip Inl Let_def andthen_from_result spec_replay_def)
    next
      case (Inr items)
      then have "item \<in> set items \<Longrightarrow> list_all sized (replay_segments [item])" for item
        using assms by (fastforce simp: sized_view_def replay_segments_def List.map_filter_def list_all_iff split: option.splits)
      then have "refines (indexed fns s) prefix (for_each (replay_item nv) items)
          (\<lambda>blocks. ((), fold (\<lambda>item. fold spec_push (concat (replay_segments [item]))) items blocks))"
        using refines_replay_item [of _ nv] by (intro index_growth.refines_for_each) (simp add: fns)
      from index_growth.refines_seq [OF refines_status index_growth.refines_seq [OF this refines_report]]
      show ?thesis by (simp add: tip Inr Let_def andthen_from_result spec_replay_def fold_replay_segments)
    qed
  qed
  show ?thesis
    unfolding catch_up_def
    by (rule refines_cong [OF index_growth.refines_andthen [OF refines_last_indexed rest]]) (simp add: spec_catch_up_def)
qed

lemma refines_notification:
  assumes "sized_event fns event"
  shows "refines (indexed fns s) prefix (on_notification event) (\<lambda>blocks. ((), spec_notification event blocks))"
proof -
  obtain nv n where event: "event = (nv, n)" by (cases event)
  show ?thesis
  proof (cases n)
    case (ChainExecuted ch)
    with assms have fns: "nv_chain_fns nv = fns" and ch: "sized ch" by (simp_all add: event sized_event_def)
    from index_growth.refines_seq [OF refines_index_chain [OF ch, of nv] refines_report]
    show ?thesis by (simp add: event ChainExecuted on_notification_def spec_notification_def fns)
  next
    case (Lagged missed)
    with assms have "sized_view fns nv" by (simp add: event sized_event_def)
    from refines_catch_up [OF this] show ?thesis by (simp add: event Lagged on_notification_def spec_notification_def)
  qed (simp_all add: event on_notification_def spec_notification_def index_growth.refines_ret)
qed

lemma refines_loop:
  assumes "sized_view fns nv" and "list_all (sized_event fns) events"
  shows "refines (indexed fns s) prefix (exex_loop nv events) (\<lambda>blocks. ((), spec_indexer nv events blocks))"
proof -
  have "refines (indexed fns s) prefix (for_each on_notification events) (\<lambda>blocks. ((), fold spec_notification events blocks))"
    using assms(2) by (intro index_growth.refines_for_each refines_notification) (simp add: list_all_iff)
  from index_growth.refines_seq [OF refines_catch_up [OF assms(1)] this]
  have body: "refines (indexed fns s) prefix (andthen (catch_up nv) (\<lambda>_. for_each on_notification events)) (\<lambda>blocks. ((), spec_indexer nv events blocks))"
    by (simp add: spec_indexer_def)
  show ?thesis
    unfolding exex_loop_def with_live_guard_def by (rule refines_guarded [OF body]) (simp_all add: indexed_def)
qed

lemma indexed_start:
  assumes "indexed fns s blocks w" and "exex_start chain_id read_pool w = (r, w')"
  shows "indexed fns s blocks w'"
proof -
  have "found (wo_db w) w" using assms(1) by (simp add: indexed_def found_def file_of_def)
  from hoareD [OF found_start this assms(2)] have f: "found (wo_db w) w'" by (cases r) simp_all
  then have "file_of s (wo_db w')" using assms(1) by (auto simp: found_def indexed_def intro: file_of_same_file)
  with f assms(1) show ?thesis by (auto simp: found_def indexed_def same_file_def intro: represents_same_rows)
qed

lemma refines_indexer:
  assumes "sized_view fns nv" and "list_all (sized_event fns) events"
  shows "refines (indexed fns s) prefix (indexer_exex chain_id read_pool nv events) (\<lambda>blocks. ((), spec_indexer nv events blocks))"
proof -
  have "refines (indexed fns s) prefix (exex_start chain_id read_pool) (\<lambda>blocks. ((), blocks))"
    by (rule refinesI) (auto intro: indexed_start)
  from index_growth.refines_seq [OF this refines_loop [OF assms]] show ?thesis
    by (simp add: indexer_exex_split)
qed

section \<open>The property\<close>

text \<open>C2: the indexer refines the abstract program. From a current file that represents a list of blocks, whatever
  the node replays and notifies, in any order and with any repetition, and whatever statement or read fails: when
  \<open>indexer_exex\<close> ends well the file represents exactly the list that the abstract program makes of the initial one, and
  when it ends with an error the file represents a list between the two, the initial one with the first few of the
  blocks that the abstract program appends.\<close>

theorem indexer_refines:
  assumes "indexed fns s blocks w" and "sized_view fns nv" and "list_all (sized_event fns) events"
    and "indexer_exex chain_id read_pool nv events w = (r, w')"
  shows "case r of
     Inr _ \<Rightarrow> represents fns (spec_indexer nv events blocks) (cn_committed (wo_conn w'))
   | Inl _ \<Rightarrow> \<exists>blocks'. prefix blocks blocks' \<and> prefix blocks' (spec_indexer nv events blocks) \<and>
       represents fns blocks' (cn_committed (wo_conn w'))"
proof (cases r)
  case (Inl e)
  with refines_Inl [OF refines_indexer [OF assms(2,3)] assms(1)] assms(4) show ?thesis
    by (fastforce simp: indexed_def)
next
  case (Inr x)
  with refines_Inr [OF refines_indexer [OF assms(2,3)] assms(1)] assms(4) show ?thesis
    by (fastforce simp: indexed_def)
qed

text \<open>The node of two blocks on an empty file of its chain.\<close>

lemma sample_sized: "sized sample_chain"
  by (simp add: sized_def sample_chain_def block_sizes_ok_def sample_block_def sample_receipts_def)

lemma sample_sized_view: "sized_view sample_fns sample_node"
  using sample_sized by (auto simp: sized_view_def sample_node_def replay_segments_singletons sized_def list_all_iff dest!: in_set_dropD)

lemma sample_file: "file_of ''2017'' (cn_committed sample_conn)"
  by (simp add: file_of_def sample_empty current_def has_v1_def)
    (simp add: sample_db_def empty_db_def cursor_readable_def SCHEMA_TABLES_def SCHEMA_VERSION_def)

lemma sample_list_indexed: "indexed sample_fns ''2017'' [] (new_process budget sample_conn)"
proof -
  have "represents sample_fns [] (cn_committed sample_conn)"
    by (rule represents_blank) (simp add: sample_conn_def sample_db_def blank_def empty_db_def)
  with sample_file show ?thesis by (simp add: indexed_def new_process_def)
qed

lemma sample_spec: "spec_indexer sample_node [] [] = sample_chain"
  by (simp add: spec_indexer_def spec_catch_up_def spec_replay_def sample_node_def replay_segments_def map_filter_simps
      sample_chain_def spec_push_def spec_index_block_def spec_cursor_def number_of_def sample_block_def sample_header_def)

lemma indexer_refines_witness:
  "\<exists>w'. indexer_exex 2017 (Inr ()) sample_node [] (new_process None sample_conn) = (Inr (), w') \<and>
     represents sample_fns sample_chain (cn_committed (wo_conn w'))"
proof -
  have chain: "parse_u64 ''2017'' = Some 2017"
    by (simp add: parse_u64_def parse_uint_def is_ascii_digit_def dec_value_def Let_def)
  have "next_block (cn_committed sample_conn) \<le> Suc (unat (1 :: u64))" by (simp add: sample_empty sample_start)
  then obtain w' where run: "indexer_exex 2017 (Inr ()) sample_node [] (new_process None sample_conn) = (Inr (), w')"
    using clean_run [OF _ _ _ chain sample_full_node] sample_file unfolding file_of_def by fastforce
  from indexer_refines [OF sample_list_indexed sample_sized_view _ run] run show ?thesis by (simp add: sample_spec)
qed

end
