(* ===== verification/Chain_Recovery.thy ===== *)
theory Chain_Recovery
  imports Loop_Refinement
begin

text \<open>
  What the index holds in the end. The abstract program of \<open>Loop_Refinement\<close>, fed by nodes that deliver one chain,
  holds a prefix of that chain at every moment; so does the file, across crashes and restarts, and one undisturbed
  run against a node that has the whole chain makes it the whole chain.
\<close>

section \<open>A chain and the nodes that deliver it\<close>

definition numbered :: "chain \<Rightarrow> bool" where
  "numbered ps \<longleftrightarrow> map pair_number ps = [0..<length ps] \<and> length ps < 2 ^ 64 \<and> sized ps"

text \<open>A node whose every replay streams the chain from its start on, to a height of at least \<open>t\<close>.\<close>

definition replays_chain :: "chain_fns \<Rightarrow> chain \<Rightarrow> nat \<Rightarrow> node_view \<Rightarrow> bool" where
  "replays_chain fns ps t nv \<longleftrightarrow> nv_chain_fns nv = fns \<and> t \<le> length ps \<and>
     (\<forall>start. \<exists>items l. nv_replay_from nv start = Inr items \<and>
        concat (replay_segments items) = take l (drop (unat start) ps) \<and> t \<le> unat start + l)"

text \<open>
  Notifications of the chain. Each executed segment starts at or below the height \<open>n\<close> that was reached before; it may repeat
  blocks that were delivered already. After a lag the replay makes up for what was missed.
\<close>

inductive follows :: "chain_fns \<Rightarrow> chain \<Rightarrow> nat \<Rightarrow> (node_view \<times> notification) list \<Rightarrow> bool" for fns ps where
  follows_end: "follows fns ps n []"
| follows_executed: "nv_chain_fns nv = fns \<Longrightarrow> i \<le> n \<Longrightarrow> i + l \<le> length ps \<Longrightarrow> follows fns ps (max n (i + l)) es \<Longrightarrow>
    follows fns ps n ((nv, ChainExecuted (take l (drop i ps))) # es)"
| follows_lagged: "replays_chain fns ps t nv \<Longrightarrow> follows fns ps (max n t) es \<Longrightarrow> follows fns ps n ((nv, Lagged missed) # es)"
| follows_certificate: "follows fns ps n es \<Longrightarrow> follows fns ps n ((nv, CertificateAccepted) # es)"
| follows_output: "follows fns ps n es \<Longrightarrow> follows fns ps n ((nv, ConsensusOutputSeen) # es)"

definition delivers_chain :: "chain_fns \<Rightarrow> chain \<Rightarrow> life \<Rightarrow> bool" where
  "delivers_chain fns ps l \<longleftrightarrow> (\<exists>t. replays_chain fns ps t (li_node l) \<and> follows fns ps t (li_events l))"

section \<open>The abstract program holds a prefix of the chain\<close>

lemma number_nth: "numbered ps \<Longrightarrow> i < length ps \<Longrightarrow> unat (number_of (ps ! i)) = i"
  by (metis (no_types, lifting) numbered_def add_0 length_map nth_map nth_upt number_of_def pair_number_def)

lemma cursor_take:
  assumes "numbered ps" and "k \<le> length ps"
  shows "spec_cursor (take k ps) = (if k = 0 \<or> ps = [] then None else Some (number_of (ps ! (k - 1))))"
  using assms(2) by (cases "k = 0") (auto simp: spec_cursor_def last_conv_nth min_def)

lemma push_take:
  assumes "numbered ps" and "i < length ps" and "i \<le> k" and "k \<le> length ps"
  shows "spec_push (ps ! i) (take k ps) = take (max k (Suc i)) ps"
proof (cases "k = 0")
  case True
  with assms show ?thesis by (simp add: spec_push_def spec_index_block_def spec_cursor_def take_Suc_conv_app_nth)
next
  case False
  then have "ps \<noteq> []" "k - 1 < length ps" using assms(2,4) by auto
  with False assms(4) number_nth [OF assms(1)] have c: "spec_cursor (take k ps) = Some (number_of (ps ! (k - 1)))" "unat (number_of (ps ! (k - 1))) = k - 1"
    by (simp_all add: cursor_take [OF assms(1)])
  have "number_of (ps ! i) \<le> number_of (ps ! (k - 1)) \<longleftrightarrow> i < k"
    using False c(2) number_nth [OF assms(1,2)] by (auto simp: word_le_nat_alt)
  with c(1) assms(2-4) show ?thesis
    by (cases "i < k") (simp_all add: spec_push_def spec_index_block_def max_absorb1 max_absorb2 take_Suc_conv_app_nth)
qed

lemma push_segment:
  "numbered ps \<Longrightarrow> i \<le> k \<Longrightarrow> k \<le> length ps \<Longrightarrow> i + l \<le> length ps \<Longrightarrow>
   fold spec_push (take l (drop i ps)) (take k ps) = take (max k (i + l)) ps"
proof (induction l arbitrary: i k)
  case (Suc l)
  then have i: "i < length ps" by simp
  then have "take (Suc l) (drop i ps) = ps ! i # take l (drop (Suc i) ps)" by (simp add: Cons_nth_drop_Suc [symmetric])
  moreover have "fold spec_push (take l (drop (Suc i) ps)) (take (max k (Suc i)) ps) = take (max (max k (Suc i)) (Suc i + l)) ps"
    using Suc.prems i by (intro Suc.IH) auto
  moreover have "max (max k (Suc i)) (Suc i + l) = max k (i + Suc l)" by simp
  ultimately show ?case using push_take [OF Suc.prems(1) i Suc.prems(2,3)] by simp
qed (simp add: max_def)

lemma start_take:
  assumes "numbered ps" and "k \<le> length ps"
  shows "unat (case spec_cursor (take k ps) of None \<Rightarrow> 0 | Some c \<Rightarrow> c + 1) = k"
proof (cases "k = 0")
  case True
  then show ?thesis by (simp add: spec_cursor_def)
next
  case False
  let ?c = "number_of (ps ! (k - 1))"
  from False assms(2) number_nth [OF assms(1), of "k - 1"] have c: "unat ?c = k - 1" by simp
  have "k < 2 ^ 64" using assms by (simp add: numbered_def)
  with c False have "unat (?c + 1) = k" by (simp add: unat_word_ariths)
  moreover have "ps \<noteq> []" using False assms(2) by auto
  ultimately show ?thesis using False assms by (simp add: cursor_take)
qed

lemma catch_up_take:
  assumes "numbered ps" and "k \<le> length ps" and "replays_chain fns ps t nv"
  shows "\<exists>k'. spec_catch_up nv (take k ps) = take k' ps \<and> k \<le> k' \<and> t \<le> k' \<and> k' \<le> length ps"
proof -
  let ?start = "case spec_cursor (take k ps) of None \<Rightarrow> 0 | Some c \<Rightarrow> c + 1"
  note start = start_take [OF assms(1,2)]
  from assms(3) obtain items l where r: "nv_replay_from nv ?start = Inr items"
    "concat (replay_segments items) = take l (drop k ps)" "t \<le> k + l" "t \<le> length ps"
    unfolding replays_chain_def using start by metis
  let ?l = "min l (length ps - k)"
  have "take l (drop k ps) = take ?l (drop k ps)" by (simp add: min_def)
  with r(1,2) have "spec_catch_up nv (take k ps) = fold spec_push (take ?l (drop k ps)) (take k ps)"
    by (simp add: spec_catch_up_def spec_replay_def)
  also have "\<dots> = take (max k (k + ?l)) ps" using assms(2) by (intro push_segment [OF assms(1)]) auto
  finally show ?thesis using r(3,4) assms(2) by (intro exI [of _ "k + ?l"]) auto
qed

lemma events_take:
  assumes "numbered ps" and "follows fns ps n events" and "n \<le> k" and "k \<le> length ps"
  shows "\<exists>k'. fold spec_notification events (take k ps) = take k' ps \<and> k \<le> k' \<and> k' \<le> length ps"
  using assms(2-4)
proof (induction arbitrary: k rule: follows.induct)
  case (follows_executed nv i n l es)
  let ?k = "max k (i + l)"
  have "spec_notification (nv, ChainExecuted (take l (drop i ps))) (take k ps) = take ?k ps"
    using push_segment [OF assms(1), of i k l] follows_executed by simp
  moreover have "max n (i + l) \<le> ?k" "?k \<le> length ps" using follows_executed.prems follows_executed.hyps by auto
  from follows_executed.IH [OF this] obtain k' where "fold spec_notification es (take ?k ps) = take k' ps" "?k \<le> k'" "k' \<le> length ps"
    by blast
  ultimately show ?case by auto
next
  case (follows_lagged t nv n es missed)
  from catch_up_take [OF assms(1) follows_lagged.prems(2) follows_lagged.hyps(1)] obtain k1
    where k1: "spec_catch_up nv (take k ps) = take k1 ps" "k \<le> k1" "t \<le> k1" "k1 \<le> length ps" by blast
  moreover have "max n t \<le> k1" using follows_lagged.prems k1 by auto
  from follows_lagged.IH [OF this k1(4)] obtain k' where "fold spec_notification es (take k1 ps) = take k' ps" "k1 \<le> k'" "k' \<le> length ps"
    by blast
  ultimately show ?case by auto
qed auto

lemma spec_indexer_take:
  assumes "numbered ps" and "delivers_chain fns ps l" and "k \<le> length ps"
  shows "\<exists>k'. spec_indexer (li_node l) (li_events l) (take k ps) = take k' ps \<and> k \<le> k' \<and> k' \<le> length ps"
proof -
  from assms(2) obtain t where t: "replays_chain fns ps t (li_node l)" "follows fns ps t (li_events l)" by (auto simp: delivers_chain_def)
  from catch_up_take [OF assms(1,3) t(1)] obtain k1 where k1: "spec_catch_up (li_node l) (take k ps) = take k1 ps" "k \<le> k1" "t \<le> k1" "k1 \<le> length ps"
    by blast
  from events_take [OF assms(1) t(2) k1(3,4)] k1 show ?thesis by (auto simp: spec_indexer_def)
qed

section \<open>The file holds a prefix of the chain\<close>

lemma sized_part: "numbered ps \<Longrightarrow> set ch \<subseteq> set ps \<Longrightarrow> sized ch"
  by (auto simp: numbered_def sized_def list_all_iff)

lemma replays_chain_sized:
  assumes "numbered ps" and "replays_chain fns ps t nv"
  shows "sized_view fns nv"
  unfolding sized_view_def
proof (intro conjI allI impI)
  show "nv_chain_fns nv = fns" using assms(2) by (simp add: replays_chain_def)
  fix start items
  assume "nv_replay_from nv start = Inr items"
  moreover obtain items' l where "nv_replay_from nv start = Inr items'" "concat (replay_segments items') = take l (drop (unat start) ps)"
    using assms(2) unfolding replays_chain_def by blast
  ultimately have c: "concat (replay_segments items) = take l (drop (unat start) ps)" by simp
  have "set ch \<subseteq> set ps" if "ch \<in> set (replay_segments items)" for ch
    using that arg_cong [OF c, of set] by (auto dest!: in_set_takeD in_set_dropD)
  then show "list_all sized (replay_segments items)" using sized_part [OF assms(1)] by (auto simp: list_all_iff)
qed

lemma follows_sized:
  assumes "numbered ps" and "follows fns ps n events"
  shows "list_all (sized_event fns) events"
  using assms(2)
proof (induction rule: follows.induct)
  case (follows_executed nv i n l es)
  have "sized (take l (drop i ps))" by (rule sized_part [OF assms(1)]) (auto dest!: in_set_takeD in_set_dropD)
  with follows_executed show ?case by (simp add: sized_event_def)
qed (simp_all add: sized_event_def replays_chain_sized [OF assms(1)])

definition holds :: "chain_fns \<Rightarrow> string \<Rightarrow> chain \<Rightarrow> nat \<Rightarrow> db \<Rightarrow> bool" where
  "holds fns s ps k d \<longleftrightarrow> k \<le> length ps \<and> represents fns (take k ps) d \<and> file_of s d"

lemma holds_indexed: "holds fns s ps k (cn_committed c) \<Longrightarrow> indexed fns s (take k ps) (new_process budget c)"
  by (simp add: holds_def indexed_def new_process_def)

lemma holds_life:
  assumes "numbered ps" and "holds fns s ps k (cn_committed c)" and "delivers_chain fns ps l"
  shows "\<exists>k'. k \<le> k' \<and> holds fns s ps k' (cn_committed (live_once l c))"
proof -
  let ?m = "indexer_exex (li_chain_id l) (li_read_pool l) (li_node l) (li_events l)"
  obtain r w where run: "?m (new_process (li_budget l) c) = (r, w)" by fastforce
  then have w: "cn_committed (live_once l c) = wo_db w" by (simp add: live_once_def)
  from assms(3) obtain t where t: "replays_chain fns ps t (li_node l)" "follows fns ps t (li_events l)" by (auto simp: delivers_chain_def)
  note ref = refines_indexer [OF replays_chain_sized [OF assms(1) t(1)] follows_sized [OF assms(1) t(2)]]
  note start = holds_indexed [OF assms(2), of "li_budget l"]
  have k: "k \<le> length ps" using assms(2) by (simp add: holds_def)
  from spec_indexer_take [OF assms(1,3) k] obtain k'
    where k': "spec_indexer (li_node l) (li_events l) (take k ps) = take k' ps" "k \<le> k'" "k' \<le> length ps" by blast
  from index_growth.refines_between [OF ref start run] k'(1) obtain b
    where b: "prefix (take k ps) b" "prefix b (take k' ps)" "indexed fns s b w" by auto
  have "prefix b ps" using b(2) take_is_prefix prefix_order.trans by blast
  then have "b = take (length b) ps" "length b \<le> length ps" by (auto simp: prefix_def)
  moreover have "k \<le> length b" using prefix_length_le [OF b(1)] k by simp
  ultimately show ?thesis using b(3) by (auto simp: w holds_def indexed_def intro!: exI [of _ "length b"])
qed

lemma holds_lives:
  "numbered ps \<Longrightarrow> list_all (delivers_chain fns ps) ls \<Longrightarrow> holds fns s ps k (cn_committed c) \<Longrightarrow>
   \<exists>k'. k \<le> k' \<and> holds fns s ps k' (cn_committed (fold live_once ls c))"
proof (induction ls arbitrary: k c)
  case (Cons l ls)
  then obtain k1 where "k \<le> k1" "holds fns s ps k1 (cn_committed (live_once l c))" using holds_life by fastforce
  moreover from Cons.IH [OF Cons.prems(1) _ this(2)] Cons.prems(2) obtain k2 where "k1 \<le> k2" "holds fns s ps k2 (cn_committed (fold live_once ls (live_once l c)))"
    by auto
  ultimately show ?case by (auto intro: exI [of _ k2])
qed auto

section \<open>The undisturbed run\<close>

lemma full_node_chain:
  assumes "full_node nv ps tip" and "unat tip < 2 ^ 64 - 1" and "nv_chain_fns nv = fns"
  shows "numbered ps" and "replays_chain fns ps (length ps) nv" and "length ps = Suc (unat tip)"
proof -
  have m: "map pair_number ps = [0..<Suc (unat tip)]" and small: "list_all small_block ps"
    and replay: "nv_replay_from nv start = Inr (map (\<lambda>p. Inr (ChainExecuted [p])) (drop (unat start) ps))" for start
    using assms(1) unfolding full_node_def by blast+
  from arg_cong [OF m, of length] show len: "length ps = Suc (unat tip)" by simp
  have "small_block p \<Longrightarrow> block_sizes_ok (fst p) (snd p)" for p by (fastforce simp: small_block_def block_sizes_ok_def list_all_iff)
  with small have "sized ps" by (simp add: sized_def list_all_iff)
  with m len assms(2) show "numbered ps" by (simp add: numbered_def)
  show "replays_chain fns ps (length ps) nv"
    using assms(3) by (auto simp: replays_chain_def replay replay_segments_singletons intro!: exI [of _ "length ps"])
qed

lemma holds_next:
  assumes "numbered ps" and "holds fns s ps k d"
  shows "next_block d = k"
proof -
  have k: "k \<le> length ps" and c: "cursor_of d = spec_cursor (take k ps)" using assms(2) by (simp_all add: holds_def represents_def)
  show ?thesis
  proof (cases "k = 0")
    case False
    with k have "ps \<noteq> []" "k - 1 < length ps" by auto
    with number_nth [OF assms(1)] False show ?thesis by (simp add: next_block_def c cursor_take [OF assms(1) k])
  qed (simp add: next_block_def c spec_cursor_def)
qed

lemma undisturbed_run:
  assumes "holds fns s ps k (cn_committed c)" and "parse_u64 s = Some chain_id"
    and "full_node nv ps tip" and "unat tip < 2 ^ 64 - 1" and "nv_chain_fns nv = fns"
  shows "\<exists>w. indexer_exex chain_id (Inr ()) nv [] (new_process None c) = (Inr (), w) \<and> represents fns ps (wo_db w)"
proof -
  note ps = full_node_chain [OF assms(3-5)]
  have k: "k \<le> length ps" and s: "file_of s (cn_committed c)" using assms(1) by (simp_all add: holds_def)
  have "next_block (cn_committed c) \<le> Suc (unat tip)" using holds_next [OF ps(1) assms(1)] k ps(3) by simp
  with s obtain w where run: "indexer_exex chain_id (Inr ()) nv [] (new_process None c) = (Inr (), w)"
    using clean_run [OF _ _ _ assms(2,3) _ assms(4)] unfolding file_of_def by blast
  from catch_up_take [OF ps(1) k ps(2)] have "spec_indexer nv [] (take k ps) = ps" by (auto simp: spec_indexer_def)
  with refines_Inr [OF refines_indexer [OF replays_chain_sized [OF ps(1,2)], of "[]"] holds_indexed [OF assms(1)] run]
  show ?thesis using run by (simp add: indexed_def)
qed

section \<open>The property\<close>

text \<open>C6: the index becomes the chain. Take a file of this chain that represents its first few blocks, perhaps none. After any
  number of processes on it, each stopped at any statement or after any notification and each fed by nodes that
  deliver the chain (replays that stream it from their start, notified segments that begin where the chain was delivered
  before or below, lags in between), the file represents some first blocks of the chain, never fewer than before;
  and one undisturbed run against a node that has the whole chain then succeeds and leaves a file that represents
  exactly that chain.\<close>

theorem index_becomes_the_chain:
  assumes "represents fns (take k ps) (cn_committed c)" and "k \<le> length ps" and "file_of s (cn_committed c)"
    and "parse_u64 s = Some chain_id" and "list_all (delivers_chain fns ps) ls"
    and "full_node nv ps tip" and "unat tip < 2 ^ 64 - 1" and "nv_chain_fns nv = fns"
  shows "(\<exists>k'. k \<le> k' \<and> k' \<le> length ps \<and> represents fns (take k' ps) (cn_committed (fold live_once ls c))) \<and>
    (\<exists>w. indexer_exex chain_id (Inr ()) nv [] (new_process None (fold live_once ls c)) = (Inr (), w) \<and>
       represents fns ps (cn_committed (wo_conn w)))"
proof -
  have "holds fns s ps k (cn_committed c)" using assms(1-3) by (simp add: holds_def)
  from holds_lives [OF full_node_chain(1) [OF assms(6-8)] assms(5) this]
  obtain k' where "k \<le> k'" "holds fns s ps k' (cn_committed (fold live_once ls c))" by blast
  with undisturbed_run [OF _ assms(4,6-8)] show ?thesis unfolding holds_def by blast
qed

text \<open>Two processes on an empty file, one stopped at its fortieth statement, one that is notified of the second block again.\<close>

lemma index_becomes_the_chain_witness:
  "\<exists>w. indexer_exex 2017 (Inr ()) sample_node []
       (new_process None (fold live_once [sample_life (Some 40) [], sample_life None [(sample_node, ChainExecuted (take 1 (drop 1 sample_chain)))]] sample_conn)) = (Inr (), w) \<and>
     represents sample_fns sample_chain (cn_committed (wo_conn w))"
proof -
  have chain: "parse_u64 ''2017'' = Some 2017"
    by (simp add: parse_u64_def parse_uint_def is_ascii_digit_def dec_value_def Let_def)
  have fns: "nv_chain_fns sample_node = sample_fns" by (simp add: sample_node_def)
  have tip: "unat (1 :: u64) < 2 ^ 64 - 1" by simp
  have "length sample_chain = 2" by (simp add: sample_chain_def)
  with full_node_chain(2) [OF sample_full_node tip fns] have r: "replays_chain sample_fns sample_chain 2 sample_node" by simp
  have "follows sample_fns sample_chain 2 [(sample_node, ChainExecuted (take 1 (drop 1 sample_chain)))]"
    by (rule follows_executed [OF fns]) (simp_all add: sample_chain_def follows_end)
  then have "list_all (delivers_chain sample_fns sample_chain)
      [sample_life (Some 40) [], sample_life None [(sample_node, ChainExecuted (take 1 (drop 1 sample_chain)))]]"
    using r by (auto simp: delivers_chain_def sample_life_def intro: follows_end)
  moreover have "represents sample_fns (take 0 sample_chain) (cn_committed sample_conn)"
    using sample_list_indexed [of None] by (simp add: indexed_def new_process_def)
  ultimately show ?thesis
    using index_becomes_the_chain [OF _ le0 sample_file chain _ sample_full_node tip fns] by blast
qed

end
