(* ===== verification/Read_Seam.thy ===== *)
theory Read_Seam
  imports Node_Env Storage_Reads_Correct
begin

text \<open>
  \<open>NodeReader::read\<close> of \<open>src/node_reads.rs\<close> with its concurrency: callers queue for one of the permits, a caller that was
  given one spawns its closure on the blocking pool, the closure sends its result over a one-shot channel and gives the
  permit back when it ends. A caller may disappear at any moment, and a closure may panic. \<open>node_read\<close> is what a
  caller that stays gets back from it.
\<close>

section \<open>Counted permits\<close>

text \<open>The contract of a semaphore whose permits every step either keeps or hands over; both pools satisfy it.\<close>

locale counted_permits =
  fixes step :: "'s \<Rightarrow> 's \<Rightarrow> bool" and free :: "'s \<Rightarrow> nat" and held :: "'s \<Rightarrow> nat"
  assumes conserved: "step s s' \<Longrightarrow> free s' + held s' = free s + held s"
begin

lemma permits_conserved: "step\<^sup>*\<^sup>* s s' \<Longrightarrow> free s' + held s' = free s + held s"
  by (induction rule: rtranclp_induct) (auto simp: conserved)

lemma permits_bound: "step\<^sup>*\<^sup>* s s' \<Longrightarrow> free s + held s = n \<Longrightarrow> held s' \<le> n \<and> (held s' = n \<longleftrightarrow> free s' = 0)"
  using permits_conserved [of s s'] by auto

end

interpretation pool_counted: counted_permits pool_step pool_permits
    "\<lambda>p. length (pool_admitted p) + length (pool_running p) + length (pool_returning p)"
proof
  fix p p'
  assume "pool_step p p'"
  then show "pool_permits p' + (length (pool_admitted p') + length (pool_running p') + length (pool_returning p')) =
      pool_permits p + (length (pool_admitted p) + length (pool_running p) + length (pool_returning p))"
    by cases (auto dest!: length_remove1_Suc)
qed

section \<open>The seam\<close>

text \<open>
  The free permits; the queue of callers that wait for one; the running closures; the closures that have ended but not yet
  released; the results that are in their channels; the callers that are gone; the closures that panicked; and
  what the callers got. A request is known by a number.
\<close>

record 'a seam =
  se_permits :: nat
  se_waiting :: "nat list"
  se_running :: "nat list"
  se_ending :: "nat list"
  se_sent :: "(nat \<times> (report + 'a)) list"
  se_gone :: "nat set"
  se_panicked :: "nat set"
  se_answers :: "(nat \<times> (report + 'a)) list"

definition seam_open :: "'a seam" where
  "seam_open = \<lparr>se_permits = MAX_CONCURRENT_NODE_READS, se_waiting = [], se_running = [], se_ending = [], se_sent = [],
     se_gone = {}, se_panicked = {}, se_answers = []\<rparr>"

text \<open>
  \<open>job r\<close> is what the closure of request \<open>r\<close> returns, \<open>dropped\<close> the error of a channel whose sender is gone. A caller
  acquires its permit before it spawns, so one that disappears while it waits never held one; the permit of one that
  disappears later stays with the closure. A send to a caller that is gone is ignored.
\<close>

inductive seam_step :: "(nat \<Rightarrow> report + 'a) \<Rightarrow> report \<Rightarrow> 'a seam \<Rightarrow> 'a seam \<Rightarrow> bool" for job dropped where
  call: "r \<notin> set (se_waiting s @ se_running s @ se_ending s @ map fst (se_sent s) @ map fst (se_answers s)) \<union> se_gone s \<Longrightarrow>
    seam_step job dropped s (s\<lparr>se_waiting := se_waiting s @ [r]\<rparr>)"
| admit: "se_waiting s = r # rest \<Longrightarrow> se_permits s = Suc n \<Longrightarrow>
    seam_step job dropped s (s\<lparr>se_waiting := rest, se_permits := n, se_running := r # se_running s\<rparr>)"
| give_up: "r \<in> set (se_waiting s) \<Longrightarrow>
    seam_step job dropped s (s\<lparr>se_waiting := remove1 r (se_waiting s), se_gone := insert r (se_gone s)\<rparr>)"
| disconnect: "r \<in> set (se_running s) \<union> fst ` set (se_sent s) \<Longrightarrow>
    seam_step job dropped s (s\<lparr>se_gone := insert r (se_gone s)\<rparr>)"
| finish: "r \<in> set (se_running s) \<Longrightarrow>
    seam_step job dropped s (s\<lparr>se_running := remove1 r (se_running s), se_ending := r # se_ending s,
      se_sent := (if r \<in> se_gone s then se_sent s else (r, job r) # se_sent s)\<rparr>)"
| panic: "r \<in> set (se_running s) \<Longrightarrow>
    seam_step job dropped s (s\<lparr>se_running := remove1 r (se_running s), se_ending := r # se_ending s,
      se_panicked := insert r (se_panicked s),
      se_sent := (if r \<in> se_gone s then se_sent s else (r, Inl dropped) # se_sent s)\<rparr>)"
| release: "r \<in> set (se_ending s) \<Longrightarrow>
    seam_step job dropped s (s\<lparr>se_ending := remove1 r (se_ending s), se_permits := Suc (se_permits s)\<rparr>)"
| receive: "(r, x) \<in> set (se_sent s) \<Longrightarrow> r \<notin> se_gone s \<Longrightarrow>
    seam_step job dropped s (s\<lparr>se_sent := remove1 (r, x) (se_sent s), se_answers := se_answers s @ [(r, x)]\<rparr>)"

interpretation seam_counted: counted_permits "seam_step job dropped" se_permits "\<lambda>s. length (se_running s) + length (se_ending s)"
    for job dropped
proof
  fix s s' :: "'a seam"
  assume "seam_step job dropped s s'"
  then show "se_permits s' + (length (se_running s') + length (se_ending s')) = se_permits s + (length (se_running s) + length (se_ending s))"
    by cases (auto dest!: length_remove1_Suc)
qed

section \<open>Answers\<close>

definition answer_of :: "(nat \<Rightarrow> report + 'a) \<Rightarrow> report \<Rightarrow> nat set \<Rightarrow> nat \<times> (report + 'a) \<Rightarrow> bool" where
  "answer_of job dropped panicked a \<longleftrightarrow> snd a = (if fst a \<in> panicked then Inl dropped else job (fst a))"

text \<open>A request is in one place, and what is sent or answered is the outcome of its closure.\<close>

definition seam_ok :: "(nat \<Rightarrow> report + 'a) \<Rightarrow> report \<Rightarrow> 'a seam \<Rightarrow> bool" where
  "seam_ok job dropped s \<longleftrightarrow>
     distinct (se_waiting s @ se_running s @ map fst (se_sent s) @ map fst (se_answers s)) \<and>
     se_panicked s \<inter> set (se_waiting s @ se_running s) = {} \<and>
     se_panicked s \<subseteq> set (map fst (se_sent s @ se_answers s)) \<union> se_gone s \<and>
     list_all (answer_of job dropped (se_panicked s)) (se_sent s @ se_answers s)"

lemma map_fst_remove1: "distinct (map fst xs) \<Longrightarrow> (r, x) \<in> set xs \<Longrightarrow> map fst (remove1 (r, x) xs) = remove1 r (map fst xs)"
  by (induction xs) (auto simp: image_iff)

lemma answer_of_insert: "answer_of job dropped P a \<Longrightarrow> fst a \<noteq> r \<Longrightarrow> answer_of job dropped (insert r P) a"
  by (simp add: answer_of_def)

lemma seam_ok_step: "seam_step job dropped s s' \<Longrightarrow> seam_ok job dropped s \<Longrightarrow> seam_ok job dropped s'"
proof (induction rule: seam_step.cases)
  case (panic r s)
  then have "r \<notin> fst ` set (se_sent s @ se_answers s)" by (auto simp: seam_ok_def)
  then have "list_all (answer_of job dropped (insert r (se_panicked s))) (se_sent s @ se_answers s)"
    using panic by (auto simp: seam_ok_def list_all_iff image_iff intro!: answer_of_insert)
  with panic show ?case
    by (auto simp: seam_ok_def answer_of_def dest: notin_set_remove1)
next
  case (receive r x s)
  then have d: "distinct (map fst (se_sent s))" and f: "map fst (remove1 (r, x) (se_sent s)) = remove1 r (map fst (se_sent s))"
    using map_fst_remove1 by (auto simp: seam_ok_def)
  have "set (remove1 (r, x) (se_sent s)) \<subseteq> set (se_sent s)" by (rule set_remove1_subset)
  moreover have "set (map fst (remove1 (r, x) (se_sent s))) = fst ` set (se_sent s) - {r}" unfolding f using d by simp
  moreover have "r \<in> fst ` set (se_sent s)" using receive by force
  ultimately show ?case using receive d f by (auto simp: seam_ok_def list_all_iff distinct_remove1)
qed (auto simp: seam_ok_def answer_of_def distinct_remove1 dest: notin_set_remove1)

lemma seam_ok_reachable: "(seam_step job dropped)\<^sup>*\<^sup>* seam_open s \<Longrightarrow> seam_ok job dropped s"
proof (induction rule: rtranclp_induct)
  case base
  show ?case by (simp add: seam_ok_def seam_open_def)
next
  case (step s s')
  then show ?case by (blast intro: seam_ok_step)
qed

section \<open>Draining\<close>

text \<open>The requests that somebody waits for or has been answered.\<close>

definition owed :: "'a seam \<Rightarrow> nat set" where
  "owed s = (set (se_waiting s @ se_running s @ map fst (se_sent s)) - se_gone s) \<union> fst ` set (se_answers s)"

definition drained :: "'a seam \<Rightarrow> bool" where
  "drained s \<longleftrightarrow> se_waiting s = [] \<and> se_running s = [] \<and> se_ending s = [] \<and> fst ` set (se_sent s) \<subseteq> se_gone s"

definition seam_work :: "'a seam \<Rightarrow> nat" where
  "seam_work s = 4 * length (se_waiting s) + 3 * length (se_running s) + length (se_ending s)
     + length (filter (\<lambda>a. fst a \<notin> se_gone s) (se_sent s))"

text \<open>While it is not drained, the seam has a step of its own that comes closer to it.\<close>

lemma seam_progress:
  assumes "\<not> drained s" and "se_permits s + (length (se_running s) + length (se_ending s)) = MAX_CONCURRENT_NODE_READS"
  shows "\<exists>s'. seam_step job dropped s s' \<and> seam_work s' < seam_work s \<and> owed s' = owed s \<and> se_gone s' = se_gone s"
proof -
  consider (sent) r x where "(r, x) \<in> set (se_sent s)" "r \<notin> se_gone s"
    | (ending) r where "r \<in> set (se_ending s)"
    | (running) r where "r \<in> set (se_running s)"
    | (waiting) r rest where "se_running s = []" "se_ending s = []" "se_waiting s = r # rest"
    using assms(1) unfolding drained_def by (cases "se_waiting s"; cases "se_running s"; cases "se_ending s") force+
  then show ?thesis
  proof cases
    case sent
    let ?s = "s\<lparr>se_sent := remove1 (r, x) (se_sent s), se_answers := se_answers s @ [(r, x)]\<rparr>"
    have "length (filter (\<lambda>a. fst a \<notin> se_gone s) (se_sent s)) =
        Suc (length (filter (\<lambda>a. fst a \<notin> se_gone s) (remove1 (r, x) (se_sent s))))"
      using sent by (simp add: filter_remove1 length_remove1_Suc)
    then have "seam_work ?s < seam_work s" by (simp add: seam_work_def)
    moreover have "insert (r, x) (set (remove1 (r, x) (se_sent s))) = set (se_sent s)"
      using sent set_remove1_subset [of "(r, x)" "se_sent s"] in_set_remove1 [of _ "(r, x)" "se_sent s"] by blast
    then have "fst ` set (se_sent s) = insert r (fst ` set (remove1 (r, x) (se_sent s)))" by (metis fst_conv image_insert)
    then have "owed ?s = owed s" using sent(2) by (simp add: owed_def) blast
    ultimately show ?thesis using seam_step.receive [OF sent] by fastforce
  next
    case ending
    from seam_step.release [OF this] length_remove1_Suc [OF this] show ?thesis
      by (fastforce simp: seam_work_def owed_def)
  next
    case running
    let ?sent = "if r \<in> se_gone s then se_sent s else (r, job r) # se_sent s"
    let ?s = "s\<lparr>se_running := remove1 r (se_running s), se_ending := r # se_ending s, se_sent := ?sent\<rparr>"
    have "insert r (set (remove1 r (se_running s))) = set (se_running s)"
      using running set_remove1_subset [of r "se_running s"] in_set_remove1 [of _ r "se_running s"] by blast
    then have "owed ?s = owed s" by (auto simp: owed_def)
    moreover have "seam_work ?s < seam_work s" using length_remove1_Suc [OF running] by (simp add: seam_work_def)
    ultimately show ?thesis using seam_step.finish [OF running] by fastforce
  next
    case waiting
    let ?s = "s\<lparr>se_waiting := rest, se_permits := 63, se_running := [r]\<rparr>"
    have "se_permits s = Suc 63" using waiting(1,2) assms(2) by (simp add: MAX_CONCURRENT_NODE_READS_def)
    from seam_step.admit [OF waiting(3) this] waiting show ?thesis
      by (intro exI [of _ ?s]) (auto simp: seam_work_def owed_def)
  qed
qed

lemma seam_drains:
  assumes "se_permits s + (length (se_running s) + length (se_ending s)) = MAX_CONCURRENT_NODE_READS"
  shows "\<exists>s'. (seam_step job dropped)\<^sup>*\<^sup>* s s' \<and> drained s' \<and> owed s' = owed s"
  using assms
proof (induction "seam_work s" arbitrary: s rule: less_induct)
  case less
  show ?case
  proof (cases "drained s")
    case False
    from seam_progress [OF False less.prems] obtain s1
      where s1: "seam_step job dropped s s1" "seam_work s1 < seam_work s" "owed s1 = owed s" by blast
    from seam_counted.conserved [OF s1(1)] less.prems less.hyps [OF s1(2)] obtain s'
      where "(seam_step job dropped)\<^sup>*\<^sup>* s1 s'" "drained s'" "owed s' = owed s1" by auto
    with s1 show ?thesis by (metis converse_rtranclp_into_rtranclp)
  qed auto
qed

section \<open>The property\<close>

text \<open>C25: \<open>NodeReader::read\<close> is bounded and loses nothing. In every reachable state, whoever disconnected or panicked, at
  most \<open>MAX_CONCURRENT_NODE_READS\<close> closures hold a permit; every answer is the one that \<open>node_read\<close> gives for the request's
  closure, or the error of the dropped channel when the closure panicked, and no request is answered twice; and no
  state is stuck or rejects: from it the seam can, by steps of its own, hand back every permit, and everybody who
  still waited for a result then has one.\<close>

theorem node_reads_bounded:
  assumes "(seam_step (\<lambda>r. node_read (closure r) reader) dropped)\<^sup>*\<^sup>* seam_open s"
  shows "length (se_running s) + length (se_ending s) \<le> MAX_CONCURRENT_NODE_READS \<and>
    (\<forall>a \<in> set (se_answers s). snd a = (if fst a \<in> se_panicked s then Inl dropped else node_read (closure (fst a)) reader)) \<and>
    distinct (map fst (se_answers s)) \<and>
    (\<exists>s'. (seam_step (\<lambda>r. node_read (closure r) reader) dropped)\<^sup>*\<^sup>* s s' \<and> se_permits s' = MAX_CONCURRENT_NODE_READS \<and>
       (\<forall>r. (r \<in> set (se_waiting s) \<or> r \<in> set (se_running s) \<or> r \<in> fst ` set (se_sent s)) \<longrightarrow> r \<notin> se_gone s \<longrightarrow>
          r \<in> fst ` set (se_answers s')))"
proof -
  let ?job = "\<lambda>r. node_read (closure r) reader"
  have n: "se_permits s + (length (se_running s) + length (se_ending s)) = MAX_CONCURRENT_NODE_READS"
    using seam_counted.permits_conserved [OF assms] by (simp add: seam_open_def)
  have ok: "seam_ok ?job dropped s" by (rule seam_ok_reachable [OF assms])
  obtain s' where s': "(seam_step ?job dropped)\<^sup>*\<^sup>* s s'" "drained s'" "owed s' = owed s" using seam_drains [OF n] by blast
  have "se_permits s' = MAX_CONCURRENT_NODE_READS"
    using seam_counted.permits_conserved [OF s'(1)] s'(2) n by (simp add: drained_def)
  moreover have "owed s' = fst ` set (se_answers s')" using s'(2) by (auto simp: owed_def drained_def)
  then have "owed s \<subseteq> fst ` set (se_answers s')" using s'(3) by simp
  then have "r \<in> fst ` set (se_answers s')"
    if "r \<in> set (se_waiting s) \<or> r \<in> set (se_running s) \<or> r \<in> fst ` set (se_sent s)" "r \<notin> se_gone s" for r
    using that by (auto simp: owed_def)
  moreover have "\<forall>a \<in> set (se_answers s). snd a = (if fst a \<in> se_panicked s then Inl dropped else node_read (closure (fst a)) reader)"
    using ok by (simp add: seam_ok_def list_all_iff answer_of_def)
  moreover have "distinct (map fst (se_answers s))" using ok by (simp add: seam_ok_def)
  ultimately show ?thesis using s'(1) n by auto
qed

text \<open>A caller that disconnects while its closure runs, beside one that stays: the permits come back, the second is answered.\<close>

lemma node_reads_bounded_witness:
  "\<forall>reader dropped. \<exists>s'. (seam_step (\<lambda>r. node_read (\<lambda>_. Inr r) reader) dropped)\<^sup>*\<^sup>*
       (seam_open\<lparr>se_permits := 63, se_waiting := [2], se_running := [1], se_gone := {1}\<rparr>) s' \<and>
     se_permits s' = 64 \<and> 2 \<in> fst ` set (se_answers s')"
proof (intro allI)
  fix reader dropped
  let ?step = "seam_step (\<lambda>r. node_read (\<lambda>_. Inr r) reader) dropped"
  let ?s1 = "seam_open\<lparr>se_waiting := [1]\<rparr> :: nat seam"
  let ?s2 = "seam_open\<lparr>se_permits := 63, se_running := [1]\<rparr> :: nat seam"
  let ?s3 = "seam_open\<lparr>se_permits := 63, se_running := [1], se_gone := {1}\<rparr> :: nat seam"
  let ?s4 = "seam_open\<lparr>se_permits := 63, se_waiting := [2], se_running := [1], se_gone := {1}\<rparr> :: nat seam"
  have "?step seam_open ?s1"
    using seam_step.call [of 1 "seam_open :: nat seam"] by (simp add: seam_open_def)
  moreover have "?step ?s1 ?s2"
    using seam_step.admit [of ?s1 1 "[]" 63] by (simp add: seam_open_def MAX_CONCURRENT_NODE_READS_def)
  moreover have "?step ?s2 ?s3"
    using seam_step.disconnect [of 1 ?s2] by (simp add: seam_open_def)
  moreover have "?step ?s3 ?s4"
    using seam_step.call [of 2 ?s3] by (simp add: seam_open_def)
  ultimately have "?step\<^sup>*\<^sup>* seam_open ?s4" by (meson converse_rtranclp_into_rtranclp rtranclp.rtrancl_refl)
  from node_reads_bounded [OF this] show "\<exists>s'. ?step\<^sup>*\<^sup>* ?s4 s' \<and> se_permits s' = 64 \<and> 2 \<in> fst ` set (se_answers s')"
    by (auto simp: seam_open_def MAX_CONCURRENT_NODE_READS_def)
qed

end
