(* ===== verification/Source_Tests.thy ===== *)
theory Source_Tests
  imports Api Extract_Correct
begin

text \<open>
  The repository's own unit tests, run on the model: each definition is a test function of the sources, its assertions
  joined, and its lemma evaluates it. They check the model against what the authors expect of the code, on
  inputs that they chose. Left out are the tests of what is a parameter here (\<open>keccak256\<close>, the ABI decoders, the JSON
  rendering, the fixtures of the consensus output) and the storage tests, whose properties are proved for all inputs in
  \<open>Storage_Properties\<close>.
\<close>

unbundle bit_operations_syntax

section \<open>Status\<close>

definition last_indexed_distinguishes_none_from_block_zero :: bool where
  "last_indexed_distinguishes_none_from_block_zero =
     (let status = default_status; zero = set_last_indexed 0 status
      in status_last_indexed status = None \<and> status_last_indexed zero = Some 0 \<and>
         status_last_indexed (set_last_indexed 3 (set_last_indexed 5 zero)) = Some 5)"

lemma test_last_indexed: last_indexed_distinguishes_none_from_block_zero
  by (simp add: last_indexed_distinguishes_none_from_block_zero_def default_status_def status_last_indexed_def set_last_indexed_def
      saturating_add_def Let_def)

definition lag_and_live_guard :: bool where
  "lag_and_live_guard =
     (let status = set_last_indexed 7 (set_node_tip 10 default_status);
          (during, after) = live_guarded (set_live True) (set_live False) (\<lambda>s. (Inr (live s), s)) status
      in lag status = 3 \<and> \<not> live status \<and> during = Inr True \<and> \<not> live after)"

lemma test_lag_and_live_guard: lag_and_live_guard
  by (simp add: lag_and_live_guard_def default_status_def status_last_indexed_def set_last_indexed_def set_node_tip_def lag_def node_tip_def
      live_def set_live_def live_guarded_def saturating_add_def saturating_sub_def Let_def)

section \<open>Node reads\<close>

definition gas_used_from_cumulative :: "u64 list \<Rightarrow> u64 list" where
  "gas_used_from_cumulative cumulative =
     (let receipts = map (\<lambda>g. \<lparr>rc_success = True, rc_cumulative_gas_used = g, rc_logs = []\<rparr>) cumulative
      in map (own_gas_used receipts) [0..<length receipts])"

definition gas_cumulative_diff_vectors :: bool where
  "gas_cumulative_diff_vectors \<longleftrightarrow>
     gas_used_from_cumulative [21000, 74000, 74100] = [21000, 53000, 100] \<and>
     gas_used_from_cumulative [] = [] \<and> gas_used_from_cumulative [42000] = [42000]"

lemma test_gas_cumulative: gas_cumulative_diff_vectors
  by code_simp

definition ptr :: "u64 \<Rightarrow> u64 \<Rightarrow> tx_pointer" where
  "ptr block_number tx_index = \<lparr>tp_block_number = block_number, tp_tx_index = tx_index\<rparr>"

definition distinct_blocks_preserves_first_seen_order :: bool where
  "distinct_blocks_preserves_first_seen_order \<longleftrightarrow>
     distinct_blocks [ptr 9 1, ptr 9 0, ptr 4 2, ptr 9 3, ptr 2 0, ptr 4 0] = [9, 4, 2] \<and> distinct_blocks [] = []"

lemma test_distinct_blocks: distinct_blocks_preserves_first_seen_order
  by code_simp

definition desc_page_bounds_arithmetic :: bool where
  "desc_page_bounds_arithmetic \<longleftrightarrow>
     desc_page_bounds 100 0 25 = Some (75, 99) \<and> desc_page_bounds 100 1 25 = Some (50, 74) \<and>
     desc_page_bounds 10 0 25 = Some (0, 9) \<and> desc_page_bounds 10 1 25 = None \<and> desc_page_bounds 0 0 25 = None \<and>
     desc_page_items 3 0 25 = [2, 1, 0] \<and> desc_page_items 3 1 25 = [] \<and>
     desc_page_items 50 1 25 = rev (map of_nat [0..<25])"

lemma test_desc_page_bounds: desc_page_bounds_arithmetic
  by (simp add: desc_page_bounds_arithmetic_def desc_page_items_def desc_page_bounds_def checked_mul_def saturating_sub_def upt_rec Let_def)

definition consensus_page_numbers_are_one_based_newest_first :: bool where
  "consensus_page_numbers_are_one_based_newest_first \<longleftrightarrow>
     consensus_page_numbers 5 0 2 = [5, 4] \<and> consensus_page_numbers 5 1 2 = [3, 2] \<and>
     consensus_page_numbers 5 2 2 = [1] \<and> consensus_page_numbers 5 3 2 = [] \<and>
     consensus_page_numbers 0 0 25 = [] \<and> consensus_page_numbers 1 0 25 = [1] \<and>
     slice_get (consensus_page_numbers 100 0 25) 0 = Some 100 \<and> length (consensus_page_numbers 100 0 25) = 25"

lemma test_consensus_page_numbers: consensus_page_numbers_are_one_based_newest_first
  by (simp add: consensus_page_numbers_are_one_based_newest_first_def consensus_page_numbers_def desc_page_items_def desc_page_bounds_def
      checked_mul_def saturating_sub_def slice_get_def upt_rec Let_def)

definition consensus_number_bounds_exclude_anchor_and_future :: bool where
  "consensus_number_bounds_exclude_anchor_and_future \<longleftrightarrow>
     \<not> consensus_number_stored 0 10 \<and> consensus_number_stored 1 10 \<and> consensus_number_stored 10 10 \<and>
     \<not> consensus_number_stored 11 10 \<and> \<not> consensus_number_stored 1 0"

lemma test_consensus_number_bounds: consensus_number_bounds_exclude_anchor_and_future
  by code_simp

definition token_metadata_any_decoded :: bool where
  "token_metadata_any_decoded \<longleftrightarrow>
     \<not> any_decoded \<lparr>md_name = None, md_symbol = None, md_decimals = None\<rparr> \<and>
     any_decoded \<lparr>md_name = None, md_symbol = Some ''TOK'', md_decimals = None\<rparr> \<and>
     any_decoded \<lparr>md_name = None, md_symbol = None, md_decimals = Some 0\<rparr>"

lemma test_any_decoded: token_metadata_any_decoded
  by code_simp

section \<open>API queries\<close>

lemma char_is: "c = char_of (n :: nat) \<longleftrightarrow> of_char c = take_bit 8 n"
  by (metis char_of_eq_iff)

lemmas eval_tx_type = parse_tx_type_def trim_id TX_TYPE_NAMES_def eq_ignore_ascii_case_def ascii_lower_def is_ascii_digit_def
  tx_type_name_def slice_get_def char_is Let_def

definition test_txs_query :: "string option \<Rightarrow> txs_query" where
  "test_txs_query tx_type = \<lparr>tq_page = None, tq_per_page = None, tq_tx_type = tx_type\<rparr>"

definition txs_query_type_filter :: bool where
  "txs_query_type_filter \<longleftrightarrow>
     query_tx_type (test_txs_query None) = Inr None \<and>
     query_tx_type (test_txs_query (Some ''EIP1559'')) = Inr (Some 2) \<and>
     query_tx_type (test_txs_query (Some ''0'')) = Inr (Some 0) \<and>
     (case query_tx_type (test_txs_query (Some ''blob'')) of
        Inl (BadRequest message) \<Rightarrow> strip_prefix ''unknown tx type: blob;'' message \<noteq> None
      | _ \<Rightarrow> False)"

lemma test_type_filter: txs_query_type_filter
  by (simp add: txs_query_type_filter_def test_txs_query_def query_tx_type_def eval_tx_type)

definition parse_number_messages :: bool where
  "parse_number_messages \<longleftrightarrow>
     parse_number ''42'' ''block number'' = Inr 42 \<and>
     parse_number ''-1'' ''epoch number'' = Inl (BadRequest ''invalid epoch number: -1'')"

lemma test_parse_number: parse_number_messages
  by (simp add: parse_number_messages_def parse_number_def parse_u64_def parse_uint_def is_ascii_digit_def dec_value_def Let_def)

definition per_page_clamps :: bool where
  "per_page_clamps \<longleftrightarrow>
     clamp_per_page None = DEFAULT_PER_PAGE \<and> clamp_per_page (Some 1000) = MAX_PER_PAGE \<and>
     clamp_per_page (Some 0) = 1 \<and> clamp_per_page (Some 40) = 40"

lemma test_per_page_clamps: per_page_clamps
  by code_simp

section \<open>Extraction\<close>

text \<open>What the tests take from the libraries: \<open>Address::create\<close>, the default header, and a transaction for the fields
  that the library computes or defaults. \<open>lib_ok\<close> is what the tests (and a comment of theirs) say of the defaults.\<close>

record test_lib =
  lib_create :: "address \<Rightarrow> u64 \<Rightarrow> address"
  lib_header :: exec_header
  lib_tx :: transaction

definition lib_ok :: "test_lib \<Rightarrow> bool" where
  "lib_ok lib \<longleftrightarrow> eh_parent_beacon_block_root (lib_header lib) = None \<and> eh_extra_data (lib_header lib) = [] \<and> tx_to (lib_tx lib) = None"

definition addr :: "u8 \<Rightarrow> address" where
  "addr b = ucast b * 0x0101010101010101010101010101010101010101"

definition repeat_b256 :: "u8 \<Rightarrow> b256" where
  "repeat_b256 b = ucast b * 0x0101010101010101010101010101010101010101010101010101010101010101"

definition dirty_topic :: "address \<Rightarrow> b256" where
  "dirty_topic a = push_bit 160 0xffffffffffffffffffffffff + ucast a"

definition clean_topic :: "address \<Rightarrow> b256" where
  "clean_topic a = ucast a"

definition value_word :: "u64 \<Rightarrow> bytes" where
  "value_word value = to_be_bytes (ucast value :: u256)"

definition transfer_log :: "address \<Rightarrow> address \<Rightarrow> address \<Rightarrow> u64 \<Rightarrow> log" where
  "transfer_log token from to value =
     \<lparr>log_address = token, log_topics = [TRANSFER_TOPIC, clean_topic from, clean_topic to], log_data = value_word value\<rparr>"

definition make_tx :: "test_lib \<Rightarrow> u64 \<Rightarrow> address option \<Rightarrow> transaction" where
  "make_tx lib nonce to = (lib_tx lib)\<lparr>tx_ty := 2, tx_nonce := nonce, tx_gas_limit := 100000, tx_to := to, tx_value := 1, tx_input := []\<rparr>"

definition test_consensus_header :: "test_lib \<Rightarrow> u64 \<Rightarrow> exec_header" where
  "test_consensus_header lib number = (lib_header lib)\<lparr>eh_number := number, eh_parent_beacon_block_root := Some (repeat_b256 1),
     eh_nonce := to_be_bytes (push_bit 32 7 OR 9 :: u64), eh_difficulty := ucast (push_bit 16 3 OR 1 :: u64),
     eh_ommers_hash := repeat_b256 2, eh_mix_hash := repeat_b256 3\<rparr>"

definition make_block_with_header :: "exec_header \<Rightarrow> transaction list \<Rightarrow> address list \<Rightarrow> recovered_block" where
  "make_block_with_header header txs senders = \<lparr>rb_header = header, rb_transactions_with_sender = zip senders txs\<rparr>"

definition make_block :: "test_lib \<Rightarrow> u64 \<Rightarrow> transaction list \<Rightarrow> address list \<Rightarrow> recovered_block" where
  "make_block lib number txs senders = make_block_with_header ((lib_header lib)\<lparr>eh_number := number\<rparr>) txs senders"

definition receipt_with_logs :: "log list \<Rightarrow> receipt" where
  "receipt_with_logs logs = \<lparr>rc_success = True, rc_cumulative_gas_used = 21000, rc_logs = logs\<rparr>"

text \<open>The node's \<open>deconstruct_nonce\<close> splits the nonce in epoch and round; \<open>Address::create\<close> is the library's.\<close>

definition test_fns :: "test_lib \<Rightarrow> chain_fns" where
  "test_fns lib = \<lparr>create_address = lib_create lib, deconstruct_nonce = (\<lambda>n. (ucast (drop_bit 32 n), ucast n))\<rparr>"

definition ascii_upper :: "char \<Rightarrow> char" where
  "ascii_upper c = (if 97 \<le> (of_char c :: nat) \<and> (of_char c :: nat) \<le> 122 then char_of (of_char c - 32 :: nat) else c)"

definition tx_type_names_and_parse_round_trip :: bool where
  "tx_type_names_and_parse_round_trip \<longleftrightarrow>
     list_all (\<lambda>(ty, name). tx_type_name (of_nat ty) = name \<and> parse_tx_type name = Some (of_nat ty) \<and>
       parse_tx_type (map ascii_upper name) = Some (of_nat ty) \<and> parse_tx_type (dec_of_nat ty) = Some (of_nat ty))
       (enumerate 0 TX_TYPE_NAMES) \<and>
     tx_type_name 5 = ''unknown'' \<and> tx_type_name 255 = ''unknown'' \<and>
     list_all (\<lambda>(input, expected). parse_tx_type input = expected)
       [(''EIP1559'', Some 2), (''Legacy'', Some 0), (''2'', Some 2), ('' 1 '', Some 1),
        (char_of (9 :: nat) # ''eip7702'' @ [char_of (10 :: nat)], Some 4), (''blob'', None), (''5'', None),
        (''unknown'', None), ([], None), (''02'', None), (''+2'', None), (''-1'', None), (''eip 1559'', None)]"

lemma strip_first_char:
  assumes "[c] \<in> set ws" "\<And>w. w \<in> set ws \<Longrightarrow> w \<noteq> [] \<and> (hd w = c \<longrightarrow> w = [c])"
  shows "trim_start_with ws (c # s) = trim_start_with ws s"
proof -
  have f: "List.filter (\<lambda>w. w \<noteq> []) ws = ws"
    using assms(2) by (simp add: filter_id_conv)
  obtain r where r: "strip_first ws (c # s) = Some r"
    using assms(1) strip_first_None [of ws "c # s"] by fastforce
  then obtain w where w: "w \<in> set ws" "c # s = w @ r" by (blast dest: strip_first_Some)
  then have "w = [c]" using assms(2) [of w] by (metis hd_append2 list.sel(1))
  with w r f show ?thesis by (subst trim_start_with.simps) simp
qed

lemma white_chars:
  assumes "w \<in> set white_space"
  shows "w \<noteq> []" "(of_char (hd w) :: nat) \<le> 32 \<or> 127 \<le> (of_char (hd w) :: nat)" "(of_char (last w) :: nat) \<le> 32 \<or> 127 \<le> (of_char (last w) :: nat)"
    and "tl w = [] \<or> 127 \<le> (of_char (hd w) :: nat) \<and> 127 \<le> (of_char (last w) :: nat)"
proof -
  have "list_all (\<lambda>w. w \<noteq> [] \<and> ((of_char (hd w) :: nat) \<le> 32 \<or> 127 \<le> (of_char (hd w) :: nat)) \<and>
      ((of_char (last w) :: nat) \<le> 32 \<or> 127 \<le> (of_char (last w) :: nat)) \<and>
      (tl w = [] \<or> 127 \<le> (of_char (hd w) :: nat) \<and> 127 \<le> (of_char (last w) :: nat))) white_space"
    by (simp add: white_space_def)
  then show "w \<noteq> []" "(of_char (hd w) :: nat) \<le> 32 \<or> 127 \<le> (of_char (hd w) :: nat)" "(of_char (last w) :: nat) \<le> 32 \<or> 127 \<le> (of_char (last w) :: nat)"
    and "tl w = [] \<or> 127 \<le> (of_char (hd w) :: nat) \<and> 127 \<le> (of_char (last w) :: nat)"
    using assms unfolding list_all_iff by blast+
qed

lemma trim_blank:
  assumes "(of_char c :: nat) \<in> {9, 10, 32}"
  shows "trim_start_with white_space (c # s) = trim_start_with white_space s"
    and "trim_start_with (map rev white_space) (c # s) = trim_start_with (map rev white_space) s"
proof -
  obtain n :: nat where "c = char_of n" "n \<in> {9, 10, 32}" using assms by (metis char_of_char)
  then have c: "[c] \<in> set white_space" by (auto simp: white_space_def)
  have w: "w \<noteq> [] \<and> (hd w = c \<longrightarrow> w = [c]) \<and> (last w = c \<longrightarrow> w = [c])" if "w \<in> set white_space" for w
    using white_chars(1,4) [OF that] assms by (cases w) auto
  show "trim_start_with white_space (c # s) = trim_start_with white_space s"
    by (rule strip_first_char) (use c w in blast)+
  have "[c] \<in> set (map rev white_space)" using imageI [OF c, of rev] by simp
  moreover have "v \<noteq> [] \<and> (hd v = c \<longrightarrow> v = [c])" if "v \<in> set (map rev white_space)" for v
    using that w by (auto simp: hd_rev)
  ultimately show "trim_start_with (map rev white_space) (c # s) = trim_start_with (map rev white_space) s"
    by (rule strip_first_char)
qed

lemma trim_text:
  assumes "32 < (of_char c :: nat)" "(of_char c :: nat) < 127"
  shows "trim_start_with white_space (c # s) = c # s" "trim_start_with (map rev white_space) (c # s) = c # s"
proof -
  have w: "hd w \<noteq> c \<and> last w \<noteq> c" if "w \<in> set white_space" for w
    using white_chars(2,3) [OF that] assms by auto
  show "trim_start_with white_space (c # s) = c # s"
    by (rule trim_start_with_id) (use w in \<open>metis hd_append2 list.sel(1)\<close>)
  show "trim_start_with (map rev white_space) (c # s) = c # s"
    by (rule trim_start_with_id) (use w in \<open>auto, metis hd_append2 hd_rev list.sel(1) rev_is_Nil_conv\<close>)
qed

lemma trim_examples: "trim [] = []" "trim '' 1 '' = ''1''"
  "trim (char_of (9 :: nat) # ''eip7702'' @ [char_of (10 :: nat)]) = ''eip7702''"
  using trim_start_with_id [of white_space "[]"] trim_start_with_id [of "map rev white_space" "[]"]
  by (simp_all add: trim_def trim_blank trim_text)

lemma dec_of_digit: "n < 10 \<Longrightarrow> dec_of_nat n = [digit_char n]"
  by (subst dec_of_nat.simps) simp

lemma test_names: "list_all (\<lambda>(ty, name). tx_type_name (of_nat ty) = name \<and> parse_tx_type name = Some (of_nat ty) \<and>
       parse_tx_type (map ascii_upper name) = Some (of_nat ty) \<and> parse_tx_type (dec_of_nat ty) = Some (of_nat ty))
       (enumerate 0 TX_TYPE_NAMES)"
  by (simp add: eval_tx_type dec_of_digit digit_char_def ascii_upper_def)

lemma test_inputs:
  "parse_tx_type '' 1 '' = Some 1" "parse_tx_type (char_of (9 :: nat) # ''eip7702'' @ [char_of (10 :: nat)]) = Some 4" "parse_tx_type [] = None"
  unfolding parse_tx_type_def trim_examples
  by (simp_all add: TX_TYPE_NAMES_def eq_ignore_ascii_case_def ascii_lower_def is_ascii_digit_def char_is)

lemma test_tx_type_names: tx_type_names_and_parse_round_trip
  unfolding tx_type_names_and_parse_round_trip_def list.pred_inject prod.case
  by (intro conjI TrueI test_names test_inputs) (simp_all add: eval_tx_type)

definition expected_fields :: header_consensus_fields where
  "expected_fields = \<lparr>hc_digest = repeat_b256 1, hc_epoch = 7, hc_round = 9, hc_batch_index = 3, hc_worker_id = 1,
     hc_batch_digest = repeat_b256 2, hc_prev_randao = Some (repeat_b256 3), hc_closes_epoch = False\<rparr>"

definition decode_consensus_fields_round_trips_tn_header_encoding :: "test_lib \<Rightarrow> bool" where
  "decode_consensus_fields_round_trips_tn_header_encoding lib \<longleftrightarrow>
     (let header = test_consensus_header lib 42; closing = header\<lparr>eh_extra_data := replicate 32 0xaa\<rparr>
      in decode_consensus_fields (test_fns lib) header = Some expected_fields \<and>
         map_option hc_closes_epoch (decode_consensus_fields (test_fns lib) closing) = Some True \<and>
         decode_consensus_fields (test_fns lib) (closing\<lparr>eh_parent_beacon_block_root := None\<rparr>) = None)"

definition decode_consensus_fields_splits_nonce_and_difficulty_at_bit_boundaries :: "test_lib \<Rightarrow> bool" where
  "decode_consensus_fields_splits_nonce_and_difficulty_at_bit_boundaries lib \<longleftrightarrow>
     map_option (\<lambda>f. (hc_epoch f, hc_round f, hc_batch_index f, hc_worker_id f))
       (decode_consensus_fields (test_fns lib) ((test_consensus_header lib 1)\<lparr>eh_nonce := to_be_bytes (0xffffffffffffffff :: u64), eh_difficulty := 0xffffffffffffffff\<rparr>)) =
     Some (0xffffffff, 0xffffffff, drop_bit 16 0xffffffffffffffff, 0xffff)"

definition decode_consensus_fields_rejects_difficulty_wider_than_u64 :: "test_lib \<Rightarrow> bool" where
  "decode_consensus_fields_rejects_difficulty_wider_than_u64 lib \<longleftrightarrow>
     decode_consensus_fields (test_fns lib) ((test_consensus_header lib 1)\<lparr>eh_difficulty := push_bit 64 1\<rparr>) = None"

definition decode_consensus_fields_empty_closing_block_carries_placeholders :: "test_lib \<Rightarrow> bool" where
  "decode_consensus_fields_empty_closing_block_carries_placeholders lib \<longleftrightarrow>
     (case decode_consensus_fields (test_fns lib) ((lib_header lib)\<lparr>eh_number := 4242, eh_parent_beacon_block_root := Some (repeat_b256 0x0c),
          eh_nonce := to_be_bytes (push_bit 32 7 OR 9 :: u64), eh_difficulty := 0, eh_ommers_hash := 0, eh_mix_hash := repeat_b256 0x0c, eh_extra_data := replicate 32 0xaa\<rparr>) of
        None \<Rightarrow> False
      | Some f \<Rightarrow> hc_digest f = repeat_b256 0x0c \<and> (hc_epoch f, hc_round f) = (7, 9) \<and>
          (hc_batch_index f, hc_worker_id f) = (0, 0) \<and> hc_batch_digest f = 0 \<and> hc_closes_epoch f)"

lemmas eval_header = lib_ok_def decode_consensus_fields_def test_consensus_header_def test_fns_def u64_try_from_def
  from_to_be_bytes

lemma test_decode_header: "lib_ok lib \<Longrightarrow> decode_consensus_fields_round_trips_tn_header_encoding lib"
  by (simp add: decode_consensus_fields_round_trips_tn_header_encoding_def eval_header expected_fields_def Let_def)

lemma test_decode_boundaries: "lib_ok lib \<Longrightarrow> decode_consensus_fields_splits_nonce_and_difficulty_at_bit_boundaries lib"
  by (simp add: decode_consensus_fields_splits_nonce_and_difficulty_at_bit_boundaries_def eval_header)

lemma test_decode_wide: "lib_ok lib \<Longrightarrow> decode_consensus_fields_rejects_difficulty_wider_than_u64 lib"
  by (simp add: decode_consensus_fields_rejects_difficulty_wider_than_u64_def eval_header)

lemma test_decode_placeholders: "lib_ok lib \<Longrightarrow> decode_consensus_fields_empty_closing_block_carries_placeholders lib"
  by (simp add: decode_consensus_fields_empty_closing_block_carries_placeholders_def eval_header)

definition log_of :: "address \<Rightarrow> b256 list \<Rightarrow> bytes \<Rightarrow> log" where
  "log_of a topics data = \<lparr>log_address = a, log_topics = topics, log_data = data\<rparr>"

definition conforming_transfer_log_decodes :: bool where
  "conforming_transfer_log_decodes \<longleftrightarrow>
     (let token = addr 0xaa; from = addr 0xbb; to = addr 0xcc
      in decode_transfer_log (transfer_log token from to 12345) 7 1 2 =
         Some \<lparr>tf_block_number = 7, tf_tx_index = 1, tf_log_index = 2, tf_token = token, tf_from = from, tf_to = to, tf_value = 12345\<rparr>)"

definition other_logs_are_excluded :: bool where
  "other_logs_are_excluded \<longleftrightarrow>
     (let a = addr 0xaa; b = clean_topic (addr 0xbb); c = clean_topic (addr 0xcc)
      in decode_transfer_log (log_of a [TRANSFER_TOPIC, b, c, 1] []) 0 0 0 = None \<and>
         decode_transfer_log (log_of a [TRANSFER_TOPIC, b] (value_word 1)) 0 0 0 = None \<and>
         decode_transfer_log (log_of a [TRANSFER_TOPIC, b, c] (value_word 5 @ [0])) 0 0 0 = None)"

definition topic_to_address_truncates_last_twenty_bytes :: bool where
  "topic_to_address_truncates_last_twenty_bytes \<longleftrightarrow>
     (let from = addr 0x11; to = addr 0x22
      in map_option (\<lambda>row. (tf_from row, tf_to row))
           (decode_transfer_log (log_of (addr 0xaa) [TRANSFER_TOPIC, dirty_topic from, dirty_topic to] (value_word 9)) 0 0 0) =
         Some (from, to))"

lemmas eval_log = decode_transfer_log_def transfer_log_def log_of_def value_word_def clean_topic_def dirty_topic_def address_from_word_def
  addr_def length_to_be_bytes from_to_be_bytes Let_def

lemma test_transfer_log: conforming_transfer_log_decodes
  by (simp add: conforming_transfer_log_decodes_def eval_log)

lemma test_other_logs: other_logs_are_excluded
  by (simp add: other_logs_are_excluded_def eval_log)

lemma test_dirty_topic: topic_to_address_truncates_last_twenty_bytes
  by (simp add: topic_to_address_truncates_last_twenty_bytes_def eval_log)

text \<open>The tests of \<open>extract_block\<close>.\<close>

definition address_rows_cover_sender_recipient_and_creation :: "test_lib \<Rightarrow> bool" where
  "address_rows_cover_sender_recipient_and_creation lib \<longleftrightarrow>
     (let sender_a = addr 1; recipient = addr 2; sender_b = addr 3;
          block = make_block lib 5 [make_tx lib 0 (Some recipient), make_tx lib 7 None] [sender_a, sender_b];
          extracted = extract_block (test_fns lib) block [receipt_with_logs [], receipt_with_logs []];
          row = (\<lambda>a i. \<lparr>ar_address = a, ar_block_number = 5, ar_tx_index = i, ar_tx_type = 2\<rparr>)
      in ex_address_rows extracted = [row sender_a 0, row recipient 0, row sender_b 1, row (lib_create lib sender_b 7) 1] \<and>
         ex_tx_types extracted = map (\<lambda>i. \<lparr>tr_tx_type = 2, tr_block_number = 5, tr_tx_index = i\<rparr>) [0, 1])"

definition tx_types_carry_each_transactions_eip2718_type :: "test_lib \<Rightarrow> bool" where
  "tx_types_carry_each_transactions_eip2718_type lib \<longleftrightarrow>
     (let sender = addr 0x0d;
          block = make_block lib 11 [(lib_tx lib)\<lparr>tx_ty := 0\<rparr>, make_tx lib 1 (Some (addr 0x0e)), (lib_tx lib)\<lparr>tx_ty := 1\<rparr>]
                    [sender, sender, sender];
          extracted = extract_block (test_fns lib) block []
      in ex_tx_types extracted = map (\<lambda>(t, i). \<lparr>tr_tx_type = t, tr_block_number = 11, tr_tx_index = i\<rparr>) [(0, 0), (2, 1), (1, 2)] \<and>
         length (ex_address_rows extracted) = 6 \<and>
         list_all (\<lambda>r. ar_tx_type r = tr_tx_type (ex_tx_types extracted ! unat (ar_tx_index r))) (ex_address_rows extracted))"

definition consensus_row_decoded_from_header_and_absent_for_genesis :: "test_lib \<Rightarrow> bool" where
  "consensus_row_decoded_from_header_and_absent_for_genesis lib \<longleftrightarrow>
     (let block = make_block_with_header (test_consensus_header lib 21) [make_tx lib 0 (Some (addr 2))] [addr 1];
          real_genesis = (test_consensus_header lib 0)\<lparr>eh_parent_beacon_block_root := Some 0\<rparr>
      in ex_consensus (extract_block (test_fns lib) block []) = Some \<lparr>cr_digest = repeat_b256 1, cr_epoch = 7, cr_round = 9, cr_block_number = 21\<rparr> \<and>
         ex_consensus (extract_block (test_fns lib) (make_block lib 0 [] []) []) = None \<and>
         decode_consensus_fields (test_fns lib) real_genesis = None \<and>
         ex_consensus (extract_block (test_fns lib) (make_block_with_header real_genesis [] []) []) = None)"

definition self_send_yields_two_identical_rows_pre_dedup :: "test_lib \<Rightarrow> bool" where
  "self_send_yields_two_identical_rows_pre_dedup lib \<longleftrightarrow>
     (let me = addr 0x0a;
          rows = ex_address_rows (extract_block (test_fns lib) (make_block lib 1 [make_tx lib 0 (Some me)] [me]) [receipt_with_logs []])
      in length rows = 2 \<and> rows ! 0 = rows ! 1)"

definition transfers_and_candidates_extracted_from_receipt_logs :: "test_lib \<Rightarrow> bool" where
  "transfers_and_candidates_extracted_from_receipt_logs lib \<longleftrightarrow>
     (let token_a = addr 0xa1; token_b = addr 0xa2; from = addr 0xb1; to = addr 0xb2;
          block = make_block lib 9 [make_tx lib 0 (Some token_a)] [addr 0xc1];
          extracted = extract_block (test_fns lib) block [receipt_with_logs
            [transfer_log token_a from to 100, log_of token_a [TRANSFER_TOPIC] [], transfer_log token_b to from 200, transfer_log token_a from to 300]]
      in length (ex_transfers extracted) = 3 \<and> map tf_log_index (ex_transfers extracted) = [0, 2, 3] \<and>
         ex_token_candidates extracted = [token_a, token_b])"

lemmas eval_block = extract_block_def extract_tx_def make_block_with_header_def make_block_def make_tx_def receipt_with_logs_def slice_get_def push_new_def

lemma test_address_rows: "lib_ok lib \<Longrightarrow> address_rows_cover_sender_recipient_and_creation lib"
  by (simp add: address_rows_cover_sender_recipient_and_creation_def eval_block eval_header Let_def)

lemma test_tx_types: "lib_ok lib \<Longrightarrow> tx_types_carry_each_transactions_eip2718_type lib"
  by (simp add: tx_types_carry_each_transactions_eip2718_type_def eval_block eval_header Let_def)

lemma test_consensus_row: "lib_ok lib \<Longrightarrow> consensus_row_decoded_from_header_and_absent_for_genesis lib"
  by (simp add: consensus_row_decoded_from_header_and_absent_for_genesis_def eval_block eval_header Let_def)

lemma test_self_send: "lib_ok lib \<Longrightarrow> self_send_yields_two_identical_rows_pre_dedup lib"
  by (simp add: self_send_yields_two_identical_rows_pre_dedup_def eval_block eval_header Let_def)

lemma test_transfers: "lib_ok lib \<Longrightarrow> transfers_and_candidates_extracted_from_receipt_logs lib"
  by (simp add: transfers_and_candidates_extracted_from_receipt_logs_def eval_block eval_header eval_log)

section \<open>Wire types\<close>

definition make_signed_tx :: "test_lib \<Rightarrow> bytes \<Rightarrow> u256 \<Rightarrow> transaction" where
  "make_signed_tx lib input value = (lib_tx lib)\<lparr>tx_ty := 2, tx_nonce := 3, tx_gas_limit := 100000, tx_to := Some (addr 0x22),
     tx_value := value, tx_input := input\<rparr>"

definition make_tx_data :: "test_lib \<Rightarrow> bytes \<Rightarrow> u256 \<Rightarrow> tx_data" where
  "make_tx_data lib input value = \<lparr>td_sender = addr 0x11, td_tx = make_signed_tx lib input value, td_success = True, td_gas_used = 21000,
     td_block_number = 9, td_tx_index = 0, td_base_fee = Some 1000000000, td_timestamp = 1700000000\<rparr>"

definition input_policy_list_vs_detail :: "test_lib \<Rightarrow> bool" where
  "input_policy_list_vs_detail lib \<longleftrightarrow>
     (let input = (\<lambda>mode bytes. wtx_input (build_api_transaction (make_tx_data lib bytes 0) mode));
          short = [0xaa, 0xbb, 0xcc]; long = [0xa9, 0x05, 0x9c, 0xbb, 0x01, 0x02]
      in selector_hex short = None \<and> input input_mode.List short = ''0x'' \<and> input Detail short = ''0xaabbcc'' \<and>
         input input_mode.List long = ''0xa9059cbb'' \<and> input Detail long = ''0xa9059cbb0102'' \<and>
         input input_mode.List long \<noteq> input Detail long \<and>
         input input_mode.List [] = ''0x'' \<and> input Detail [] = ''0x'')"

lemma hex_tests: "hex_bytes [] = ''0x''" "hex_bytes [0xaa, 0xbb, 0xcc] = ''0xaabbcc''"
  "hex_bytes [0xa9, 0x05, 0x9c, 0xbb] = ''0xa9059cbb''" "hex_bytes [0xa9, 0x05, 0x9c, 0xbb, 0x01, 0x02] = ''0xa9059cbb0102''"
  by code_simp+

lemma test_input_policy: "input_policy_list_vs_detail lib"
  by (simp add: input_policy_list_vs_detail_def build_api_transaction_def make_tx_data_def make_signed_tx_def selector_hex_def unwrap_or_def
      hex_tests Let_def)

definition amount_and_tel_conversions :: "wire_fns \<Rightarrow> bool" where
  "amount_and_tel_conversions w \<longleftrightarrow>
     token_amount w ''1500000000000000000'' 18 = 3 / 2 \<and> token_amount w ''1500'' 0 = 1500 \<and>
     token_amount w ''garbage'' 18 = 0 \<and> wei_to_tel 5000000000000000000 = 5"

text \<open>The doubles of the test are computed by their exponents.\<close>

lemma floorlog_numeral: "floorlog 2 (numeral n) = Suc (floorlog 2 (numeral n div 2))"
  by (subst compute_floorlog) simp

lemmas eval_exponent = f64_exponent_def floorlog_numeral compute_floorlog [of 2 "0 :: nat"] compute_floorlog [of 2 "Suc 0"]

lemma quotient_of_three_halves: "quotient_of (3 / 2) = (3, 2)"
  by (simp add: rat_divide_code Rat.normalize_def)

lemma test_exponents: "f64_exponent 1500 = - 42" "f64_exponent 1500000000000000000 = 8" "f64_exponent 5000000000000000000 = 10"
  "f64_exponent (3 / 2) = - 52" "f64_exponent 5 = - 50"
  by (simp_all add: eval_exponent quotient_of_three_halves)

lemma test_doubles: "f64_round 1500 = 1500" "f64_round 1500000000000000000 = 1500000000000000000"
  "f64_round 5000000000000000000 = 5000000000000000000" "f64_round (3 / 2) = 3 / 2" "f64_round 5 = 5"
  by (simp_all add: f64_round_def test_exponents power_int_minus round_half_even_def)

lemma test_amounts:
  assumes "powi_10 w 18 = 10 ^ 18" "powi_10 w 0 = 1"
  shows "amount_and_tel_conversions w"
proof -
  have "parse_f64 ''1500000000000000000'' = Some 1500000000000000000" "parse_f64 ''1500'' = Some 1500" "parse_f64 ''garbage'' = None"
    by (simp_all add: parse_f64_def is_ascii_digit_def dec_value_def test_doubles)
  moreover have "parse_f64 (to_dec (5000000000000000000 :: u256)) = Some 5000000000000000000"
    by (simp add: to_dec_def test_doubles)
  ultimately show ?thesis
    using assms by (simp add: amount_and_tel_conversions_def token_amount_def wei_to_tel_def unwrap_or_def f64_div_def f64_round_def [of 0] test_doubles)
qed

text \<open>The consensus fields of a block; what the tests assert of the rendered JSON is left to the serializer.\<close>

definition sample_block_consensus :: "wire_fns \<Rightarrow> api_block_consensus" where
  "sample_block_consensus w = build_block_consensus w
     \<lparr>hc_digest = repeat_b256 0xaa, hc_epoch = 7, hc_round = 9, hc_batch_index = 3, hc_worker_id = 1,
      hc_batch_digest = repeat_b256 0xbb, hc_prev_randao = Some (repeat_b256 0xcc), hc_closes_epoch = True\<rparr> (Some 4242)"

definition build_block_consensus_maps_every_field :: "wire_fns \<Rightarrow> bool" where
  "build_block_consensus_maps_every_field w \<longleftrightarrow>
     (let c = sample_block_consensus w
      in wbc_digest c = hex_b256 (repeat_b256 0xaa) \<and> wbc_digest_bs58 c = bs58_digest w (repeat_b256 0xaa) \<and>
         wbc_epoch c = 7 \<and> wbc_round c = 9 \<and> wbc_batch_index c = 3 \<and> wbc_worker_id c = 1 \<and>
         wbc_batch_digest c = hex_b256 (repeat_b256 0xbb) \<and> wbc_prev_randao c = Some (hex_b256 (repeat_b256 0xcc)) \<and>
         wbc_closes_epoch c \<and> wbc_consensus_number c = Some 4242)"

lemma test_block_consensus: "build_block_consensus_maps_every_field w"
  by (simp add: build_block_consensus_maps_every_field_def sample_block_consensus_def build_block_consensus_def Let_def)

text \<open>\<open>seal\<close> is \<open>SealedBlock::seal_slow\<close> on a block without transactions.\<close>

definition seal_empty :: "(exec_header \<Rightarrow> b256 \<times> u64) \<Rightarrow> exec_header \<Rightarrow> sealed_block" where
  "seal_empty seal header =
     \<lparr>sb_hash = fst (seal header), sb_header = header, sb_transactions = [], sb_rlp_length = snd (seal header)\<rparr>"

definition build_api_block_decodes_consensus_from_header :: "wire_fns \<Rightarrow> test_lib \<Rightarrow> (exec_header \<Rightarrow> b256 \<times> u64) \<Rightarrow> bool" where
  "build_api_block_decodes_consensus_from_header w lib seal \<longleftrightarrow>
     (let header = (lib_header lib)\<lparr>eh_number := 5, eh_parent_beacon_block_root := Some (repeat_b256 0xaa), eh_ommers_hash := repeat_b256 0xbb,
            eh_mix_hash := repeat_b256 0xcc, eh_difficulty := ucast (push_bit 16 3 OR 1 :: u64),
            eh_nonce := to_be_bytes (push_bit 32 7 OR 9 :: u64)\<rparr>
      in (case wbl_consensus (build_api_block w (test_fns lib) (seal_empty seal header)) of
            None \<Rightarrow> False
          | Some c \<Rightarrow> wbc_digest c = hex_b256 (repeat_b256 0xaa) \<and> (wbc_epoch c, wbc_round c) = (7, 9) \<and>
              (wbc_batch_index c, wbc_worker_id c) = (3, 1) \<and> wbc_batch_digest c = hex_b256 (repeat_b256 0xbb) \<and>
              wbc_consensus_number c = None) \<and>
         wbl_consensus (build_api_block w (test_fns lib) (seal_empty seal (lib_header lib))) = None)"

lemma test_api_block: "lib_ok lib \<Longrightarrow> build_api_block_decodes_consensus_from_header w lib seal"
  by (simp add: build_api_block_decodes_consensus_from_header_def build_api_block_def seal_empty_def build_block_consensus_def
      eval_header Let_def)

text \<open>Certificates: the keys, the record, its digest and its quorum are the library's; \<open>insert\<close> keeps the bitmap's indices sorted.
  That the base58 digest extends the node's short display is a matter of the library.\<close>

definition build_epoch_certificate_expands_bitmap_against_committee ::
    "wire_fns \<Rightarrow> bls_key list \<Rightarrow> epoch_record \<Rightarrow> bytes \<Rightarrow> bool" where
  "build_epoch_certificate_expands_bitmap_against_committee w keys default_record default_signature \<longleftrightarrow>
     (let record = default_record\<lparr>er_epoch := 4, er_committee := keys\<rparr>;
          cert = \<lparr>ec_epoch_hash = er_digest record, ec_signature = default_signature, ec_signed_authorities = [0, 2]\<rparr>;
          api = build_epoch_certificate w record cert None;
          late = build_epoch_certificate w record (cert\<lparr>ec_signed_authorities := [0, 2, 7]\<rparr>) (Some True);
          signers = [bls_display w (keys ! 0), bls_display w (keys ! 2)]
      in wec_signer_indices api = [0, 2] \<and> wec_signers api = signers \<and> wec_unresolved_signers api = 0 \<and>
         wec_signer_count api = 2 \<and> wec_super_quorum api = 3 \<and> wec_verified api = None \<and>
         wec_epoch_hash api = hex_digest (er_digest record) \<and> wec_signature api = signature_display w default_signature \<and>
         wec_signer_indices late = [0, 2, 7] \<and> wec_signers late = signers \<and> wec_unresolved_signers late = 1 \<and>
         wec_signer_count late = 3 \<and> wec_verified late = Some True)"

lemma test_epoch_certificate:
  "length keys = 3 \<Longrightarrow> er_super_quorum record = 3 \<Longrightarrow>
   build_epoch_certificate_expands_bitmap_against_committee w keys record signature"
  by (auto simp: build_epoch_certificate_expands_bitmap_against_committee_def build_epoch_certificate_def slice_get_def Let_def)

end
