(* ===== verification/Spec2Isabelle.thy ===== *)
theory Spec2Isabelle
  imports Server Api_Consensus_Properties Chain_Recovery Read_Seam Source_Tests
begin

text \<open>
  A verification development of the block explorer indexer, an extension of a Telcoin node. The program
  follows the node's blocks, writes an index of them into SQLite, and serves the index, joined with
  live reads of the node, over HTTP. Its parts, under \<open>src/src\<close>:

  \<^item> \<open>extract.rs\<close> turns an executed block and its receipts into rows (address, type and transfer rows,
    token candidates, the consensus output that the header names). Theories \<open>Extract\<close> (the functions and
    loops of the file) and \<open>Extract_Correct\<close> (what the rows are: exactly the senders, recipients and
    created contracts, exactly the well-formed \<open>Transfer\<close> logs, in order; how a packed header decodes).
  \<^item> \<open>storage.rs\<close> holds the schema, the writer and the page queries. \<open>Sqlite\<close> is the database: the tables as
    a record, and a connection with its committed and transaction state, whose every statement may fail
    (a budget counts the statements left; a \<open>u64\<close> above the largest \<open>i64\<close> is refused when it is bound).
    \<open>Storage\<close> has \<open>migrate\<close>, \<open>Writer::open\<close>, \<open>index_block\<close>, \<open>apply_block\<close>, \<open>token_fetch_states\<close>;
    \<open>Storage_Reads\<close> the page and count queries and the \<open>ReadPool\<close> as a step relation.
    \<open>Storage_Correct\<close> computes the effect of a block on every path, \<open>Storage_History\<close> that of any sequence
    of writes with any failures, \<open>Storage_Schema\<close> that of opening a file with crashes in between,
    \<open>Storage_Reads_Correct\<close> the pages, their order and totals and the pool's invariant.
    \<open>Storage_Properties\<close> states the properties; \<open>Storage_Spec\<close> the abstract specification (the list of
    indexed blocks) that \<open>index_block\<close> refines.
  \<^item> \<open>status.rs\<close>, the health record the loop writes and the API reads: theory \<open>Status\<close>.
  \<^item> \<open>exex.rs\<close>, the indexing loop: \<open>Exex\<close> has \<open>indexer_exex\<close>, \<open>catch_up\<close>, \<open>index_chain\<close> and
    \<open>report_progress\<close> over a record \<open>world\<close> of the writer's connection, the status and the heights reported
    to the node. \<open>Exex_Correct\<close> proves its invariants (a small Hoare logic for actions that return or fail),
    \<open>Exex_Progress\<close> that it leaves no gap, \<open>Exex_Convergence\<close> that catching up reaches the tip;
    \<open>Exex_Properties\<close> states the properties.
  \<^item> \<open>node_reads.rs\<close>, the read-only view of the node: \<open>Node_Env\<close> has the interfaces of the node as parameter
    records, \<open>Node_Reads\<close> and \<open>Node_Consensus\<close> every reader, \<open>Node_Reads_Correct\<close> and \<open>Node_Properties\<close> what they
    return (gas per transaction, hydration of index pointers, pages, ranking, pinned committees).
  \<^item> \<open>types.rs\<close>, the wire types and their builders: \<open>Wire_Types\<close>, \<open>Wire_Builders\<close>, with \<open>Float64\<close>.
  \<^item> \<open>api.rs\<close>, the handlers: \<open>Api\<close> (health, stats, transactions, blocks, addresses, tokens, validators, calls)
    and \<open>Api_Consensus\<close> (epochs and consensus). \<open>Api_Correct\<close>, \<open>Api_Properties\<close> and \<open>Api_Consensus_Properties\<close>
    compose them with the index and the node reads. The rest of the file is in \<open>Http\<close>: the route table, the dispatch
    of a request to its handler, the status and body of every answer, CORS and the start of \<open>serve\<close>; \<open>Http_Properties\<close>
    proves which handler a path reaches, the error contract and what each route depends on.
  \<^item> \<open>main.rs\<close>: \<open>Host\<close> has the arguments, \<open>main\<close>, and the task it installs: \<open>indexer_exex\<close> with the API it spawns
    before catching up and stops at shutdown. \<open>Lifetimes\<close> runs that program over the same file any number of
    times, each life ended at any statement or notification, and \<open>Recovery\<close> lets one undisturbed run follow.
    \<open>Loop_Refinement\<close> gives the loop an abstract program over the list of indexed blocks and proves that
    \<open>indexer_exex\<close> refines it; \<open>Chain_Recovery\<close> composes it with the crashes: the index becomes the chain.
  \<^item> \<open>Server\<close> runs the loop and the requests as one system, a step relation in which the commit of a block, the
    publication of its height, and the check, the rows and the total of a transaction detail or an address page
    interleave in any order. \<open>Read_Seam\<close> is the other concurrent part, \<open>NodeReader::read\<close>: callers that queue for a
    permit, take it into a blocking task, and get its answer or leave before it, as a step relation.
  \<^item> \<open>Source_Tests\<close> evaluates unit tests of the repository on the model.
  \<^item> Shared: \<open>Prelude\<close> (result and action types, Rust's saturating and checked arithmetic, list facts),
    \<open>Encoding\<close> (big-endian bytes, hex, decimal, trimming), \<open>BTree_Map\<close> (\<open>BTreeMap\<close> and, where the order is
    not observed, \<open>HashMap\<close>), \<open>Paging\<close> (the clamps and window arithmetic of \<open>types.rs\<close>, \<open>api.rs\<close>, \<open>node_reads.rs\<close>).

  The parts are joined as the code joins them: \<open>index_pair\<close> extracts a block, asks the writer which tokens
  to fetch, reads their metadata from the node and calls \<open>index_block\<close>; a handler runs its queries on a pooled
  connection and hydrates the pointers it got from the node.
\<close>

text \<open>
  Interfaces are locales: \<open>paged_feed\<close> (a page is a window of one feed; interpreted on the page queries and the
  dense pages of the node reads), \<open>db_invariant\<close> (an invariant that a block write keeps; interpreted on the
  counters, the unique keys and the rows below the cursor), \<open>guarded_log\<close> (a log that grows behind a
  cursor; interpreted on the database), \<open>growing\<close> (actions that only extend a represented list; interpreted on
  \<open>index_block\<close>), \<open>counted_permits\<close> (a semaphore whose permits every step keeps or hands over; interpreted
  on the connection pool and on the seam), and the map interface of \<open>BTree_Map\<close>.

  What the groups of properties show. Writing: \<open>index_block\<close> is atomic, refines the list of blocks, and commits
  when nothing fails; every history of writes, failures included, commits an ascending list of blocks, of which the
  feeds, totals, ranges and counters are exact images; token rows follow their status machine from the fetch to the write; a file is
  rebuilt or kept as its version and chain say. Indexing: the loop leaves no gap, never publishes a height
  that is not committed, converges to the tip, and leaves settled tokens alone; restarts and crashes lose and repeat
  nothing, and one undisturbed run then completes the index; the loop as a whole refines an abstract program, and the
  file is at every moment a prefix of the chain that the nodes delivered, in the end the whole; a loop that dies leaves an API that says so. Serving: pages are
  windows of their feeds and cover them, totals are the lengths, index and node agree row by row, the detail
  of a transaction shows its own transfers, epochs tile the chain, batches are numbered
  within their range, errors are the documented status codes, every path reaches its own
  handler, no route depends on a database it need not, the pool never runs out, at most the permitted number of node
  reads runs at once and those of callers that left still give their permits back.

  Bounds. Machine integers keep their width: \<open>u64\<close> and the others are words, and the saturating, checked and
  wrapping operations are written out. A statement about positions assumes that a block has fewer than
  \<open>2 ^ 64\<close> transactions and logs (\<open>block_sizes_ok\<close>); one about reaching SQLite assumes values below \<open>2 ^ 63\<close>
  (\<open>fits_i64\<close>, \<open>block_fits\<close>), and the deep page property shows what happens beyond. The budget of a
  connection is no fuel: it is the number of statements that succeed before they start to fail, any
  number or none. Every loop of the code runs over a finite list, so the definitions are total.

  Parameters stand for code outside the repository: the node's execution and consensus handles, the ABI
  decoders, \<open>Address::create\<close>, the nonce layout of the node's headers, \<open>keccak256\<close>, the displays of
  keys, signatures and digests, the parsers of addresses, hashes and hex, and \<open>powi\<close>; the record \<open>http_fns\<close> for
  \<open>axum\<close>, \<open>http\<close> and \<open>tower_http\<close> (path matching, extraction, origin lists), whose documented behaviour is stated as
  \<open>documented_match\<close>, \<open>rejects_clients\<close> and \<open>documented_cors\<close>; the record \<open>node_cli\<close> for the node's command line.

  Not modelled. What the CORS layer and the listener do with a request once they are set up is their library's; the
  JSON rendering is \<open>serde\<close>'s, the parsing of the command line \<open>clap\<close>'s. A panic of the loop is not modelled apart from its
  errors: the liveness guard treats both alike. In the handlers a
  node read is the answer of its closure (\<open>node_read\<close>), which \<open>Read_Seam\<close> proves of its permits, channel and task; the
  closure of a read or a query is taken not to panic there. In the handlers the rows and the total of a page are read on one snapshot, where the
  code reads them in two statements outside a transaction: \<open>Server\<close> has them apart, and proves that it makes no difference
  to the transaction detail of any block but block 0, and that the page of an address is then a window of the feed as it was a little
  earlier. A transaction of block 0 passes the check of its detail while nothing is indexed, and is then shown without transfers. An \<open>f64\<close> is a rational rounded to 53 bits, without exponent range, infinities or
  not-a-number, none of which the amounts reach. Token names are byte strings. \<open>exec_block_number\<close> wraps as in
  a release build; its bounds property shows that it never does on values SQLite can hold.
\<close>

end
